(* ===== verification/Prelude.thy ===== *)
theory Prelude
  imports "HOL-Library.Word" "HOL-Library.AList" "HOL-Library.List_Lexorder" "HOL-Library.Multiset"
begin

text \<open>
  What every component shares: the machine integers and byte strings, Rust's fixed arrays
  \<open>[u8; N]\<close> as the type \<open>'n arr\<close>, results that may also panic, big-endian encodings,
  \<open>HashMap\<close> as an association list (its order is the iteration order, which Rust leaves
  open), instants and durations, and \<open>min_by_key\<close> / \<open>max_by_key\<close>.
\<close>

unbundle bit_operations_syntax

named_theorems res_simps \<open>rewriting of results\<close>
named_theorems bytes_simps \<open>lengths and slices of byte strings\<close>
named_theorems map_simps \<open>association lists read as maps\<close>

section \<open>Machine integers and bytes\<close>

type_synonym u8 = "8 word"
type_synonym u16 = "16 word"
type_synonym u32 = "32 word"
type_synonym u64 = "64 word"
type_synonym u128 = "128 word"
type_synonym bytes = "u8 list"

text \<open>A byte-string literal \<open>b"..."\<close>, or a \<open>str\<close> as bytes.\<close>

definition ascii :: "string \<Rightarrow> bytes" where
  "ascii s = map of_char s"

section \<open>Results: a value, an error, or a panic\<close>

text \<open>
  \<open>Result<T, String>\<close> with the panics of slicing, indexing and \<open>unwrap\<close> made a third
  outcome. An error message that Rust formats keeps its template and its arguments.
\<close>

datatype error =
    Msg string
  | MsgNats string "nat list"
  | Wrap string error

datatype 'a res = Ok 'a | Err error | Panic

fun and_then :: "'a res \<Rightarrow> ('a \<Rightarrow> 'b res) \<Rightarrow> 'b res" where
  "and_then (Ok x) f = f x"
| "and_then (Err e) f = Err e"
| "and_then Panic f = Panic"

fun map_err :: "(error \<Rightarrow> error) \<Rightarrow> 'a res \<Rightarrow> 'a res" where
  "map_err f (Ok x) = Ok x"
| "map_err f (Err e) = Err (f e)"
| "map_err f Panic = Panic"

fun ok_or :: "'a option \<Rightarrow> error \<Rightarrow> 'a res" where
  "ok_or None e = Err e"
| "ok_or (Some x) e = Ok x"

text \<open>\<open>.ok()\<close>: the error is dropped, a panic is not.\<close>

fun to_option :: "'a res \<Rightarrow> 'a option res" where
  "to_option (Ok x) = Ok (Some x)"
| "to_option (Err e) = Ok None"
| "to_option Panic = Panic"

fun is_ok :: "'a res \<Rightarrow> bool" where
  "is_ok (Ok x) = True"
| "is_ok r = False"

lemma and_then_eq_Ok [res_simps]: "and_then m f = Ok y \<longleftrightarrow> (\<exists>x. m = Ok x \<and> f x = Ok y)"
  by (cases m) auto

lemma and_then_eq_Err [res_simps]:
  "and_then m f = Err e \<longleftrightarrow> m = Err e \<or> (\<exists>x. m = Ok x \<and> f x = Err e)"
  by (cases m) auto

lemma and_then_eq_Panic [res_simps]:
  "and_then m f = Panic \<longleftrightarrow> m = Panic \<or> (\<exists>x. m = Ok x \<and> f x = Panic)"
  by (cases m) auto

lemma map_res_eq [res_simps]:
  "map_res f m = Ok y \<longleftrightarrow> (\<exists>x. m = Ok x \<and> y = f x)"
  "map_res f m = Err e \<longleftrightarrow> m = Err e"
  "map_res f m = Panic \<longleftrightarrow> m = Panic"
  by (cases m; auto)+

lemma map_err_eq [res_simps]:
  "map_err f m = Ok y \<longleftrightarrow> m = Ok y"
  "map_err f m = Err e \<longleftrightarrow> (\<exists>e'. m = Err e' \<and> e = f e')"
  "map_err f m = Panic \<longleftrightarrow> m = Panic"
  by (cases m; auto)+

lemma ok_or_eq [res_simps]:
  "ok_or m e = Ok y \<longleftrightarrow> m = Some y"
  "ok_or m e = Err e' \<longleftrightarrow> m = None \<and> e' = e"
  "ok_or m e \<noteq> Panic"
  by (cases m; auto)+

lemma to_option_eq [res_simps]:
  "to_option m = Ok (Some x) \<longleftrightarrow> m = Ok x"
  "to_option m = Ok None \<longleftrightarrow> (\<exists>e. m = Err e)"
  "to_option m = Panic \<longleftrightarrow> m = Panic"
  "to_option m \<noteq> Err e'"
  by (cases m; auto)+

lemma is_ok_iff [res_simps]: "is_ok m \<longleftrightarrow> (\<exists>x. m = Ok x)"
  by (cases m) auto

lemma and_then_cong [fundef_cong]:
  "m = m' \<Longrightarrow> (\<And>x. m' = Ok x \<Longrightarrow> f x = g x) \<Longrightarrow> and_then m f = and_then m' g"
  by (cases m') auto

section \<open>Fixed arrays\<close>

text \<open>
  \<open>[u8; N]\<close>: the byte strings of length \<open>N\<close>, with \<open>N\<close> a type-level number as in Rust.
  \<open>arr_of\<close> pads or cuts, so that it is total; the code only builds an array from a slice
  whose length it has checked.
\<close>

typedef (overloaded) ('n::len) arr = "{xs :: bytes. length xs = LENGTH('n)}"
  morphisms bytes_of Abs_arr
  by (rule exI [of _ "replicate LENGTH('n) 0"]) simp

lemma Abs_arr_bytes_of [code abstype]: "Abs_arr (bytes_of a) = a"
  by (rule bytes_of_inverse)

definition arr_of :: "bytes \<Rightarrow> ('n::len) arr" where
  "arr_of xs = Abs_arr (take LENGTH('n) (xs @ replicate LENGTH('n) 0))"

lemma bytes_of_arr_of_take [code abstract]:
  "bytes_of (arr_of xs :: ('n::len) arr) = take LENGTH('n) (xs @ replicate LENGTH('n) 0)"
  by (simp add: arr_of_def Abs_arr_inverse)

lemma length_bytes_of [simp, bytes_simps]: "length (bytes_of (a :: ('n::len) arr)) = LENGTH('n)"
  using bytes_of [of a] by simp

lemma bytes_of_arr_of [simp]:
  "length xs = LENGTH('n) \<Longrightarrow> bytes_of (arr_of xs :: ('n::len) arr) = xs"
  by (simp add: bytes_of_arr_of_take)

lemma arr_of_bytes_of [simp]: "arr_of (bytes_of a) = a"
  by (simp add: bytes_of_inject [symmetric])

lemma bytes_of_eq [simp]: "bytes_of a = bytes_of b \<longleftrightarrow> a = b"
  by (simp add: bytes_of_inject)

lemma arr_of_eq_iff:
  "length xs = LENGTH('n) \<Longrightarrow> length ys = LENGTH('n) \<Longrightarrow>
     (arr_of xs :: ('n::len) arr) = arr_of ys \<longleftrightarrow> xs = ys"
  by (metis bytes_of_arr_of)

definition zero_arr :: "('n::len) arr" where
  "zero_arr = arr_of (replicate LENGTH('n) 0)"

lemma bytes_of_zero_arr [simp]: "bytes_of (zero_arr :: ('n::len) arr) = replicate LENGTH('n) 0"
  by (simp add: zero_arr_def)

instantiation arr :: (len) equal
begin

definition equal_arr :: "'a arr \<Rightarrow> 'a arr \<Rightarrow> bool" where
  "equal_arr a b \<longleftrightarrow> bytes_of a = bytes_of b"

instance
  by standard (simp add: equal_arr_def)

end

text \<open>Arrays compare as in Rust: lexicographically, first byte first.\<close>

instantiation arr :: (len) linorder
begin

definition less_eq_arr :: "'a arr \<Rightarrow> 'a arr \<Rightarrow> bool" where
  "less_eq_arr a b \<longleftrightarrow> bytes_of a \<le> bytes_of b"

definition less_arr :: "'a arr \<Rightarrow> 'a arr \<Rightarrow> bool" where
  "less_arr a b \<longleftrightarrow> bytes_of a < bytes_of b"

instance
  by standard (auto simp: less_eq_arr_def less_arr_def order.strict_iff_not)

end

section \<open>Big-endian encodings\<close>

definition be_bytes :: "nat \<Rightarrow> ('a::len) word \<Rightarrow> bytes" where
  "be_bytes n w = map (\<lambda>i. ucast (drop_bit (8 * (n - Suc i)) w)) [0..<n]"

definition from_be :: "bytes \<Rightarrow> ('a::len) word" where
  "from_be bs = word_rcat bs"

lemma length_be_bytes [simp, bytes_simps]: "length (be_bytes n w) = n"
  by (simp add: be_bytes_def)

lemma nth_be_bytes: "i < n \<Longrightarrow> be_bytes n w ! i = ucast (drop_bit (8 * (n - Suc i)) w)"
  by (simp add: be_bytes_def)

lemma bit_word_rcat_bytes:
  "bit (word_rcat (bs :: bytes) :: ('a::len) word) k \<longleftrightarrow>
     k < LENGTH('a) \<and> k div 8 < length bs \<and> bit (rev bs ! (k div 8)) (k mod 8)"
  unfolding word_rcat_def
  by (simp add: bit_word_of_int_iff bit_horner_sum_uint_exp_iff [where 'a = 8, simplified])

lemma from_be_be_bytes:
  assumes "LENGTH('a) = 8 * n"
  shows "from_be (be_bytes n (w :: ('a::len) word)) = w"
proof (rule bit_word_eqI)
  fix k
  assume k: "k < LENGTH('a)"
  then have d: "k div 8 < n" using assms by (simp add: div_less_iff_less_mult)
  then have "rev (be_bytes n w) ! (k div 8) = ucast (drop_bit (8 * (k div 8)) w)"
    by (simp add: rev_nth nth_be_bytes Suc_diff_Suc)
  then show "bit (from_be (be_bytes n w) :: 'a word) k = bit w k"
    using k d by (simp add: from_be_def bit_word_rcat_bytes bit_ucast_iff bit_drop_bit_eq)
qed

lemma be_bytes_from_be:
  assumes "LENGTH('a) = 8 * n" and "length bs = n"
  shows "be_bytes n (from_be bs :: ('a::len) word) = bs"
proof (rule nth_equalityI)
  show "length (be_bytes n (from_be bs :: 'a word)) = length bs" by (simp add: assms)
next
  fix i
  assume "i < length (be_bytes n (from_be bs :: 'a word))"
  then have i: "i < n" by simp
  show "be_bytes n (from_be bs :: 'a word) ! i = bs ! i"
  proof (rule bit_word_eqI)
    fix k :: nat
    assume k: "k < LENGTH(8)"
    let ?m = "8 * (n - Suc i) + k"
    have m: "?m < 8 * n" "?m div 8 = n - Suc i" "?m mod 8 = k"
      using i k by (auto simp: less_Suc_eq_le)
    have "rev bs ! (n - Suc i) = bs ! i" using i assms by (simp add: rev_nth)
    then show "bit (be_bytes n (from_be bs :: 'a word) ! i) k = bit (bs ! i) k"
      using i k m assms
      by (simp add: nth_be_bytes bit_ucast_iff bit_drop_bit_eq from_be_def bit_word_rcat_bytes)
  qed
qed


section \<open>Slices, indexing and draining\<close>

text \<open>
  \<open>bytes[i..j]\<close>, \<open>bytes[i..]\<close>, \<open>bytes[i]\<close> and \<open>drain(..n)\<close> panic out of range;
  \<open>try_into().unwrap()\<close> panics on a slice of the wrong length.
\<close>

definition sub_bytes :: "bytes \<Rightarrow> nat \<Rightarrow> nat \<Rightarrow> bytes res" where
  "sub_bytes bs i j = (if i \<le> j \<and> j \<le> length bs then Ok (take (j - i) (drop i bs)) else Panic)"

definition sub_from :: "bytes \<Rightarrow> nat \<Rightarrow> bytes res" where
  "sub_from bs i = (if i \<le> length bs then Ok (drop i bs) else Panic)"

definition index :: "'a list \<Rightarrow> nat \<Rightarrow> 'a res" where
  "index xs i = (if i < length xs then Ok (xs ! i) else Panic)"

definition drain :: "nat \<Rightarrow> bytes \<Rightarrow> (bytes \<times> bytes) res" where
  "drain n bs = (if n \<le> length bs then Ok (take n bs, drop n bs) else Panic)"

definition try_arr :: "bytes \<Rightarrow> ('n::len) arr option" where
  "try_arr bs = (if length bs = LENGTH('n) then Some (arr_of bs) else None)"

definition unwrap :: "'a option \<Rightarrow> 'a res" where
  "unwrap m = (case m of None \<Rightarrow> Panic | Some x \<Rightarrow> Ok x)"

definition sub_arr :: "bytes \<Rightarrow> nat \<Rightarrow> nat \<Rightarrow> ('n::len) arr res" where
  "sub_arr bs i j = and_then (sub_bytes bs i j) (\<lambda>s. unwrap (try_arr s))"

lemma sub_bytes_ok [simp]:
  "i \<le> j \<Longrightarrow> j \<le> length bs \<Longrightarrow> sub_bytes bs i j = Ok (take (j - i) (drop i bs))"
  by (simp add: sub_bytes_def)

lemma sub_from_ok [simp]: "i \<le> length bs \<Longrightarrow> sub_from bs i = Ok (drop i bs)"
  by (simp add: sub_from_def)

lemma index_ok [simp]: "i < length xs \<Longrightarrow> index xs i = Ok (xs ! i)"
  by (simp add: index_def)

lemma drain_ok [simp]: "n \<le> length bs \<Longrightarrow> drain n bs = Ok (take n bs, drop n bs)"
  by (simp add: drain_def)

lemma drain_panic [simp]: "length bs < n \<Longrightarrow> drain n bs = Panic"
  by (simp add: drain_def)

lemma drain_not_Err [simp]: "drain n bs \<noteq> Err e"
  by (simp add: drain_def)

lemma try_arr_ok [simp]: "length bs = LENGTH('n) \<Longrightarrow> try_arr bs = Some (arr_of bs :: ('n::len) arr)"
  by (simp add: try_arr_def)

lemma unwrap_simps [simp]: "unwrap (Some x) = Ok x" "unwrap None = Panic"
  by (simp_all add: unwrap_def)

lemma sub_arr_ok [simp]:
  "i \<le> j \<Longrightarrow> j \<le> length bs \<Longrightarrow> j - i = LENGTH('n) \<Longrightarrow>
     sub_arr bs i j = Ok (arr_of (take (j - i) (drop i bs)) :: ('n::len) arr)"
  by (simp add: sub_arr_def)

section \<open>Checked arithmetic\<close>

text \<open>
  \<open>+\<close> and \<open>-\<close> on fixed-width integers panic on overflow, as the default (dev) profile of
  the crate makes them do.
\<close>

definition add_or_panic :: "('a::len) word \<Rightarrow> 'a word \<Rightarrow> 'a word res" where
  "add_or_panic a b = (if unat a + unat b < 2 ^ LENGTH('a) then Ok (a + b) else Panic)"

definition sub_or_panic :: "('a::len) word \<Rightarrow> 'a word \<Rightarrow> 'a word res" where
  "sub_or_panic a b = (if b \<le> a then Ok (a - b) else Panic)"

lemma add_or_panic_Ok [res_simps]:
  "add_or_panic a b = Ok c \<longleftrightarrow> c = a + b \<and> unat c = unat a + unat b"
proof -
  have "unat (a + b) = unat a + unat b \<longleftrightarrow> unat a + unat b < 2 ^ LENGTH('a)"
    by (metis unat_add_lem unsigned_less)
  then show ?thesis by (auto simp: add_or_panic_def)
qed

lemma add_one_Ok [res_simps]: "add_or_panic a 1 = Ok c \<longleftrightarrow> unat c = Suc (unat (a :: ('a::len) word))"
proof -
  have "c = a + 1" if "unat c = Suc (unat a)"
  proof -
    have "(of_nat (unat c) :: 'a word) = of_nat (Suc (unat a))" using that by (rule arg_cong)
    then show ?thesis by (simp add: add.commute)
  qed
  moreover have "unat (a + 1) = Suc (unat a)" if "unat a + unat (1 :: 'a word) < 2 ^ LENGTH('a)"
    using that unat_add_lem [of a 1] by simp
  moreover have "unat c < 2 ^ LENGTH('a)" by (rule unsigned_less)
  ultimately show ?thesis by (auto simp: add_or_panic_def simp del: unsigned_less)
qed

section \<open>Time\<close>

text \<open>An instant counts nanoseconds; a duration is a number of nanoseconds.\<close>

datatype instant = Instant (nanos: nat)

instantiation instant :: linorder
begin

definition less_eq_instant :: "instant \<Rightarrow> instant \<Rightarrow> bool" where
  "less_eq_instant s t \<longleftrightarrow> nanos s \<le> nanos t"

definition less_instant :: "instant \<Rightarrow> instant \<Rightarrow> bool" where
  "less_instant s t \<longleftrightarrow> nanos s < nanos t"

instance
  by standard (auto simp: less_eq_instant_def less_instant_def intro: instant.expand)

end

lemma instant_order_code [code, simp]:
  "Instant a \<le> Instant b \<longleftrightarrow> a \<le> b" "Instant a < Instant b \<longleftrightarrow> a < b"
  by (simp_all add: less_eq_instant_def less_instant_def)

definition from_secs :: "nat \<Rightarrow> nat" where "from_secs s = s * 1000000000"

definition as_secs :: "nat \<Rightarrow> nat" where "as_secs d = d div 1000000000"

text \<open>\<open>duration_since\<close> and \<open>elapsed\<close> saturate at zero.\<close>

definition duration_since :: "instant \<Rightarrow> instant \<Rightarrow> nat" where
  "duration_since now t = nanos now - nanos t"

section \<open>\<open>min_by_key\<close> and \<open>max_by_key\<close>\<close>

text \<open>Rust returns the first of several minimal elements and the last of several maximal ones.\<close>

fun min_by_key :: "('a \<Rightarrow> 'k::linorder) \<Rightarrow> 'a list \<Rightarrow> 'a option" where
  "min_by_key f [] = None"
| "min_by_key f (x # xs) =
     (case min_by_key f xs of None \<Rightarrow> Some x | Some y \<Rightarrow> Some (if f x \<le> f y then x else y))"

fun max_by_key :: "('a \<Rightarrow> 'k::linorder) \<Rightarrow> 'a list \<Rightarrow> 'a option" where
  "max_by_key f [] = None"
| "max_by_key f (x # xs) =
     (case max_by_key f xs of None \<Rightarrow> Some x | Some y \<Rightarrow> Some (if f y < f x then x else y))"

lemma min_by_key_None [simp]: "min_by_key f xs = None \<longleftrightarrow> xs = []"
  by (cases xs) (auto split: option.splits)

lemma max_by_key_None [simp]: "max_by_key f xs = None \<longleftrightarrow> xs = []"
  by (cases xs) (auto split: option.splits)

lemma min_by_key_SomeD:
  "min_by_key f xs = Some x \<Longrightarrow> x \<in> set xs \<and> (\<forall>y \<in> set xs. f x \<le> f y)"
proof (induction xs arbitrary: x)
  case Nil
  then show ?case by simp
next
  case (Cons a xs)
  show ?case
  proof (cases "min_by_key f xs")
    case None
    with Cons.prems show ?thesis by simp
  next
    case (Some b)
    from Cons.IH [OF Some] Cons.prems Some show ?thesis by (auto split: if_splits)
  qed
qed

lemma max_by_key_SomeD:
  "max_by_key f xs = Some x \<Longrightarrow> x \<in> set xs \<and> (\<forall>y \<in> set xs. f y \<le> f x)"
proof (induction xs arbitrary: x)
  case Nil
  then show ?case by simp
next
  case (Cons a xs)
  show ?case
  proof (cases "max_by_key f xs")
    case None
    with Cons.prems show ?thesis by simp
  next
    case (Some b)
    from Cons.IH [OF Some] Cons.prems Some show ?thesis by (auto split: if_splits)
  qed
qed

section \<open>Hash maps\<close>

text \<open>
  A \<open>HashMap\<close> is an association list with distinct keys. The order of the list is the
  iteration order, which Rust leaves open: a theorem about every list covers every order.
\<close>

type_synonym ('k, 'v) hash_map = "('k \<times> 'v) list"

definition hm_ok :: "('k, 'v) hash_map \<Rightarrow> bool" where
  "hm_ok m \<longleftrightarrow> distinct (map fst m)"

definition retain :: "('k \<Rightarrow> 'v \<Rightarrow> bool) \<Rightarrow> ('k, 'v) hash_map \<Rightarrow> ('k, 'v) hash_map" where
  "retain P m = filter (\<lambda>(k, v). P k v) m"

lemma hm_ok_empty [simp, intro]: "hm_ok []"
  by (simp add: hm_ok_def)

lemma hm_ok_update [simp, intro]: "hm_ok m \<Longrightarrow> hm_ok (AList.update k v m)"
  by (simp add: hm_ok_def distinct_update)

lemma hm_ok_delete [simp, intro]: "hm_ok m \<Longrightarrow> hm_ok (AList.delete k m)"
  by (simp add: hm_ok_def distinct_delete)

lemma hm_ok_retain [simp, intro]: "hm_ok m \<Longrightarrow> hm_ok (retain P m)"
  unfolding hm_ok_def retain_def by (rule distinct_map_filter)

lemma map_of_update [simp, map_simps]:
  "map_of (AList.update k v m) k' = (if k' = k then Some v else map_of m k')"
  by (simp add: update_conv)

lemma map_of_delete_if [simp, map_simps]:
  "map_of (AList.delete k m) k' = (if k' = k then None else map_of m k')"
  by (simp add: delete_conv')

lemma map_of_retain [map_simps]:
  assumes "hm_ok m"
  shows "map_of (retain P m) k = (case map_of m k of None \<Rightarrow> None | Some v \<Rightarrow> if P k v then Some v else None)"
  using assms
proof (induction m)
  case Nil
  then show ?case by (simp add: retain_def)
next
  case (Cons p m)
  obtain a b where p: "p = (a, b)" by (cases p)
  have "a \<notin> dom (map_of m)" using Cons.prems p by (simp add: hm_ok_def dom_map_of_conv_image_fst)
  then have "map_of m a = None" by auto
  moreover have "hm_ok m" using Cons.prems by (simp add: hm_ok_def)
  ultimately show ?case using Cons.IH p by (auto simp: retain_def split: option.splits)
qed

lemma length_retain [simp]: "length (retain P m) \<le> length m"
  by (simp add: retain_def)

lemma length_update:
  "length (AList.update k v m) = (if map_of m k = None then Suc (length m) else length m)"
  by (induction m) auto

lemma length_delete:
  "hm_ok m \<Longrightarrow> length (AList.delete k m) = (if map_of m k = None then length m else length m - 1)"
proof (induction m)
  case Nil
  then show ?case by simp
next
  case (Cons p m)
  obtain a b where p: "p = (a, b)" by (cases p)
  have ok: "hm_ok m" using Cons.prems by (simp add: hm_ok_def)
  have a: "map_of m a = None"
    using Cons.prems p by (simp add: hm_ok_def map_of_eq_None_iff)
  show ?case
  proof (cases "a = k")
    case True
    then show ?thesis using p a Cons.IH [OF ok] by simp
  next
    case False
    moreover have "map_of m k \<noteq> None \<Longrightarrow> 0 < length m" by (cases m) auto
    ultimately show ?thesis using p Cons.IH [OF ok] by auto
  qed
qed


section \<open>Vectors\<close>

text \<open>\<open>iter().position(..)\<close> and \<open>Vec::remove(i)\<close>.\<close>

fun position :: "('a \<Rightarrow> bool) \<Rightarrow> 'a list \<Rightarrow> nat option" where
  "position P [] = None"
| "position P (x # xs) = (if P x then Some 0 else map_option Suc (position P xs))"

definition remove_at :: "nat \<Rightarrow> 'a list \<Rightarrow> 'a list" where
  "remove_at i xs = take i xs @ drop (Suc i) xs"

lemma position_SomeD: "position P xs = Some i \<Longrightarrow> i < length xs \<and> P (xs ! i)"
  by (induction xs arbitrary: i) (auto split: if_splits)

lemma position_None_iff: "position P xs = None \<longleftrightarrow> (\<forall>x \<in> set xs. \<not> P x)"
  by (induction xs) auto

lemma nth_update_if: "xs[i := x] ! j = (if i = j \<and> j < length xs then x else xs ! j)"
proof (cases "i < length xs")
  case True
  then show ?thesis by (cases "i = j") simp_all
next
  case False
  then have "xs[i := x] = xs" by (simp add: list_update_beyond)
  then show ?thesis using False by auto
qed

lemma length_remove_at [simp]: "i < length xs \<Longrightarrow> length (remove_at i xs) = length xs - 1"
  by (simp add: remove_at_def)

lemma set_remove_at_subset: "set (remove_at i xs) \<subseteq> set xs"
  using set_take_subset [of i xs] set_drop_subset [of "Suc i" xs] by (auto simp: remove_at_def)

lemma mset_remove_at: "i < length xs \<Longrightarrow> add_mset (xs ! i) (mset (remove_at i xs)) = mset xs"
  by (metis add_mset_add_single id_take_nth_drop mset.simps(2) mset_append remove_at_def union_mset_add_mset_right)

lemma map_remove_at: "map f (remove_at i xs) = remove_at i (map f xs)"
  by (simp add: remove_at_def take_map drop_map)

section \<open>Reachable states\<close>

inductive reach :: "('s \<Rightarrow> bool) \<Rightarrow> ('s \<Rightarrow> 's \<Rightarrow> bool) \<Rightarrow> 's \<Rightarrow> bool" for init step where
  reach_init [intro]: "init s \<Longrightarrow> reach init step s"
| reach_step [intro]: "reach init step s \<Longrightarrow> step s s' \<Longrightarrow> reach init step s'"

text \<open>The contract of every state machine of the development: an invariant of its steps.\<close>

locale machine =
  fixes init :: "'s \<Rightarrow> bool"
    and step :: "'s \<Rightarrow> 's \<Rightarrow> bool"
    and inv :: "'s \<Rightarrow> bool"
  assumes init_inv: "init s \<Longrightarrow> inv s"
    and step_inv: "inv s \<Longrightarrow> step s s' \<Longrightarrow> inv s'"
begin

lemma reach_inv: "reach init step s \<Longrightarrow> inv s"
  by (induction rule: reach.induct) (auto intro: init_inv step_inv)

end

end
