(* ===== verification/Wire.thy ===== *)
theory Wire
  imports Prelude
begin

text \<open>
  The byte-level vocabulary of every format: \<open>take_bytes\<close> (protocol/wire.rs), socket
  addresses with their \<open>[kind][octets][port]\<close> encoding (dht/protocol.rs and the copies of it
  in network/registry.rs), reading \<open>count\<close> items in a loop, and the two interfaces that the
  formats provide: a stream codec (an item followed by anything reads back) and a whole-buffer
  codec.
\<close>

section \<open>Taking a fixed array off the front\<close>

definition take_bytes :: "bytes \<Rightarrow> (('n::len) arr \<times> bytes) res" where
  "take_bytes bs =
     (if length bs < LENGTH('n)
      then Err (MsgNats ''expected {N} bytes, got {}'' [LENGTH('n), length bs])
      else Ok (arr_of (take LENGTH('n) bs), drop LENGTH('n) bs))"

lemma take_bytes_append [simp]: "take_bytes (bytes_of (a :: ('n::len) arr) @ r) = Ok (a, r)"
  by (simp add: take_bytes_def)

lemma take_bytes_append_be [simp]:
  "LENGTH('n) = k \<Longrightarrow> take_bytes (be_bytes k w @ r) = Ok (arr_of (be_bytes k w) :: ('n::len) arr, r)"
  by (simp add: take_bytes_def)

lemma take_bytes_not_Panic [simp]: "take_bytes bs \<noteq> Panic"
  by (simp add: take_bytes_def)

lemma take_bytes_OkD:
  "take_bytes bs = Ok (a :: ('n::len) arr, r) \<Longrightarrow> bs = bytes_of a @ r"
  by (auto simp: take_bytes_def split: if_splits)

lemma take_bytes_Ok_iff:
  "take_bytes bs = Ok (a :: ('n::len) arr, r) \<longleftrightarrow> bs = bytes_of a @ r"
  using take_bytes_OkD by fastforce

section \<open>Two interfaces: codecs\<close>

text \<open>A whole-buffer codec: decoding what was encoded gives the value back.\<close>

locale codec =
  fixes enc :: "'a \<Rightarrow> bytes"
    and dec :: "bytes \<Rightarrow> 'a res"
    and wf :: "'a \<Rightarrow> bool"
  assumes dec_enc: "wf x \<Longrightarrow> dec (enc x) = Ok x"
begin

lemma enc_inj: "wf x \<Longrightarrow> wf y \<Longrightarrow> enc x = enc y \<Longrightarrow> x = y"
  by (metis dec_enc res.inject(1))

lemma enc_eq_iff: "wf x \<Longrightarrow> wf y \<Longrightarrow> enc x = enc y \<longleftrightarrow> x = y"
  using enc_inj by blast

end

text \<open>A stream codec: an encoded item followed by any bytes reads back, leaving those bytes.\<close>

locale stream_codec =
  fixes put :: "'a \<Rightarrow> bytes"
    and get :: "bytes \<Rightarrow> ('a \<times> bytes) res"
    and wf :: "'a \<Rightarrow> bool"
  assumes read_write: "wf x \<Longrightarrow> get (put x @ r) = Ok (x, r)"

sublocale stream_codec \<subseteq> codec put "\<lambda>bs. map_res fst (get bs)" wf
proof
  fix x
  assume "wf x"
  then have "get (put x @ []) = Ok (x, [])" by (rule read_write)
  then show "map_res fst (get (put x)) = Ok x" by simp
qed

text \<open>A loop \<open>for _ in 0..count\<close> that reads one item per round and stops at the first error.\<close>

fun read_many :: "(bytes \<Rightarrow> ('a \<times> bytes) res) \<Rightarrow> nat \<Rightarrow> bytes \<Rightarrow> ('a list \<times> bytes) res" where
  "read_many get 0 bs = Ok ([], bs)"
| "read_many get (Suc n) bs =
     and_then (get bs) (\<lambda>(x, bs).
     and_then (read_many get n bs) (\<lambda>(xs, bs). Ok (x # xs, bs)))"

lemma read_many_length: "read_many get n bs = Ok (xs, r) \<Longrightarrow> length xs = n"
  by (induction n arbitrary: bs xs r) (auto simp: res_simps)

lemma read_many_not_Panic:
  "(\<And>bs. get bs \<noteq> Panic) \<Longrightarrow> read_many get n bs \<noteq> Panic"
  by (induction n arbitrary: bs) (auto simp: res_simps)

context stream_codec begin

lemma prefix_free: "wf x \<Longrightarrow> wf y \<Longrightarrow> put x @ r = put y @ s \<Longrightarrow> x = y \<and> r = s"
  by (metis read_write res.inject(1) prod.inject)

lemma read_many_write:
  "(\<forall>x \<in> set xs. wf x) \<Longrightarrow> read_many get (length xs) (concat (map put xs) @ r) = Ok (xs, r)"
  by (induction xs) (simp_all add: read_write)

lemma concat_write_inj:
  assumes "\<forall>x \<in> set xs. wf x" and "\<forall>x \<in> set ys. wf x" and "length xs = length ys"
    and "concat (map put xs) = concat (map put ys)"
  shows "xs = ys"
  using read_many_write [OF assms(1), of "[]"] read_many_write [OF assms(2), of "[]"] assms(3,4)
  by simp

end

text \<open>A tight stream codec reads nothing else: what it accepts is what it would put.\<close>

locale tight_codec = stream_codec +
  assumes read_exact: "get bs = Ok (x, r) \<Longrightarrow> wf x \<and> bs = put x @ r"
begin

lemma read_iff: "get bs = Ok (x, r) \<longleftrightarrow> wf x \<and> bs = put x @ r"
  using read_exact read_write by blast

lemma read_shrinks: "get bs = Ok (x, r) \<Longrightarrow> length bs = length (put x) + length r"
  by (auto dest: read_exact)

lemma read_many_exact:
  "read_many get n bs = Ok (xs, r) \<Longrightarrow>
     length xs = n \<and> (\<forall>x \<in> set xs. wf x) \<and> bs = concat (map put xs) @ r"
  by (induction n arbitrary: bs xs r) (fastforce simp: res_simps read_iff)+

lemma read_many_iff:
  "read_many get n bs = Ok (xs, r) \<longleftrightarrow>
     length xs = n \<and> (\<forall>x \<in> set xs. wf x) \<and> bs = concat (map put xs) @ r"
  using read_many_exact read_many_write by blast

end

text \<open>An exact stream codec moreover never panics.\<close>

locale exact_codec = tight_codec +
  assumes read_total: "get bs \<noteq> Panic"
begin

lemma read_many_total: "read_many get n bs \<noteq> Panic"
  by (rule read_many_not_Panic) (rule read_total)

end

section \<open>Socket addresses\<close>

text \<open>
  \<open>SocketAddr\<close>: IPv4 octets and port, or IPv6 octets, port, flow information and scope id.
  No format carries the last two: reading back gives zeros there.
\<close>

datatype socket_addr =
    V4 "4 arr" u16
  | V6 "16 arr" u16 (flowinfo: u32) (scope_id: u32)

fun port :: "socket_addr \<Rightarrow> u16" where
  "port (V4 ip p) = p"
| "port (V6 ip p f s) = p"

fun ip_octets :: "socket_addr \<Rightarrow> bytes" where
  "ip_octets (V4 ip p) = bytes_of ip"
| "ip_octets (V6 ip p f s) = bytes_of ip"

fun canon_addr :: "socket_addr \<Rightarrow> socket_addr" where
  "canon_addr (V4 ip p) = V4 ip p"
| "canon_addr (V6 ip p f s) = V6 ip p 0 0"

definition canonical :: "socket_addr \<Rightarrow> bool" where
  "canonical a \<longleftrightarrow> canon_addr a = a"

lemma canonical_canon [simp]: "canonical (canon_addr a)"
  by (cases a) (simp_all add: canonical_def)

lemma canonical_simps [simp]:
  "canonical (V4 ip p)" "canonical (V6 ip6 p f s) \<longleftrightarrow> f = 0 \<and> s = 0"
  by (auto simp: canonical_def)

fun write_address :: "socket_addr \<Rightarrow> bytes" where
  "write_address (V4 ip p) = [4] @ bytes_of ip @ be_bytes 2 p"
| "write_address (V6 ip p f s) = [6] @ bytes_of ip @ be_bytes 2 p"

definition read_address :: "bytes \<Rightarrow> (socket_addr \<times> bytes) res" where
  "read_address bytes =
     (case bytes of
        [] \<Rightarrow> Err (Msg ''truncated address'')
      | addr_type # bytes \<Rightarrow>
          if addr_type = 4 then
            and_then (take_bytes bytes) (\<lambda>(addr_bytes :: 6 arr, bytes).
              let b = bytes_of addr_bytes in
              Ok (V4 (arr_of (take 4 b)) (from_be (drop 4 b)), bytes))
          else if addr_type = 6 then
            and_then (take_bytes bytes) (\<lambda>(addr_bytes :: 18 arr, bytes).
              let b = bytes_of addr_bytes in
              Ok (V6 (arr_of (take 16 b)) (from_be (drop 16 b)) 0 0, bytes))
          else Err (MsgNats ''unknown address type: {}'' [unat addr_type]))"

lemma read_write_address: "read_address (write_address a @ r) = Ok (canon_addr a, r)"
proof (cases a)
  case (V4 ip p)
  have "take_bytes (bytes_of ip @ be_bytes 2 p @ r) =
      Ok (arr_of (bytes_of ip @ be_bytes 2 p) :: 6 arr, r)"
    by (simp add: take_bytes_def)
  then show ?thesis using V4 by (simp add: read_address_def from_be_be_bytes)
next
  case (V6 ip p f s)
  have "take_bytes (bytes_of ip @ be_bytes 2 p @ r) =
      Ok (arr_of (bytes_of ip @ be_bytes 2 p) :: 18 arr, r)"
    by (simp add: take_bytes_def)
  then show ?thesis using V6 by (simp add: read_address_def from_be_be_bytes)
qed

lemma read_address_exact:
  assumes "read_address bs = Ok (a, r)"
  shows "canonical a \<and> bs = write_address a @ r"
proof -
  obtain k bs' where bs: "bs = k # bs'" using assms by (cases bs) (auto simp: read_address_def)
  have join: "n \<le> length b \<Longrightarrow> take n b @ be_bytes 2 (from_be (drop n b) :: u16) = b"
    if "length b = n + 2" for n and b :: bytes
    using that by (simp add: be_bytes_from_be)
  consider "k = 4" | "k = 6" using assms bs by (auto simp: read_address_def split: if_splits)
  then show ?thesis
  proof cases
    case 1
    then obtain ab :: "6 arr" where
      "take_bytes bs' = Ok (ab, r)" "a = V4 (arr_of (take 4 (bytes_of ab))) (from_be (drop 4 (bytes_of ab)))"
      using assms bs by (auto simp: read_address_def res_simps Let_def)
    then show ?thesis using 1 bs join [of "bytes_of ab" 4] by (simp add: take_bytes_Ok_iff)
  next
    case 2
    then obtain ab :: "18 arr" where
      "take_bytes bs' = Ok (ab, r)"
      "a = V6 (arr_of (take 16 (bytes_of ab))) (from_be (drop 16 (bytes_of ab))) 0 0"
      using assms bs by (auto simp: read_address_def res_simps Let_def)
    then show ?thesis using 2 bs join [of "bytes_of ab" 16] by (simp add: take_bytes_Ok_iff)
  qed
qed

lemma read_address_not_Panic: "read_address bs \<noteq> Panic"
  by (auto simp: read_address_def res_simps Let_def split: list.splits)

interpretation addr: exact_codec write_address read_address canonical
proof
  show "read_address (write_address x @ r) = Ok (x, r)" if "canonical x" for x r
    using that by (simp add: read_write_address canonical_def)
qed (use read_address_exact read_address_not_Panic in auto)

lemma length_write_address [bytes_simps]:
  "length (write_address a) = (case a of V4 _ _ \<Rightarrow> 7 | V6 _ _ _ _ \<Rightarrow> 19)"
  by (cases a) simp_all

end
