(* ===== verification/Packets.thy ===== *)
theory Packets
  imports Wire
begin

text \<open>
  protocol/payload.rs and protocol/packet.rs: payload tags, payloads, packet flags, headers
  and packets, with their byte formats. Lemmas: the formats round-trip in both directions, the
  parsers never panic, and each rejects exactly the buffers that are too short or carry an
  unknown tag.
\<close>

section \<open>Payload tags\<close>

datatype payload_tag =
    Handshake
  | Message
  | DhtQuery
  | DhtResponse
  | RelayFrame
  | FileChunk
  | KeepAlive
  | Dummy
  | DhtOperation

definition tag_from_byte :: "u8 \<Rightarrow> payload_tag option" where
  "tag_from_byte byte =
     (if byte = 1 then Some Handshake
      else if byte = 2 then Some Message
      else if byte = 3 then Some DhtQuery
      else if byte = 4 then Some DhtResponse
      else if byte = 5 then Some RelayFrame
      else if byte = 6 then Some FileChunk
      else if byte = 7 then Some KeepAlive
      else if byte = 8 then Some Dummy
      else if byte = 9 then Some DhtOperation
      else None)"

fun tag_to_byte :: "payload_tag \<Rightarrow> u8" where
  "tag_to_byte Handshake = 1"
| "tag_to_byte Message = 2"
| "tag_to_byte DhtQuery = 3"
| "tag_to_byte DhtResponse = 4"
| "tag_to_byte RelayFrame = 5"
| "tag_to_byte FileChunk = 6"
| "tag_to_byte KeepAlive = 7"
| "tag_to_byte Dummy = 8"
| "tag_to_byte DhtOperation = 9"

lemma tag_from_to_byte [simp]: "tag_from_byte (tag_to_byte t) = Some t"
  by (cases t) (simp_all add: tag_from_byte_def)

lemma tag_from_byte_Some: "tag_from_byte b = Some t \<longleftrightarrow> b = tag_to_byte t"
proof
  show "tag_from_byte b = Some t \<Longrightarrow> b = tag_to_byte t"
    by (auto simp: tag_from_byte_def split: if_splits)
qed simp

lemma tag_from_byte_None: "tag_from_byte b = None \<longleftrightarrow> b = 0 \<or> 9 < b"
proof
  assume n: "tag_from_byte b = None"
  show "b = 0 \<or> 9 < b"
  proof (rule ccontr)
    assume "\<not> (b = 0 \<or> 9 < b)"
    then have "unat b \<noteq> 0" "unat b \<le> 9"
      by (simp_all add: unat_eq_zero word_less_nat_alt not_less)
    then have "unat b \<in> {1, 2, 3, 4, 5, 6, 7, 8, 9}" by auto
    then have "b \<in> {1, 2, 3, 4, 5, 6, 7, 8, 9}"
      by (auto simp: word_unat_eq_iff)
    with n show False by (auto simp: tag_from_byte_def split: if_splits)
  qed
next
  assume "b = 0 \<or> 9 < b"
  then show "tag_from_byte b = None" by (auto simp: tag_from_byte_def word_less_nat_alt)
qed

section \<open>Payloads\<close>

record payload =
  tag :: payload_tag
  connection_id :: "16 arr"
  data :: bytes
  fragment_id :: u128
  fragment_index :: u8
  fragment_total :: u8

definition payload_new :: "payload_tag \<Rightarrow> bytes \<Rightarrow> payload" where
  "payload_new t d =
     \<lparr>tag = t, connection_id = zero_arr, data = d,
      fragment_id = 0, fragment_index = 0, fragment_total = 0\<rparr>"

definition payload_new_fragment :: "payload_tag \<Rightarrow> bytes \<Rightarrow> u128 \<Rightarrow> u8 \<Rightarrow> u8 \<Rightarrow> payload" where
  "payload_new_fragment t d fid idx tot =
     \<lparr>tag = t, connection_id = zero_arr, data = d,
      fragment_id = fid, fragment_index = idx, fragment_total = tot\<rparr>"

definition payload_serialize :: "payload \<Rightarrow> bytes" where
  "payload_serialize p =
     [tag_to_byte (tag p)] @ bytes_of (connection_id p) @ be_bytes 16 (fragment_id p) @
     [fragment_index p] @ [fragment_total p] @ data p"

definition payload_from_serialized :: "bytes \<Rightarrow> payload res" where
  "payload_from_serialized bytes =
     (if length bytes < 35 then Err (Msg ''payload too short'')
      else
        and_then (index bytes 0) (\<lambda>tag_byte.
        and_then (ok_or (tag_from_byte tag_byte)
                    (MsgNats ''unknown payload tag: 0x{}'' [unat tag_byte])) (\<lambda>t.
        and_then (sub_arr bytes 1 17) (\<lambda>conn.
        and_then (sub_arr bytes 17 33) (\<lambda>fid :: 16 arr.
        and_then (index bytes 33) (\<lambda>idx.
        and_then (index bytes 34) (\<lambda>tot.
        and_then (sub_from bytes 35) (\<lambda>d.
          Ok \<lparr>tag = t, connection_id = conn, data = d, fragment_id = from_be (bytes_of fid),
              fragment_index = idx, fragment_total = tot\<rparr>))))))))"

lemma payload_from_serialized_eq:
  "payload_from_serialized bs =
     (if length bs < 35 then Err (Msg ''payload too short'')
      else case tag_from_byte (bs ! 0) of
          None \<Rightarrow> Err (MsgNats ''unknown payload tag: 0x{}'' [unat (bs ! 0)])
        | Some t \<Rightarrow> Ok \<lparr>tag = t, connection_id = arr_of (take 16 (drop 1 bs)), data = drop 35 bs,
             fragment_id = from_be (take 16 (drop 17 bs)),
             fragment_index = bs ! 33, fragment_total = bs ! 34\<rparr>)"
proof (cases "length bs < 35")
  case True
  then show ?thesis by (simp add: payload_from_serialized_def)
next
  case False
  then have "bs \<noteq> []" by auto
  with False show ?thesis by (simp add: payload_from_serialized_def split: option.splits)
qed

lemma length_payload_serialize [simp, bytes_simps]:
  "length (payload_serialize p) = 35 + length (data p)"
  by (simp add: payload_serialize_def)

lemma payload_roundtrip [simp]: "payload_from_serialized (payload_serialize p) = Ok p"
proof -
  have parts: "payload_serialize p ! 0 = tag_to_byte (tag p)"
    "take 16 (drop 1 (payload_serialize p)) = bytes_of (connection_id p)"
    "take 16 (drop 17 (payload_serialize p)) = be_bytes 16 (fragment_id p)"
    "payload_serialize p ! 33 = fragment_index p"
    "payload_serialize p ! 34 = fragment_total p"
    "drop 35 (payload_serialize p) = data p"
    by (simp_all add: payload_serialize_def nth_append)
  show ?thesis
    by (subst payload_from_serialized_eq) (simp only: parts, simp add: from_be_be_bytes)
qed

lemma payload_from_serialized_not_Panic: "payload_from_serialized bs \<noteq> Panic"
  by (simp add: payload_from_serialized_eq split: option.splits)

lemma take_drop_split3:
  "length bs \<ge> 35 \<Longrightarrow> bs = [bs ! 0] @ take 16 (drop 1 bs) @ take 16 (drop 17 bs) @ [bs ! 33] @ [bs ! 34] @ drop 35 bs"
proof (rule nth_equalityI)
  assume l: "length bs \<ge> 35"
  then show "length bs = length ([bs ! 0] @ take 16 (drop 1 bs) @ take 16 (drop 17 bs) @ [bs ! 33] @ [bs ! 34] @ drop 35 bs)"
    by simp
  fix i
  assume i: "i < length bs"
  consider "i = 0" | "1 \<le> i" "i < 17" | "17 \<le> i" "i < 33" | "i = 33" | "i = 34" | "35 \<le> i"
    by linarith
  then show "bs ! i = ([bs ! 0] @ take 16 (drop 1 bs) @ take 16 (drop 17 bs) @ [bs ! 33] @ [bs ! 34] @ drop 35 bs) ! i"
    using i l by cases (auto simp: nth_append nth_Cons' not_less)
qed

lemma payload_from_serialized_exact:
  assumes "payload_from_serialized bs = Ok p"
  shows "payload_serialize p = bs"
proof -
  have l: "35 \<le> length bs" and t: "bs ! 0 = tag_to_byte (tag p)"
    and p: "p = \<lparr>tag = tag p, connection_id = arr_of (take 16 (drop 1 bs)), data = drop 35 bs,
             fragment_id = from_be (take 16 (drop 17 bs)),
             fragment_index = bs ! 33, fragment_total = bs ! 34\<rparr>"
    using assms by (auto simp: payload_from_serialized_eq tag_from_byte_Some split: if_splits option.splits)
  have "payload_serialize p = [bs ! 0] @ take 16 (drop 1 bs) @ take 16 (drop 17 bs) @ [bs ! 33] @ [bs ! 34] @ drop 35 bs"
    using l t by (subst p) (simp add: payload_serialize_def be_bytes_from_be)
  then show ?thesis using take_drop_split3 [OF l] by simp
qed

interpretation payload: codec payload_serialize payload_from_serialized "\<lambda>_. True"
  by unfold_locales simp

section \<open>Packet flags\<close>

datatype packet_flag = AckRequired | Ack | Fragmented | LastFragment

fun flag_to_int :: "packet_flag \<Rightarrow> u32" where
  "flag_to_int AckRequired = 1"
| "flag_to_int Ack = 2"
| "flag_to_int Fragmented = 4"
| "flag_to_int LastFragment = 8"

record packet_flags =
  flags :: u32

definition flags_from_int :: "u32 \<Rightarrow> packet_flags" where
  "flags_from_int f = \<lparr>flags = f\<rparr>"

definition flags_to_int :: "packet_flags \<Rightarrow> u32" where
  "flags_to_int pf = flags pf"

definition flags_contains :: "packet_flags \<Rightarrow> packet_flag \<Rightarrow> bool" where
  "flags_contains pf f \<longleftrightarrow> flags pf AND flag_to_int f \<noteq> 0"

definition flags_set :: "packet_flags \<Rightarrow> packet_flag \<Rightarrow> packet_flags" where
  "flags_set pf f = pf\<lparr>flags := flags pf OR flag_to_int f\<rparr>"

fun flag_bit :: "packet_flag \<Rightarrow> nat" where
  "flag_bit AckRequired = 0"
| "flag_bit Ack = 1"
| "flag_bit Fragmented = 2"
| "flag_bit LastFragment = 3"

lemma flag_to_int_bit: "flag_to_int f = push_bit (flag_bit f) 1"
  by (cases f) simp_all

lemma bit_flag_to_int [simp]: "bit (flag_to_int f) n \<longleftrightarrow> n = flag_bit f"
proof -
  have "flag_bit f < 32" by (cases f) simp_all
  then show ?thesis by (auto simp: flag_to_int_bit bit_simps simp del: flag_to_int.simps)
qed

lemma flag_bit_inj [simp]: "flag_bit f = flag_bit g \<longleftrightarrow> f = g"
  by (cases f; cases g) simp_all

lemma flags_contains_bit: "flags_contains pf f \<longleftrightarrow> bit (flags pf) (flag_bit f)"
proof
  assume "flags_contains pf f"
  then obtain n where "bit (flags pf AND flag_to_int f) n"
    unfolding flags_contains_def by (metis bit_eqI bit_0_eq bot_apply bot_bool_def)
  then show "bit (flags pf) (flag_bit f)" by (auto simp: bit_and_iff)
next
  assume "bit (flags pf) (flag_bit f)"
  then have "bit (flags pf AND flag_to_int f) (flag_bit f)" by (simp add: bit_and_iff)
  then show "flags_contains pf f" unfolding flags_contains_def by auto
qed

lemma flags_contains_set [simp]:
  "flags_contains (flags_set pf f) g \<longleftrightarrow> f = g \<or> flags_contains pf g"
  by (auto simp: flags_contains_bit flags_set_def bit_or_iff)

section \<open>Packets\<close>

definition CURRENT_VERSION :: u64 where "CURRENT_VERSION = 1"

record packet_header =
  version :: u64
  hflags :: packet_flags
  pid :: u128

record packet =
  header :: packet_header
  payload :: payload

definition packet_new :: "u32 \<Rightarrow> u128 \<Rightarrow> payload \<Rightarrow> packet" where
  "packet_new f i p =
     \<lparr>header = \<lparr>version = CURRENT_VERSION, hflags = \<lparr>flags = f\<rparr>, pid = i\<rparr>, payload = p\<rparr>"

definition packet_serialize :: "packet \<Rightarrow> bytes" where
  "packet_serialize pkt =
     be_bytes 8 (version (header pkt)) @ be_bytes 4 (flags_to_int (hflags (header pkt))) @
     be_bytes 16 (pid (header pkt)) @ payload_serialize (payload pkt)"

definition packet_from_serialized :: "bytes \<Rightarrow> packet res" where
  "packet_from_serialized bytes =
     and_then (take_bytes bytes) (\<lambda>(v :: 8 arr, bytes).
     and_then (take_bytes bytes) (\<lambda>(f :: 4 arr, bytes).
     and_then (take_bytes bytes) (\<lambda>(i :: 16 arr, bytes).
     and_then (map_err (\<lambda>_. Msg ''Failed to parse payload'') (payload_from_serialized bytes)) (\<lambda>p.
       Ok \<lparr>header = \<lparr>version = from_be (bytes_of v), hflags = flags_from_int (from_be (bytes_of f)),
                     pid = from_be (bytes_of i)\<rparr>,
           payload = p\<rparr>))))"

lemma length_packet_serialize [simp, bytes_simps]:
  "length (packet_serialize pkt) = 63 + length (data (payload pkt))"
  by (simp add: packet_serialize_def)

lemma packet_roundtrip [simp]: "packet_from_serialized (packet_serialize pkt) = Ok pkt"
  by (simp add: packet_from_serialized_def packet_serialize_def from_be_be_bytes
      flags_to_int_def flags_from_int_def)

lemma packet_from_serialized_not_Panic: "packet_from_serialized bs \<noteq> Panic"
  by (auto simp: packet_from_serialized_def res_simps payload_from_serialized_not_Panic
      take_bytes_def split: if_splits)

lemma packet_from_serialized_exact:
  assumes "packet_from_serialized bs = Ok pkt"
  shows "packet_serialize pkt = bs"
  using assms
  by (auto simp: packet_from_serialized_def res_simps take_bytes_Ok_iff packet_serialize_def
      flags_to_int_def flags_from_int_def be_bytes_from_be dest!: payload_from_serialized_exact)

lemma packet_from_serialized_iff:
  "packet_from_serialized bs = Ok pkt \<longleftrightarrow> bs = packet_serialize pkt"
  using packet_from_serialized_exact packet_roundtrip by metis

interpretation packet: codec packet_serialize packet_from_serialized "\<lambda>_. True"
  by unfold_locales simp

lemma packet_new_simps [simp]:
  "payload (packet_new f i p) = p"
  "pid (header (packet_new f i p)) = i"
  "flags (hflags (header (packet_new f i p))) = f"
  by (simp_all add: packet_new_def)

lemma payload_new_simps [simp]:
  "tag (payload_new t d) = t" "data (payload_new t d) = d"
  "fragment_id (payload_new t d) = 0" "connection_id (payload_new t d) = zero_arr"
  by (simp_all add: payload_new_def)

end
