(* ===== verification/Fragments.thy ===== *)
theory Fragments
  imports Packets
begin

text \<open>
  transport/fragment.rs: splitting a packet into fragments and reassembling them. Lemmas:
  what \<open>split_packet\<close> returns for every size; reassembly from the fragments in any order and
  with any repetition; exactly when \<open>feed\<close> panics; eviction.
\<close>

section \<open>Splitting\<close>

definition MAX_CHUNK :: nat where "MAX_CHUNK = 1200"

definition ENTRY_TIMEOUT :: nat where "ENTRY_TIMEOUT = 60"

fun chunks :: "nat \<Rightarrow> 'a list \<Rightarrow> 'a list list" where
  "chunks n xs = (if xs = [] \<or> n = 0 then [] else take n xs # chunks n (drop n xs))"

declare chunks.simps [simp del]

text \<open>
  The loop over \<open>serialized.chunks(MAX_CHUNK).enumerate()\<close>, from round \<open>i\<close> on; \<open>rnd i\<close> is
  the random packet id drawn in round \<open>i\<close>.
\<close>

fun split_loop :: "packet \<Rightarrow> u8 \<Rightarrow> (nat \<Rightarrow> u128) \<Rightarrow> nat \<Rightarrow> bytes list \<Rightarrow> packet list res" where
  "split_loop pkt tot rnd i [] = Ok []"
| "split_loop pkt tot rnd i (chunk # cs) =
     (let idx = of_nat i :: u8 in
      and_then (add_or_panic idx 1) (\<lambda>next_idx.
        let is_last = (next_idx = tot);
            fl = (if is_last then flag_to_int Fragmented OR flag_to_int LastFragment
                  else flag_to_int Fragmented);
            frag = packet_new fl (rnd i)
              (payload_new_fragment (tag (payload pkt)) chunk (pid (header pkt)) idx tot)
        in and_then (split_loop pkt tot rnd (Suc i) cs) (\<lambda>fs. Ok (frag # fs))))"

definition split_packet :: "(nat \<Rightarrow> u128) \<Rightarrow> packet \<Rightarrow> packet list res" where
  "split_packet rnd pkt =
     (let serialized = packet_serialize pkt;
          tot = of_nat ((length serialized + MAX_CHUNK - 1) div MAX_CHUNK) :: u8
      in if tot \<le> 1 then Ok [pkt]
         else split_loop pkt tot rnd 0 (chunks MAX_CHUNK serialized))"

lemma chunks_Nil [simp]: "chunks n [] = []"
  by (simp add: chunks.simps)

lemma concat_chunks [simp]: "0 < n \<Longrightarrow> concat (chunks n xs) = xs"
proof (induction n xs rule: chunks.induct)
  case (1 n xs)
  then show ?case by (subst chunks.simps) simp
qed

lemma length_chunks: "0 < n \<Longrightarrow> length (chunks n xs) = (length xs + n - 1) div n"
proof (induction n xs rule: chunks.induct)
  case (1 n xs)
  show ?case
  proof (cases "xs = []")
    case True
    then show ?thesis using 1 by simp
  next
    case False
    then have IH: "length (chunks n (drop n xs)) = (length (drop n xs) + n - 1) div n"
      using 1 by simp
    have l: "0 < length xs" using False by simp
    have "Suc ((length xs - n + n - 1) div n) = (length xs + n - 1) div n"
    proof (cases "n \<le> length xs")
      case True
      define a where "a = length xs - n + n - 1"
      have a: "length xs + n - 1 = a + n" using True 1(2) l by (simp add: a_def)
      have "(a + n) div n = Suc (a div n)" using 1(2) by (simp add: div_add_self2)
      then show ?thesis by (simp only: a) (simp only: a_def)
    next
      case False
      have "(length xs + n - 1) div n = 1"
        using l False by (intro div_nat_eqI) (linarith, subst mult_Suc_right, linarith)
      then show ?thesis using False 1(2) by simp
    qed
    then show ?thesis using False 1(2) IH by (subst chunks.simps) simp
  qed
qed

lemma chunk_size: "c \<in> set (chunks n xs) \<Longrightarrow> 0 < length c \<and> length c \<le> n"
proof (induction n xs rule: chunks.induct)
  case (1 n xs)
  then show ?case by (subst (asm) chunks.simps) (auto split: if_splits)
qed

text \<open>The fragment that round \<open>i\<close> builds, and the number of rounds.\<close>

definition n_chunks :: "packet \<Rightarrow> nat" where
  "n_chunks pkt = (length (packet_serialize pkt) + 1199) div 1200"

definition fragment :: "(nat \<Rightarrow> u128) \<Rightarrow> packet \<Rightarrow> nat \<Rightarrow> packet" where
  "fragment rnd pkt i =
     packet_new (if Suc i = n_chunks pkt then 12 else 4) (rnd i)
       (payload_new_fragment (tag (payload pkt)) (chunks 1200 (packet_serialize pkt) ! i)
          (pid (header pkt)) (of_nat i) (of_nat (n_chunks pkt)))"

lemma length_packet_chunks [simp]: "length (chunks 1200 (packet_serialize pkt)) = n_chunks pkt"
  by (simp add: length_chunks n_chunks_def)

lemma of_nat_u8_eq: "(of_nat a :: u8) = of_nat b \<longleftrightarrow> a mod 256 = b mod 256"
  by (simp add: word_of_nat_eq_iff take_bit_eq_mod)

lemma unat_of_nat_u8: "unat (of_nat a :: u8) = a mod 256"
  by (simp add: unat_of_nat)

lemma split_loop_ok:
  assumes "i + length cs = n_chunks pkt" and "n_chunks pkt \<le> 255"
    and "cs = drop i (chunks 1200 (packet_serialize pkt))"
  shows "split_loop pkt (of_nat (n_chunks pkt)) rnd i cs =
    Ok (map (fragment rnd pkt) [i..<n_chunks pkt])"
  using assms
proof (induction cs arbitrary: i)
  case Nil
  then show ?case by simp
next
  case (Cons c cs)
  let ?n = "n_chunks pkt"
  have i: "i < ?n" using Cons.prems(1) by simp
  have c: "c = chunks 1200 (packet_serialize pkt) ! i"
    using Cons.prems(3) i by (metis length_packet_chunks nth_via_drop)
  have cs: "cs = drop (Suc i) (chunks 1200 (packet_serialize pkt))"
    using Cons.prems(3) by (metis drop_Suc list.sel(3) tl_drop)
  have IH: "split_loop pkt (of_nat ?n) rnd (Suc i) cs = Ok (map (fragment rnd pkt) [Suc i..<?n])"
    using Cons.IH [of "Suc i"] Cons.prems cs by simp
  have add: "add_or_panic (of_nat i :: u8) 1 = Ok (of_nat (Suc i))"
    using i Cons.prems(2) by (simp add: add_or_panic_def unat_of_nat_u8)
  have last: "(of_nat (Suc i) :: u8) = of_nat ?n \<longleftrightarrow> Suc i = ?n"
    using i Cons.prems(2) by (subst of_nat_u8_eq) simp
  have "[i..<?n] = i # [Suc i..<?n]" using i by (rule upt_conv_Cons)
  then show ?case
    using IH last by (simp add: add Let_def fragment_def c del: of_nat_Suc)
qed

lemma split_loop_panic:
  assumes "i \<le> 255" and "256 \<le> i + length cs"
  shows "split_loop pkt tot rnd i cs = Panic"
  using assms
proof (induction cs arbitrary: i)
  case Nil
  then show ?case by simp
next
  case (Cons c cs)
  show ?case
  proof (cases "i = 255")
    case True
    then show ?thesis by (simp add: add_or_panic_def)
  next
    case False
    then have "split_loop pkt tot rnd (Suc i) cs = Panic" using Cons by simp
    moreover have "add_or_panic (of_nat i :: u8) 1 = Ok (of_nat i + 1)"
      using False Cons.prems(1) by (simp add: add_or_panic_def unat_of_nat_u8)
    ultimately show ?thesis by (simp add: Let_def)
  qed
qed

lemma split_packet_eq:
  "split_packet rnd pkt =
     (if n_chunks pkt mod 256 \<le> 1 then Ok [pkt]
      else if n_chunks pkt \<le> 255 then Ok (map (fragment rnd pkt) [0..<n_chunks pkt])
      else Panic)"
proof -
  let ?n = "n_chunks pkt" and ?cs = "chunks 1200 (packet_serialize pkt)"
  have tot: "(of_nat ((length (packet_serialize pkt) + MAX_CHUNK - 1) div MAX_CHUNK) :: u8) = of_nat ?n"
    by (simp add: MAX_CHUNK_def n_chunks_def)
  have le1: "(of_nat ?n :: u8) \<le> 1 \<longleftrightarrow> ?n mod 256 \<le> 1"
    by (simp add: word_le_nat_alt unat_of_nat_u8)
  have "split_packet rnd pkt = (if ?n mod 256 \<le> 1 then Ok [pkt] else split_loop pkt (of_nat ?n) rnd 0 ?cs)"
    by (simp only: split_packet_def Let_def tot le1) (simp add: MAX_CHUNK_def)
  moreover have "split_loop pkt (of_nat ?n) rnd 0 ?cs = Ok (map (fragment rnd pkt) [0..<?n])"
    if "?n \<le> 255" using that by (intro split_loop_ok) simp_all
  moreover have "split_loop pkt (of_nat ?n) rnd 0 ?cs = Panic" if "\<not> ?n \<le> 255"
    using that by (intro split_loop_panic) simp_all
  ultimately show ?thesis by simp
qed


section \<open>Reassembly\<close>

record pending_reassembly =
  pr_total :: u8
  pr_chunks :: "bytes option list"
  pr_started :: instant

type_synonym reassembler = "(u128 \<times> socket_addr, pending_reassembly) hash_map"

definition reassembler_new :: reassembler where
  "reassembler_new = []"

definition pending_new :: "instant \<Rightarrow> u8 \<Rightarrow> pending_reassembly" where
  "pending_new now tot =
     \<lparr>pr_total = tot, pr_chunks = replicate (unat tot) None, pr_started = now\<rparr>"

fun collect_chunks :: "bytes \<Rightarrow> bytes option list \<Rightarrow> bytes option" where
  "collect_chunks d [] = Some d"
| "collect_chunks d (None # cs) = None"
| "collect_chunks d (Some c # cs) = collect_chunks (d @ c) cs"

definition is_full :: "pending_reassembly \<Rightarrow> bytes option" where
  "is_full pr = collect_chunks [] (pr_chunks pr)"

definition feed :: "instant \<Rightarrow> packet \<Rightarrow> socket_addr \<Rightarrow> reassembler \<Rightarrow> (reassembler \<times> packet option) res" where
  "feed now pkt sender r =
     (let fid = fragment_id (payload pkt) in
      if fid = 0 then Ok (r, Some pkt)
      else
        let idx = fragment_index (payload pkt);
            tot = fragment_total (payload pkt);
            pr = (case map_of r (fid, sender) of None \<Rightarrow> pending_new now tot | Some pr \<Rightarrow> pr);
            pr = (if pr_total pr \<noteq> tot
                  then pr\<lparr>pr_total := tot, pr_chunks := replicate (unat tot) None, pr_started := now\<rparr>
                  else pr)
        in if unat idx < length (pr_chunks pr) then
             let pr = pr\<lparr>pr_chunks := (pr_chunks pr)[unat idx := Some (data (payload pkt))]\<rparr>;
                 r = AList.update (fid, sender) pr r
             in (case is_full pr of
                   None \<Rightarrow> Ok (r, None)
                 | Some assembled \<Rightarrow> map_res (\<lambda>p. (r, p)) (to_option (packet_from_serialized assembled)))
           else Panic)"

definition reasm_evict_stale :: "instant \<Rightarrow> reassembler \<Rightarrow> reassembler" where
  "reasm_evict_stale now r =
     retain (\<lambda>_ pr. as_secs (duration_since now (pr_started pr)) < ENTRY_TIMEOUT) r"

text \<open>Well-formedness: one slot per announced fragment.\<close>

definition reassembler_ok :: "reassembler \<Rightarrow> bool" where
  "reassembler_ok r \<longleftrightarrow>
     hm_ok r \<and> (\<forall>k pr. map_of r k = Some pr \<longrightarrow> length (pr_chunks pr) = unat (pr_total pr))"

lemma reassembler_ok_new: "reassembler_ok reassembler_new"
  by (simp add: reassembler_ok_def reassembler_new_def)

lemma reassembler_ok_update:
  "reassembler_ok r \<Longrightarrow> length (pr_chunks pr) = unat (pr_total pr) \<Longrightarrow>
     reassembler_ok (AList.update k pr r)"
  by (simp add: reassembler_ok_def)

lemma reassembler_ok_evict: "reassembler_ok r \<Longrightarrow> reassembler_ok (reasm_evict_stale now r)"
  by (auto simp: reassembler_ok_def reasm_evict_stale_def map_of_retain split: option.splits if_splits)

text \<open>The entry that \<open>feed\<close> works on, before it stores the chunk.\<close>

definition feed_entry :: "instant \<Rightarrow> packet \<Rightarrow> socket_addr \<Rightarrow> reassembler \<Rightarrow> pending_reassembly" where
  "feed_entry now pkt sender r =
     (let tot = fragment_total (payload pkt);
          pr = (case map_of r (fragment_id (payload pkt), sender) of None \<Rightarrow> pending_new now tot | Some pr \<Rightarrow> pr)
      in if pr_total pr \<noteq> tot
         then pr\<lparr>pr_total := tot, pr_chunks := replicate (unat tot) None, pr_started := now\<rparr> else pr)"

lemma feed_entry_total [simp]: "pr_total (feed_entry now pkt s r) = fragment_total (payload pkt)"
  by (simp add: feed_entry_def Let_def pending_new_def split: option.splits)

lemma feed_entry_length:
  "reassembler_ok r \<Longrightarrow> length (pr_chunks (feed_entry now pkt s r)) = unat (fragment_total (payload pkt))"
  by (auto simp: feed_entry_def Let_def pending_new_def reassembler_ok_def split: option.splits)

lemma feed_alt:
  "feed now pkt s r =
     (let fid = fragment_id (payload pkt); idx = unat (fragment_index (payload pkt));
          pr = feed_entry now pkt s r;
          pr' = pr\<lparr>pr_chunks := (pr_chunks pr)[idx := Some (data (payload pkt))]\<rparr>;
          r' = AList.update (fid, s) pr' r
      in if fid = 0 then Ok (r, Some pkt)
         else if idx < length (pr_chunks pr) then
           (case is_full pr' of
              None \<Rightarrow> Ok (r', None)
            | Some bs \<Rightarrow> map_res (\<lambda>p. (r', p)) (to_option (packet_from_serialized bs)))
         else Panic)"
  by (simp add: feed_def feed_entry_def Let_def)

lemma feed_preserves:
  assumes "reassembler_ok r" and "feed now pkt s r = Ok (r', out)"
  shows "reassembler_ok r'"
  using assms
  by (auto simp: feed_alt Let_def res_simps feed_entry_length intro!: reassembler_ok_update
      split: if_splits option.splits)

lemma feed_Panic:
  assumes "reassembler_ok r"
  shows "feed now pkt s r = Panic \<longleftrightarrow>
    fragment_id (payload pkt) \<noteq> 0 \<and>
    fragment_total (payload pkt) \<le> fragment_index (payload pkt)"
  using assms
  by (auto simp: feed_alt Let_def res_simps feed_entry_length packet_from_serialized_not_Panic
      word_le_nat_alt split: if_splits option.splits)

text \<open>
  \<open>feed\<close> panics (an index out of range in the receive thread) exactly on a fragment
  whose index is not below its announced total; nothing before it rejects such a packet.
\<close>

theorem feed_panics_iff:
  assumes "reassembler_ok r"
  shows "feed now pkt s r = Panic \<longleftrightarrow>
    fragment_id (payload pkt) \<noteq> 0 \<and>
    fragment_total (payload pkt) \<le> fragment_index (payload pkt)"
  using assms by (rule feed_Panic)

theorem feed_panics_iff_witness:
  "feed (Instant 0) (packet_new 4 7 (payload_new_fragment KeepAlive [] 9 2 2))
     (V4 (arr_of [10, 0, 0, 1]) 4000) reassembler_new = Panic"
  by (subst feed_panics_iff [OF reassembler_ok_new]) (simp add: payload_new_fragment_def)

subsection \<open>Reassembly of what was split\<close>

text \<open>A sequence of calls of \<open>feed\<close>, each with its own clock reading.\<close>

fun feed_all :: "socket_addr \<Rightarrow> (instant \<times> packet) list \<Rightarrow> reassembler \<Rightarrow> (reassembler \<times> packet option list) res" where
  "feed_all s [] r = Ok (r, [])"
| "feed_all s ((now, p) # ps) r =
     and_then (feed now p s r) (\<lambda>(r, out).
     and_then (feed_all s ps r) (\<lambda>(r, outs). Ok (r, out # outs)))"

lemma collect_chunks_full: "collect_chunks d (map Some cs) = Some (d @ concat cs)"
  by (induction cs arbitrary: d) simp_all

lemma collect_chunks_None: "None \<in> set cs \<Longrightarrow> collect_chunks d cs = None"
proof (induction cs arbitrary: d)
  case (Cons c cs)
  then show ?case by (cases c) auto
qed simp

text \<open>The entry of a packet of which the fragments with index in \<open>S\<close> have arrived.\<close>

definition entry_with :: "packet \<Rightarrow> instant \<Rightarrow> nat set \<Rightarrow> pending_reassembly" where
  "entry_with pkt t S =
     \<lparr>pr_total = of_nat (n_chunks pkt),
      pr_chunks = map (\<lambda>i. if i \<in> S then Some (chunks 1200 (packet_serialize pkt) ! i) else None)
        [0..<n_chunks pkt],
      pr_started = t\<rparr>"

lemma is_full_entry_with:
  "is_full (entry_with pkt t S) =
     (if {..<n_chunks pkt} \<subseteq> S then Some (packet_serialize pkt) else None)"
proof (cases "{..<n_chunks pkt} \<subseteq> S")
  case True
  then have "pr_chunks (entry_with pkt t S) = map Some (chunks 1200 (packet_serialize pkt))"
    by (auto simp: entry_with_def intro!: nth_equalityI)
  with True show ?thesis by (simp add: is_full_def collect_chunks_full)
next
  case False
  then obtain i where "i < n_chunks pkt" "i \<notin> S" by auto
  then have "None \<in> set (pr_chunks (entry_with pkt t S))"
    by (force simp: entry_with_def)
  with False show ?thesis by (simp add: is_full_def collect_chunks_None)
qed

lemma fragment_simps [simp]:
  "fragment_id (payload (fragment rnd pkt i)) = pid (header pkt)"
  "fragment_index (payload (fragment rnd pkt i)) = of_nat i"
  "fragment_total (payload (fragment rnd pkt i)) = of_nat (n_chunks pkt)"
  "data (payload (fragment rnd pkt i)) = chunks 1200 (packet_serialize pkt) ! i"
  "pid (header (fragment rnd pkt i)) = rnd i"
  by (simp_all add: fragment_def payload_new_fragment_def)

lemma entry_with_insert:
  "i < n_chunks pkt \<Longrightarrow>
     (entry_with pkt t S)\<lparr>pr_chunks := (pr_chunks (entry_with pkt t S))
        [i := Some (chunks 1200 (packet_serialize pkt) ! i)]\<rparr> = entry_with pkt t (insert i S)"
  by (auto simp: entry_with_def nth_list_update intro!: nth_equalityI)

text \<open>What the map holds for a packet of which \<open>S\<close> has arrived.\<close>

definition holds_parts :: "packet \<Rightarrow> socket_addr \<Rightarrow> nat set \<Rightarrow> reassembler \<Rightarrow> bool" where
  "holds_parts pkt s S r \<longleftrightarrow>
     (case map_of r (pid (header pkt), s) of
        None \<Rightarrow> S = {}
      | Some pr \<Rightarrow> (\<exists>t. pr = entry_with pkt t S))"

lemma feed_fragment:
  assumes n: "n_chunks pkt \<le> 255" and id: "pid (header pkt) \<noteq> 0"
    and h: "holds_parts pkt s S r" and i: "i < n_chunks pkt"
  shows "\<exists>r'. feed now (fragment rnd pkt i) s r =
      Ok (r', if {..<n_chunks pkt} \<subseteq> insert i S then Some pkt else None) \<and>
    holds_parts pkt s (insert i S) r'"
proof -
  let ?k = "(pid (header pkt), s)"
  have idx: "unat (of_nat i :: u8) = i" "unat (of_nat (n_chunks pkt) :: u8) = n_chunks pkt"
    using n i by (simp_all add: unat_of_nat_u8)
  obtain t where e: "feed_entry now (fragment rnd pkt i) s r = entry_with pkt t S"
  proof (cases "map_of r ?k")
    case None
    then have "S = {}" using h by (simp add: holds_parts_def)
    then have "feed_entry now (fragment rnd pkt i) s r = entry_with pkt now S"
      using None idx by (simp add: feed_entry_def pending_new_def entry_with_def map_replicate_const)
    then show thesis by (rule that)
  next
    case (Some pr)
    then obtain t where "pr = entry_with pkt t S" using h by (auto simp: holds_parts_def)
    then have "feed_entry now (fragment rnd pkt i) s r = entry_with pkt t S"
      using Some by (simp add: feed_entry_def) (simp add: entry_with_def)
    then show thesis by (rule that)
  qed
  let ?r' = "AList.update ?k (entry_with pkt t (insert i S)) r"
  have len: "length (pr_chunks (entry_with pkt t S)) = n_chunks pkt" by (simp add: entry_with_def)
  have "feed now (fragment rnd pkt i) s r =
      (case is_full (entry_with pkt t (insert i S)) of
              None \<Rightarrow> Ok (?r', None)
            | Some bs \<Rightarrow> map_res (\<lambda>p. (?r', p)) (to_option (packet_from_serialized bs)))"
    using id i by (simp add: feed_alt e idx len entry_with_insert Let_def split: option.split)
  then have "feed now (fragment rnd pkt i) s r =
      Ok (?r', if {..<n_chunks pkt} \<subseteq> insert i S then Some pkt else None)"
    by (auto simp: is_full_entry_with)
  moreover have "holds_parts pkt s (insert i S) ?r'"
    by (auto simp: holds_parts_def)
  ultimately show ?thesis by blast
qed

lemma feed_all_fragments:
  assumes "n_chunks pkt \<le> 255" "pid (header pkt) \<noteq> 0"
    and "holds_parts pkt s S r" and "\<forall>i \<in> set is. i < n_chunks pkt" and "length ts = length is"
  shows "\<exists>r'. feed_all s (zip ts (map (fragment rnd pkt) is)) r =
    Ok (r', map (\<lambda>k. if {..<n_chunks pkt} \<subseteq> S \<union> set (take (Suc k) is) then Some pkt else None) [0..<length is])"
  using assms(3-)
proof (induction "is" arbitrary: S r ts)
  case Nil
  then show ?case by simp
next
  case (Cons i "is")
  obtain t ts' where ts: "ts = t # ts'" "length ts' = length is" using Cons.prems by (cases ts) auto
  obtain r1 where r1: "feed t (fragment rnd pkt i) s r =
      Ok (r1, if {..<n_chunks pkt} \<subseteq> insert i S then Some pkt else None)"
    and h1: "holds_parts pkt s (insert i S) r1"
    using feed_fragment [OF assms(1,2) Cons.prems(1)] Cons.prems(2) by fastforce
  obtain r2 where "feed_all s (zip ts' (map (fragment rnd pkt) is)) r1 =
    Ok (r2, map (\<lambda>k. if {..<n_chunks pkt} \<subseteq> insert i S \<union> set (take (Suc k) is) then Some pkt else None) [0..<length is])"
    using Cons.IH [OF h1] Cons.prems(2) ts(2) by auto
  then show ?case
    using ts r1 by (simp add: map_upt_Suc del: upt_Suc)
qed

text \<open>
  Reassembly. Feeding the fragments that \<open>split_packet\<close> made, from one sender, in any order
  and with any repetition, returns nothing until the last missing fragment arrives, and the
  original packet from then on (a repeated fragment returns it again).
\<close>

theorem reassembly_any_order:
  assumes "split_packet rnd pkt = Ok frags" and "2 \<le> length frags"
    and "pid (header pkt) \<noteq> 0" and "map_of r (pid (header pkt), s) = None"
    and "\<forall>i \<in> set is. i < length frags" and "length ts = length is"
  shows "\<exists>r'. feed_all s (zip ts (map ((!) frags) is)) r =
    Ok (r', map (\<lambda>k. if {..<length frags} \<subseteq> set (take (Suc k) is) then Some pkt else None) [0..<length is])"
proof -
  have n: "n_chunks pkt \<le> 255" and frags: "frags = map (fragment rnd pkt) [0..<n_chunks pkt]"
    using assms(1,2) by (auto simp: split_packet_eq split: if_splits)
  then have len: "length frags = n_chunks pkt" by simp
  have eq: "map ((!) frags) is = map (fragment rnd pkt) is"
    using assms(5) frags by simp
  have "holds_parts pkt s {} r" using assms(4) by (simp add: holds_parts_def)
  from feed_all_fragments [OF n assms(3) this, of "is" ts rnd] assms(5,6)
  show ?thesis unfolding eq len by simp
qed

text \<open>
  Every fragment fits a datagram: its payload is at most 1200 bytes, its serialized form at
  most 1263, and only the last fragment carries the \<open>LastFragment\<close> flag.
\<close>

theorem fragment_bounds:
  assumes "split_packet rnd pkt = Ok frags" and "2 \<le> length frags" and "i < length frags"
  shows "length (packet_serialize (frags ! i)) \<le> 1263 \<and>
    flags_contains (hflags (header (frags ! i))) Fragmented \<and>
    (flags_contains (hflags (header (frags ! i))) LastFragment \<longleftrightarrow> Suc i = length frags)"
proof -
  have frags: "frags = map (fragment rnd pkt) [0..<n_chunks pkt]"
    using assms(1,2) by (auto simp: split_packet_eq split: if_splits)
  have i: "i < n_chunks pkt" and len: "length frags = n_chunks pkt"
    using assms(3) frags by simp_all
  have "chunks 1200 (packet_serialize pkt) ! i \<in> set (chunks 1200 (packet_serialize pkt))"
    using i by (simp add: nth_mem)
  then have "length (chunks 1200 (packet_serialize pkt) ! i) \<le> 1200" using chunk_size by blast
  then have "length (packet_serialize (fragment rnd pkt i)) \<le> 1263" by simp
  moreover have "flags (hflags (header (fragment rnd pkt i))) = (if Suc i = n_chunks pkt then 12 else 4)"
    by (simp add: fragment_def)
  moreover have "(12 :: u32) AND 4 \<noteq> 0" "(4 :: u32) AND 4 \<noteq> 0" "(12 :: u32) AND 8 \<noteq> 0" "(4 :: u32) AND 8 = 0"
    by simp_all
  ultimately show ?thesis
    unfolding frags len flags_contains_def using i by simp
qed

text \<open>\<open>feed\<close> changes no entry but the one of the fragment's own id and sender.\<close>

lemma feed_frame:
  "feed now pkt s r = Ok (r', out) \<Longrightarrow> k \<noteq> (fragment_id (payload pkt), s) \<Longrightarrow> map_of r' k = map_of r k"
  by (auto simp: feed_alt Let_def res_simps split: option.splits if_splits)

text \<open>
  Eviction: \<open>evict_stale\<close> keeps exactly the entries younger than 60 seconds.
\<close>

theorem reasm_evict_stale_spec:
  assumes "hm_ok r"
  shows "map_of (reasm_evict_stale now r) k =
      (case map_of r k of None \<Rightarrow> None
       | Some pr \<Rightarrow> if nanos now - nanos (pr_started pr) < 60000000000 then Some pr else None)"
proof -
  have "as_secs d < 60 \<longleftrightarrow> d < 60000000000" for d
    by (simp add: as_secs_def div_less_iff_less_mult)
  then show ?thesis
    using assms
    by (simp add: reasm_evict_stale_def map_of_retain duration_since_def ENTRY_TIMEOUT_def)
qed

text \<open>
  What \<open>split_packet\<close> returns, for every packet: with \<open>n\<close> the number of 1200-byte
  chunks, the packet itself when \<open>n mod 256 \<le> 1\<close> (so also when the count wraps around), the
  \<open>n\<close> fragments for \<open>2 \<le> n \<le> 255\<close>, and an overflow panic otherwise.
\<close>

theorem split_packet_cases:
  "split_packet rnd pkt =
     (if n_chunks pkt mod 256 \<le> 1 then Ok [pkt]
      else if n_chunks pkt \<le> 255 then Ok (map (fragment rnd pkt) [0..<n_chunks pkt])
      else Panic)"
  by (rule split_packet_eq)

definition demo_big :: packet where
  "demo_big = packet_new 0 7 (payload_new KeepAlive (replicate 1200 65))"

lemma demo_big_chunks: "n_chunks demo_big = 2"
  by (simp add: n_chunks_def demo_big_def)

lemma demo_big_split: "split_packet (\<lambda>i. of_nat (100 + i)) demo_big = Ok (map (fragment (\<lambda>i. of_nat (100 + i)) demo_big) [0..<2])"
  by (simp add: split_packet_eq demo_big_chunks)

theorem reassembly_any_order_witness:
  "\<exists>frags r'. split_packet (\<lambda>i. of_nat (100 + i)) demo_big = Ok frags \<and>
     feed_all (V4 (arr_of [10, 0, 0, 1]) 4000) (zip [Instant 1, Instant 2, Instant 3] (map ((!) frags) [1, 0, 1])) reassembler_new =
       Ok (r', [None, Some demo_big, Some demo_big])"
proof -
  let ?frags = "map (fragment (\<lambda>i. of_nat (100 + i)) demo_big) [0..<2]" and ?is = "[1, 0, 1 :: nat]"
  let ?s = "V4 (arr_of [10, 0, 0, 1]) 4000" and ?ts = "[Instant 1, Instant 2, Instant 3]"
  have u: "{..<Suc (Suc 0)} = {0, Suc 0}" by auto
  have "\<exists>r'. feed_all ?s (zip ?ts (map ((!) ?frags) ?is)) reassembler_new =
      Ok (r', map (\<lambda>k. if {..<length ?frags} \<subseteq> set (take (Suc k) ?is) then Some demo_big else None) [0..<length ?is])"
    by (rule reassembly_any_order [OF demo_big_split]) (simp_all add: demo_big_def reassembler_new_def)
  moreover have "map (\<lambda>k. if {..<length ?frags} \<subseteq> set (take (Suc k) ?is) then Some demo_big else None) [0..<length ?is] =
      [None, Some demo_big, Some demo_big]"
    by (simp add: u upt_rec)
  ultimately show ?thesis using demo_big_split by metis
qed

end
