(* ===== verification/Messages.thy ===== *)
theory Messages
  imports Wire
begin

text \<open>
  protocol/message.rs: the message record and its byte format, with \<open>String::from_utf8\<close> as
  the executable check \<open>utf8_valid\<close>. A \<open>String\<close> is its UTF-8 bytes. Lemmas: the format
  round-trips up to \<open>reply_to = Some 0\<close>, and the parser panics exactly below 40 bytes.
\<close>

section \<open>UTF-8\<close>

definition in_range :: "u8 \<Rightarrow> u8 \<Rightarrow> u8 \<Rightarrow> bool" where
  "in_range lo b hi \<longleftrightarrow> lo \<le> b \<and> b \<le> hi"

fun utf8_valid :: "bytes \<Rightarrow> bool" where
  "utf8_valid [] = True"
| "utf8_valid (b # bs) =
     (if b < 128 then utf8_valid bs
      else if in_range 194 b 223 then
        (case bs of c # r \<Rightarrow> in_range 128 c 191 \<and> utf8_valid r | _ \<Rightarrow> False)
      else if in_range 224 b 239 then
        (case bs of c # d # r \<Rightarrow>
           (if b = 224 then in_range 160 c 191
            else if b = 237 then in_range 128 c 159
            else in_range 128 c 191) \<and> in_range 128 d 191 \<and> utf8_valid r
         | _ \<Rightarrow> False)
      else if in_range 240 b 244 then
        (case bs of c # d # e # r \<Rightarrow>
           (if b = 240 then in_range 144 c 191
            else if b = 244 then in_range 128 c 143
            else in_range 128 c 191) \<and> in_range 128 d 191 \<and> in_range 128 e 191 \<and> utf8_valid r
         | _ \<Rightarrow> False)
      else False)"

lemma utf8_valid_ascii: "(\<forall>b \<in> set bs. b < 128) \<Longrightarrow> utf8_valid bs"
  by (induction bs) auto

section \<open>Messages\<close>

record message =
  msg_id :: u128
  content :: bytes
  timestamp :: u64
  reply_to :: "u128 option"

text \<open>\<open>generate_id()\<close> and \<open>now_timestamp()\<close> are the arguments \<open>i\<close> and \<open>ts\<close>.\<close>

definition message_new :: "u128 \<Rightarrow> u64 \<Rightarrow> bytes \<Rightarrow> u128 option \<Rightarrow> message" where
  "message_new i ts text reply =
     \<lparr>msg_id = i, content = text, timestamp = ts, reply_to = reply\<rparr>"

definition message_serialize :: "message \<Rightarrow> bytes res" where
  "message_serialize m =
     Ok (be_bytes 16 (msg_id m) @ be_bytes 8 (timestamp m) @
         be_bytes 16 (case reply_to m of None \<Rightarrow> 0 | Some r \<Rightarrow> r) @ content m)"

definition message_from_serialized :: "bytes \<Rightarrow> message res" where
  "message_from_serialized serialized =
     and_then (drain 16 serialized) (\<lambda>(b, serialized).
     and_then (ok_or (try_arr b) (Msg ''Failed to parse message ID'')) (\<lambda>id_bytes :: 16 arr.
     and_then (drain 8 serialized) (\<lambda>(b, serialized).
     and_then (ok_or (try_arr b) (Msg ''Failed to parse message timestamp'')) (\<lambda>ts_bytes :: 8 arr.
     and_then (drain 16 serialized) (\<lambda>(b, serialized).
     and_then (ok_or (try_arr b) (Msg ''Failed to parse message reply'')) (\<lambda>reply_bytes :: 16 arr.
       let r = from_be (bytes_of reply_bytes) in
       if utf8_valid serialized then
         Ok \<lparr>msg_id = from_be (bytes_of id_bytes), content = serialized,
             timestamp = from_be (bytes_of ts_bytes),
             reply_to = (if r = 0 then None else Some r)\<rparr>
       else Err (Msg ''invalid UTF-8 in message content'')))))))"

definition norm_reply :: "u128 option \<Rightarrow> u128 option" where
  "norm_reply r = (if r = Some 0 then None else r)"

lemma message_from_serialized_eq:
  "message_from_serialized bs =
     (if length bs < 40 then Panic
      else if \<not> utf8_valid (drop 40 bs) then Err (Msg ''invalid UTF-8 in message content'')
      else let r = from_be (take 16 (drop 24 bs)) in
        Ok \<lparr>msg_id = from_be (take 16 bs), content = drop 40 bs,
            timestamp = from_be (take 8 (drop 16 bs)),
            reply_to = (if r = 0 then None else Some r)\<rparr>)"
proof -
  consider "length bs < 16" | "16 \<le> length bs" "length bs < 24"
    | "24 \<le> length bs" "length bs < 40" | "40 \<le> length bs" by linarith
  then show ?thesis
    by cases (simp_all add: message_from_serialized_def drain_def Let_def le_diff_conv2)
qed

lemma message_from_serialize:
  assumes "message_serialize m = Ok bs"
  shows "message_from_serialized bs =
     (if utf8_valid (content m) then Ok (m\<lparr>reply_to := norm_reply (reply_to m)\<rparr>)
      else Err (Msg ''invalid UTF-8 in message content''))"
proof -
  let ?r = "case reply_to m of None \<Rightarrow> 0 | Some r \<Rightarrow> r"
  have bs: "bs = be_bytes 16 (msg_id m) @ be_bytes 8 (timestamp m) @ be_bytes 16 ?r @ content m"
    using assms by (simp add: message_serialize_def)
  then have "length bs = 40 + length (content m)" "drop 40 bs = content m"
    "take 16 bs = be_bytes 16 (msg_id m)" "take 8 (drop 16 bs) = be_bytes 8 (timestamp m)"
    "take 16 (drop 24 bs) = be_bytes 16 ?r"
    by simp_all
  then show ?thesis
    by (auto simp: message_from_serialized_eq from_be_be_bytes Let_def norm_reply_def split: option.splits)
qed

definition message_bytes :: "message \<Rightarrow> bytes" where
  "message_bytes m = (case message_serialize m of Ok bs \<Rightarrow> bs | _ \<Rightarrow> [])"

definition message_ok :: "message \<Rightarrow> bool" where
  "message_ok m \<longleftrightarrow> utf8_valid (content m) \<and> reply_to m \<noteq> Some 0"

lemma message_serialize_bytes: "message_serialize m = Ok (message_bytes m)"
  by (simp add: message_bytes_def message_serialize_def)

interpretation message: codec message_bytes message_from_serialized message_ok
proof
  fix m
  assume "message_ok m"
  then show "message_from_serialized (message_bytes m) = Ok m"
    using message_from_serialize [OF message_serialize_bytes]
    by (simp add: message_ok_def norm_reply_def)
qed

lemma message_from_serialized_ok:
  "message_from_serialized bs = Ok m \<Longrightarrow> message_ok m"
  by (auto simp: message_from_serialized_eq message_ok_def Let_def split: if_splits)

lemma message_from_serialized_Panic: "message_from_serialized bs = Panic \<longleftrightarrow> length bs < 40"
  by (simp add: message_from_serialized_eq Let_def)

end
