(* ===== verification/NodeIds.thy ===== *)
theory NodeIds
  imports Wire
begin

text \<open>
  dht/node\_id.rs: 256-bit node ids, the XOR distance and the index of the first differing bit.
  The refinement: byte strings of one length are ordered and XORed as the numbers they write in
  base 256, so the distance is a metric and \<open>leading_zero_bits\<close> is its binary magnitude.
\<close>

section \<open>Byte strings as numbers in base 256\<close>

fun be_val :: "bytes \<Rightarrow> nat" where
  "be_val [] = 0"
| "be_val (b # bs) = unat b * 256 ^ length bs + be_val bs"

lemma be_val_bound: "be_val bs < 256 ^ length bs"
proof (induction bs)
  case (Cons b bs)
  have "unat b < 256" using unsigned_less [of b] by simp
  then have "unat b * 256 ^ length bs + 256 ^ length bs \<le> 256 * 256 ^ length bs"
    by (metis add.commute mult_Suc mult_le_mono1 Suc_leI)
  then have "be_val (b # bs) < 256 * 256 ^ length bs"
    using Cons.IH unfolding be_val.simps by linarith
  then show ?case by simp
qed simp

lemma be_val_less:
  "length xs = length ys \<Longrightarrow> xs < ys \<longleftrightarrow> be_val xs < be_val ys"
proof (induction xs ys rule: list_induct2)
  case (Cons x xs y ys)
  have bx: "be_val xs < 256 ^ length ys" and b: "be_val ys < 256 ^ length ys"
    using be_val_bound [of xs] be_val_bound [of ys] Cons.hyps by simp_all
  have key: "u * m + p < v * m + q" if "u < v" "p < m" for u v m p q :: nat
  proof -
    have "u * m + m \<le> v * m" using that by (metis Suc_leI add.commute mult_Suc mult_le_mono1)
    then show ?thesis using that by linarith
  qed
  consider "x < y" | "x = y" | "y < x" by (rule linorder_cases)
  then show ?case
  proof cases
    case 1
    then show ?thesis using key [of "unat x" "unat y", OF _ bx] Cons.hyps by (simp add: word_less_nat_alt)
  next
    case 2
    then show ?thesis using Cons by simp
  next
    case 3
    then show ?thesis using key [of "unat y" "unat x", OF _ b] Cons.hyps
      by (simp add: word_less_nat_alt) (metis less_imp_not_less order_less_irrefl word_unat_eq_iff)
  qed
qed simp

lemma bit_be_val: "bit (be_val bs) n \<longleftrightarrow> n < 8 * length bs \<and> bit (rev bs ! (n div 8)) (n mod 8)"
proof (induction bs arbitrary: n)
  case (Cons b bs)
  let ?k = "8 * length bs"
  have p: "(256::nat) ^ length bs = 2 ^ ?k" by (simp add: power_mult)
  have v: "be_val bs < 2 ^ ?k" using be_val_bound [of bs] by (simp add: p)
  have "be_val (b # bs) = push_bit ?k (unat b) OR be_val bs"
  proof -
    have "bit (push_bit ?k (unat b)) m \<Longrightarrow> bit (be_val bs) m \<Longrightarrow> False" for m
      using v by (metis bit_push_bit_iff bit_take_bit_iff linorder_not_less take_bit_nat_eq_self)
    then have "push_bit ?k (unat b) AND be_val bs = 0"
      by (intro bit_eqI) (auto simp: bit_and_iff)
    then have "push_bit ?k (unat b) + be_val bs = push_bit ?k (unat b) OR be_val bs"
      by (rule disjunctive_add_eq_or)
    then show ?thesis by (simp add: p push_bit_eq_mult mult.commute)
  qed
  then have "bit (be_val (b # bs)) n \<longleftrightarrow> (?k \<le> n \<and> bit b (n - ?k)) \<or> bit (be_val bs) n"
    by (auto simp: bit_or_iff bit_push_bit_iff bit_unsigned_iff)
  also have "\<dots> \<longleftrightarrow> n < 8 * length (b # bs) \<and> bit (rev (b # bs) ! (n div 8)) (n mod 8)"
  proof (cases "?k \<le> n")
    case True
    then obtain m where m: "n = ?k + m" by (metis le_Suc_ex)
    then have "\<not> bit (be_val bs) n" using Cons.IH by simp
    moreover have "bit b m \<Longrightarrow> m < 8" using bit_imp_le_length [of b m] by simp
    moreover have "(8 * length bs + m) div 8 = length bs + m div 8" by simp
    ultimately show ?thesis using True m by (auto simp: nth_append)
  next
    case False
    then have "n div 8 < length bs" by (simp add: div_less_iff_less_mult)
    then show ?thesis using False Cons.IH by (auto simp: nth_append)
  qed
  finally show ?case .
qed simp

lemma be_val_xor: "length xs = length ys \<Longrightarrow> be_val (map2 (XOR) xs ys) = be_val xs XOR be_val ys"
proof (rule bit_eqI)
  fix n
  assume l: "length xs = length ys"
  have r: "rev (map2 (XOR) xs ys) ! i = rev xs ! i XOR rev ys ! i" if "i < length xs" for i
    using l that by (simp add: rev_nth)
  show "bit (be_val (map2 (XOR) xs ys)) n \<longleftrightarrow> bit (be_val xs XOR be_val ys) n"
    using l r [of "n div 8"] by (auto simp: bit_be_val bit_xor_iff div_less_iff_less_mult)
qed

lemma xor_cancel: "((a::nat) XOR b) XOR (b XOR c) = a XOR c"
  by (rule bit_eqI) (auto simp: bit_xor_iff)

lemma xor_le_add: "(a::nat) XOR b \<le> a + b"
proof (induction a arbitrary: b rule: less_induct)
  case (less a)
  show ?case
  proof (cases "a = 0")
    case False
    then have IH: "(a div 2) XOR (b div 2) \<le> a div 2 + b div 2" by (intro less.IH) simp
    have "a XOR b = of_bool (odd a \<noteq> odd b) + 2 * ((a div 2) XOR (b div 2))" by (rule xor_nat_rec)
    also have "\<dots> \<le> of_bool (odd a \<noteq> odd b) + 2 * (a div 2) + 2 * (b div 2)" using IH by simp
    also have "\<dots> \<le> a + b"
    proof -
      have "2 * (n div 2) + of_bool (odd n) = n" for n :: nat by (cases "odd n") simp_all
      from this [of a] this [of b] show ?thesis by (cases "odd a"; cases "odd b") auto
    qed
    finally show ?thesis .
  qed simp
qed

section \<open>Node ids\<close>

datatype node_id = NodeID (nid: "32 arr")

text \<open>\<open>sha256\<close> is the hash of the sha2 package: a parameter.\<close>

definition node_from_pubkey :: "(bytes \<Rightarrow> 32 arr) \<Rightarrow> 32 arr \<Rightarrow> node_id" where
  "node_from_pubkey sha256 pubkey = NodeID (sha256 (bytes_of pubkey @ ascii ''dht_node_id''))"

text \<open>The loop \<open>for i in 0..32\<close> fills every byte of the array.\<close>

definition distance :: "node_id \<Rightarrow> node_id \<Rightarrow> 32 arr" where
  "distance a b = arr_of (map (\<lambda>i. bytes_of (nid a) ! i XOR bytes_of (nid b) ! i) [0..<32])"

text \<open>\<open>u8::leading_zeros\<close>.\<close>

definition leading_zeros8 :: "u8 \<Rightarrow> nat" where
  "leading_zeros8 b = length (takeWhile (\<lambda>k. \<not> bit b k) [7, 6, 5, 4, 3, 2, 1, 0])"

fun lzb_loop :: "nat \<Rightarrow> bytes \<Rightarrow> nat option" where
  "lzb_loop i [] = None"
| "lzb_loop i (byte # bs) =
     (if byte \<noteq> 0 then Some (i * 8 + leading_zeros8 byte) else lzb_loop (Suc i) bs)"

definition leading_zero_bits :: "node_id \<Rightarrow> node_id \<Rightarrow> nat option" where
  "leading_zero_bits a b = lzb_loop 0 (bytes_of (distance a b))"

subsection \<open>The distance is a metric\<close>

definition dist_val :: "node_id \<Rightarrow> node_id \<Rightarrow> nat" where
  "dist_val a b = be_val (bytes_of (distance a b))"

definition id_val :: "node_id \<Rightarrow> nat" where
  "id_val a = be_val (bytes_of (nid a))"

lemma be_val_inj: "length xs = length ys \<Longrightarrow> be_val xs = be_val ys \<longleftrightarrow> xs = ys"
  by (metis be_val_less less_irrefl linorder_less_linear)

lemma id_val_inj [simp]: "id_val a = id_val b \<longleftrightarrow> a = b"
  by (cases a; cases b) (simp add: id_val_def be_val_inj)

lemma bytes_of_distance: "bytes_of (distance a b) = map2 (XOR) (bytes_of (nid a)) (bytes_of (nid b))"
  by (auto simp: distance_def intro!: nth_equalityI)

lemma dist_val_xor: "dist_val a b = id_val a XOR id_val b"
  by (simp add: dist_val_def id_val_def bytes_of_distance be_val_xor)

text \<open>Comparing distances as \<open>Vec<u8>\<close> is comparing them as numbers.\<close>

lemma distance_less_iff:
  "bytes_of (distance t a) < bytes_of (distance t b) \<longleftrightarrow> dist_val t a < dist_val t b"
  unfolding dist_val_def by (rule be_val_less) simp

lemma distance_le_iff:
  "bytes_of (distance t a) \<le> bytes_of (distance t b) \<longleftrightarrow> dist_val t a \<le> dist_val t b"
  by (metis distance_less_iff linorder_not_less)

lemma distance_commute: "distance a b = distance b a"
  by (simp add: distance_def xor.commute)

lemma dist_val_self [simp]: "dist_val a a = 0"
  by (simp add: dist_val_xor)

lemma dist_val_eq_0 [simp]: "dist_val a b = 0 \<longleftrightarrow> a = b"
  by (metis dist_val_xor id_val_inj xor_self_eq xor.right_neutral xor.assoc)

lemma dist_val_triangle: "dist_val a c \<le> dist_val a b + dist_val b c"
proof -
  have "dist_val a c = dist_val a b XOR dist_val b c" by (simp add: dist_val_xor xor_cancel)
  then show ?thesis using xor_le_add by simp
qed

lemma dist_val_inj: "dist_val t a = dist_val t b \<longleftrightarrow> a = b"
  by (metis dist_val_xor id_val_inj xor.assoc xor_self_eq xor.left_neutral)

lemma distance_inj: "distance t a = distance t b \<longleftrightarrow> a = b"
  by (metis dist_val_def dist_val_inj)

text \<open>
  The XOR distance is a metric on node ids, and unidirectional: for each target and distance
  there is one node, so two nodes equally far from a target are the same node.
\<close>

theorem distance_metric:
  "distance a b = distance b a \<and>
   (dist_val a b = 0 \<longleftrightarrow> a = b) \<and>
   dist_val a c \<le> dist_val a b + dist_val b c \<and>
   (distance t a = distance t b \<longleftrightarrow> a = b)"
  by (simp add: distance_commute [of a b] dist_val_triangle distance_inj)

subsection \<open>The first differing bit\<close>

definition lz8_ok :: "u8 \<Rightarrow> bool" where
  "lz8_ok b \<longleftrightarrow> leading_zeros8 b < 8 \<and> 2 ^ (7 - leading_zeros8 b) \<le> unat b \<and> unat b < 2 ^ (8 - leading_zeros8 b)"

lemma lz8_ok_all: "list_all (\<lambda>n. lz8_ok (of_nat n)) [1..<256]"
  by code_simp

lemma leading_zeros8_bounds:
  assumes "b \<noteq> 0"
  shows "leading_zeros8 b < 8" "2 ^ (7 - leading_zeros8 b) \<le> unat b" "unat b < 2 ^ (8 - leading_zeros8 b)"
proof -
  have "unat b \<in> set [1..<256]"
    using assms unsigned_less [of b] by (auto simp: Suc_le_eq unat_gt_0)
  then have "lz8_ok (of_nat (unat b))" using lz8_ok_all by (metis list_all_iff)
  then show "leading_zeros8 b < 8" "2 ^ (7 - leading_zeros8 b) \<le> unat b" "unat b < 2 ^ (8 - leading_zeros8 b)"
    by (simp_all add: lz8_ok_def)
qed

lemma lzb_loop_None: "lzb_loop i bs = None \<longleftrightarrow> (\<forall>b \<in> set bs. b = 0)"
  by (induction bs arbitrary: i) auto

lemma be_val_zero: "(\<forall>b \<in> set bs. b = 0) \<Longrightarrow> be_val bs = 0"
  by (induction bs) auto

lemma lzb_loop_bounds:
  "lzb_loop i bs = Some k \<Longrightarrow>
     \<exists>j. k = 8 * i + j \<and> j < 8 * length bs \<and>
       2 ^ (8 * length bs - 1 - j) \<le> be_val bs \<and> be_val bs < 2 ^ (8 * length bs - j)"
proof (induction bs arbitrary: i)
  case (Cons b bs)
  let ?m = "8 * length bs"
  have p: "(256::nat) ^ length bs = 2 ^ ?m" by (simp add: power_mult)
  show ?case
  proof (cases "b = 0")
    case True
    then obtain j where "k = 8 * Suc i + j" "j < ?m"
      "2 ^ (?m - 1 - j) \<le> be_val bs" "be_val bs < 2 ^ (?m - j)"
      using Cons by fastforce
    then show ?thesis using True by (intro exI [of _ "8 + j"]) simp
  next
    case False
    let ?z = "leading_zeros8 b"
    note z = leading_zeros8_bounds [OF False]
    have k: "k = 8 * i + ?z" using Cons.prems False by simp
    have "2 ^ (7 - ?z) * 2 ^ ?m \<le> unat b * (2::nat) ^ ?m" using z(2) by simp
    then have lo: "2 ^ (8 * length (b # bs) - 1 - ?z) \<le> be_val (b # bs)"
      using z(1) by (simp add: p power_add [symmetric])
    have "Suc (unat b) * (2::nat) ^ ?m \<le> 2 ^ (8 - ?z) * 2 ^ ?m" using z(3) by (intro mult_le_mono1) simp
    then have hi: "be_val (b # bs) < 2 ^ (8 * length (b # bs) - ?z)"
      using z(1) be_val_bound [of bs] by (simp add: p power_add [symmetric])
    show ?thesis using k z(1) lo hi by (intro exI [of _ ?z]) simp
  qed
qed simp

lemma leading_zero_bits_bounds:
  assumes "leading_zero_bits a b = Some k"
  shows "k < 256 \<and> 2 ^ (255 - k) \<le> dist_val a b \<and> dist_val a b < 2 ^ (256 - k)"
  using lzb_loop_bounds [of 0 "bytes_of (distance a b)" k] assms
  by (simp add: leading_zero_bits_def dist_val_def)

lemma leading_zero_bits_None: "leading_zero_bits a b = None \<longleftrightarrow> a = b"
proof
  assume "leading_zero_bits a b = None"
  then have "dist_val a b = 0"
    by (simp add: leading_zero_bits_def lzb_loop_None dist_val_def be_val_zero)
  then show "a = b" by simp
next
  assume "a = b"
  then show "leading_zero_bits a b = None"
    by (auto simp: leading_zero_bits_def distance_def lzb_loop_None)
qed

lemma power_bracket_unique:
  "(2::nat) ^ i \<le> d \<Longrightarrow> d < 2 ^ Suc i \<Longrightarrow> 2 ^ j \<le> d \<Longrightarrow> d < 2 ^ Suc j \<Longrightarrow> i = j"
  by (metis le_antisym less_Suc_eq_le order_le_less_trans power_less_imp_less_exp one_less_numeral_iff semiring_norm(76))

text \<open>
  \<open>leading_zero_bits\<close> is the binary magnitude of the distance: it returns \<open>None\<close> for equal
  ids only, and otherwise the one \<open>k < 256\<close> with \<open>2^(255-k) \<le> d < 2^(256-k)\<close>.
\<close>

theorem leading_zero_bits_spec:
  "(leading_zero_bits a b = None \<longleftrightarrow> a = b) \<and>
   (leading_zero_bits a b = Some k \<longleftrightarrow>
      k < 256 \<and> 2 ^ (255 - k) \<le> dist_val a b \<and> dist_val a b < 2 ^ (256 - k))"
proof -
  have "leading_zero_bits a b = Some k"
    if "k < 256" and d: "2 ^ (255 - k) \<le> dist_val a b" "dist_val a b < 2 ^ (256 - k)"
  proof -
    have "(0::nat) < 2 ^ (255 - k)" by simp
    then have "dist_val a b \<noteq> 0" using d(1) by linarith
    then have "a \<noteq> b" by auto
    then obtain j where j: "leading_zero_bits a b = Some j"
      using leading_zero_bits_None by auto
    note b = leading_zero_bits_bounds [OF j]
    have e: "256 - m = Suc (255 - m)" if "m < 256" for m :: nat using that by simp
    have "255 - j = 255 - k"
      using b d unfolding e [OF \<open>k < 256\<close>] e [OF b [THEN conjunct1]]
      by (blast intro: power_bracket_unique)
    then have "j = k" using b [THEN conjunct1] \<open>k < 256\<close> by linarith
    with j show ?thesis by simp
  qed
  with leading_zero_bits_bounds [of a b k]
  have "leading_zero_bits a b = Some k \<longleftrightarrow>
      k < 256 \<and> 2 ^ (255 - k) \<le> dist_val a b \<and> dist_val a b < 2 ^ (256 - k)" by argo
  with leading_zero_bits_None [of a b] show ?thesis by argo
qed

end
