(* ===== verification/DhtProto.thy ===== *)
theory DhtProto
  imports NodeIds
begin

text \<open>
  dht/protocol.rs: the eight DHT operations and their byte format. Lemmas: every operation whose
  lengths fit 16 bits reads back, whatever follows it; what parses is well-formed; the parser
  panics on exactly one shape of buffer (a \<open>Store\<close> cut inside its length field).
\<close>

definition MAX_VALUE_SIZE :: nat where "MAX_VALUE_SIZE = 1024"

type_synonym contact_node = "node_id \<times> socket_addr"

datatype dht_operation =
    Ping node_id
  | Pong node_id
  | FindNode node_id (target_id: node_id)
  | Nodes node_id "contact_node list"
  | Store node_id "32 arr" bytes u32
  | StoreAck node_id "32 arr"
  | FindValue node_id "32 arr"
  | Value node_id "32 arr" "bytes option" "contact_node list"

fun sender_id :: "dht_operation \<Rightarrow> node_id" where
  "sender_id (Ping s) = s"
| "sender_id (Pong s) = s"
| "sender_id (FindNode s t) = s"
| "sender_id (Nodes s ns) = s"
| "sender_id (Store s k v ttl) = s"
| "sender_id (StoreAck s k) = s"
| "sender_id (FindValue s k) = s"
| "sender_id (Value s k v ns) = s"

fun op_tag :: "dht_operation \<Rightarrow> u8" where
  "op_tag (Ping s) = 1"
| "op_tag (Pong s) = 2"
| "op_tag (FindNode s t) = 3"
| "op_tag (Nodes s ns) = 4"
| "op_tag (Store s k v ttl) = 5"
| "op_tag (StoreAck s k) = 6"
| "op_tag (FindValue s k) = 7"
| "op_tag (Value s k v ns) = 8"

section \<open>Node lists\<close>

definition write_node :: "contact_node \<Rightarrow> bytes" where
  "write_node n = (case n of (i, addr) \<Rightarrow> bytes_of (nid i) @ write_address addr)"

definition read_node :: "bytes \<Rightarrow> (contact_node \<times> bytes) res" where
  "read_node bytes =
     and_then (take_bytes bytes) (\<lambda>(id_bytes, bytes).
     and_then (read_address bytes) (\<lambda>(addr, bytes).
       Ok ((NodeID id_bytes, addr), bytes)))"

definition node_ok :: "contact_node \<Rightarrow> bool" where
  "node_ok n \<longleftrightarrow> canonical (snd n)"

interpretation node: exact_codec write_node read_node node_ok
proof
  show "read_node (write_node n @ r) = Ok (n, r)" if "node_ok n" for n r
    using that by (cases n) (simp add: read_node_def write_node_def node_ok_def addr.read_write)
  show "node_ok n \<and> bs = write_node n @ r" if "read_node bs = Ok (n, r)" for bs n r
    using that by (auto simp: read_node_def write_node_def node_ok_def res_simps addr.read_iff take_bytes_Ok_iff)
  show "read_node bs \<noteq> Panic" for bs
    by (auto simp: read_node_def res_simps addr.read_total)
qed

text \<open>\<open>Vec::remove(0)\<close> panics on an empty vector.\<close>

definition remove0 :: "bytes \<Rightarrow> (u8 \<times> bytes) res" where
  "remove0 bs = (case bs of [] \<Rightarrow> Panic | b # bs \<Rightarrow> Ok (b, bs))"

definition remove_u16 :: "bytes \<Rightarrow> (u16 \<times> bytes) res" where
  "remove_u16 bs =
     and_then (remove0 bs) (\<lambda>(a, bs).
     and_then (remove0 bs) (\<lambda>(b, bs). Ok (from_be [a, b], bs)))"

definition read_nodes :: "bytes \<Rightarrow> (contact_node list \<times> bytes) res" where
  "read_nodes bytes =
     (if length bytes < 2 then Err (Msg ''truncated node count'')
      else and_then (remove_u16 bytes) (\<lambda>(count, bytes).
        read_many read_node (unat count) bytes))"

definition write_nodes :: "contact_node list \<Rightarrow> bytes" where
  "write_nodes nodes = be_bytes 2 (of_nat (length nodes) :: u16) @ concat (map write_node nodes)"

lemma remove_u16_append [simp]: "remove_u16 (be_bytes 2 w @ r) = Ok (w, r)"
proof -
  have "\<exists>a b. xs = [a, b]" if "length xs = 2" for xs :: bytes
    using that by (cases xs; cases "tl xs") auto
  from this [of "be_bytes 2 w"] obtain a b where ab: "be_bytes 2 w = [a, b]" by auto
  have "from_be [a, b] = w" using from_be_be_bytes [of 2 w] by (simp add: ab)
  then show ?thesis by (simp add: remove_u16_def remove0_def ab)
qed

lemma remove_u16_Ok_iff: "remove_u16 bs = Ok (w, r) \<longleftrightarrow> bs = be_bytes 2 w @ r"
proof
  assume "remove_u16 bs = Ok (w, r)"
  then obtain a b where "bs = [a, b] @ r" "w = from_be [a, b]"
    by (auto simp: remove_u16_def remove0_def res_simps split: list.splits)
  then show "bs = be_bytes 2 w @ r" by (simp add: be_bytes_from_be)
qed simp

lemma remove_u16_Panic: "remove_u16 bs = Panic \<longleftrightarrow> length bs < 2"
  by (auto simp: remove_u16_def remove0_def res_simps split: list.splits)

lemma remove_u16_not_Err [simp]: "remove_u16 bs \<noteq> Err e"
  by (auto simp: remove_u16_def remove0_def res_simps split: list.splits)

lemma unat_of_nat_u16: "n < 65536 \<Longrightarrow> unat (of_nat n :: u16) = n"
  by (simp add: unat_of_nat take_bit_nat_eq_self)

definition nodes_ok :: "contact_node list \<Rightarrow> bool" where
  "nodes_ok ns \<longleftrightarrow> length ns < 65536 \<and> (\<forall>n \<in> set ns. node_ok n)"

interpretation nodes: exact_codec write_nodes read_nodes nodes_ok
proof
  show "read_nodes (write_nodes ns @ r) = Ok (ns, r)" if "nodes_ok ns" for ns r
    using that by (simp add: read_nodes_def write_nodes_def nodes_ok_def unat_of_nat_u16 node.read_many_write)
  show "nodes_ok ns \<and> bs = write_nodes ns @ r" if "read_nodes bs = Ok (ns, r)" for bs ns r
  proof -
    from that obtain c rest where c: "remove_u16 bs = Ok (c, rest)" "read_many read_node (unat c) rest = Ok (ns, r)"
      by (auto simp: read_nodes_def res_simps split: if_splits)
    then have "length ns = unat c" "\<forall>n \<in> set ns. node_ok n" "bs = be_bytes 2 c @ concat (map write_node ns) @ r"
      by (simp_all add: remove_u16_Ok_iff node.read_many_iff)
    moreover have "unat c < 65536" using unsigned_less [of c] by simp
    ultimately show ?thesis by (simp add: nodes_ok_def write_nodes_def)
  qed
  show "read_nodes bs \<noteq> Panic" for bs
    by (auto simp: read_nodes_def res_simps remove_u16_Panic node.read_many_total)
qed

section \<open>Operations\<close>

definition op_serialize :: "dht_operation \<Rightarrow> bytes" where
  "op_serialize op = [op_tag op] @
     (case op of
        Ping s \<Rightarrow> bytes_of (nid s)
      | Pong s \<Rightarrow> bytes_of (nid s)
      | FindNode s t \<Rightarrow> bytes_of (nid s) @ bytes_of (nid t)
      | Nodes s ns \<Rightarrow> bytes_of (nid s) @ write_nodes ns
      | Store s k v ttl \<Rightarrow>
          bytes_of (nid s) @ bytes_of k @ be_bytes 4 ttl @ be_bytes 2 (of_nat (length v) :: u16) @ v
      | StoreAck s k \<Rightarrow> bytes_of (nid s) @ bytes_of k
      | FindValue s k \<Rightarrow> bytes_of (nid s) @ bytes_of k
      | Value s k v ns \<Rightarrow>
          bytes_of (nid s) @ bytes_of k @
          (case v of Some v \<Rightarrow> [1] @ be_bytes 2 (of_nat (length v) :: u16) @ v | None \<Rightarrow> [0]) @
          write_nodes ns)"

definition read_id :: "bytes \<Rightarrow> (node_id \<times> bytes) res" where
  "read_id bytes = and_then (take_bytes bytes) (\<lambda>(a, bytes). Ok (NodeID a, bytes))"

definition read_key :: "bytes \<Rightarrow> (32 arr \<times> bytes) res" where
  "read_key bytes = take_bytes bytes"

definition read_value :: "bytes \<Rightarrow> (bytes option \<times> bytes) res" where
  "read_value bytes =
     (if bytes = [] then Err (Msg ''truncated value packet'')
      else and_then (remove0 bytes) (\<lambda>(has_value, bytes).
        if has_value = 1 then
          if length bytes < 2 then Err (Msg ''truncated value length'')
          else and_then (remove_u16 bytes) (\<lambda>(vlen, bytes).
            if length bytes < unat vlen then Err (Msg ''truncated value'')
            else and_then (drain (unat vlen) bytes) (\<lambda>(v, bytes). Ok (Some v, bytes)))
        else Ok (None, bytes)))"

definition op_from_serialized :: "bytes \<Rightarrow> dht_operation res" where
  "op_from_serialized bytes =
     (if bytes = [] then Err (Msg ''empty dht packet'')
      else and_then (remove0 bytes) (\<lambda>(tag, bytes).
        if tag = 1 then and_then (read_id bytes) (\<lambda>(s, bytes). Ok (Ping s))
        else if tag = 2 then and_then (read_id bytes) (\<lambda>(s, bytes). Ok (Pong s))
        else if tag = 3 then
          and_then (read_id bytes) (\<lambda>(s, bytes).
          and_then (read_id bytes) (\<lambda>(t, bytes). Ok (FindNode s t)))
        else if tag = 4 then
          and_then (read_id bytes) (\<lambda>(s, bytes).
          and_then (read_nodes bytes) (\<lambda>(ns, bytes). Ok (Nodes s ns)))
        else if tag = 5 then
          and_then (read_id bytes) (\<lambda>(s, bytes).
          and_then (read_key bytes) (\<lambda>(k, bytes).
          and_then (take_bytes bytes) (\<lambda>(ttl_bytes :: 4 arr, bytes).
          and_then (remove_u16 bytes) (\<lambda>(value_len, bytes).
            if length bytes < unat value_len then Err (Msg ''truncated value'')
            else and_then (drain (unat value_len) bytes) (\<lambda>(v, bytes).
              Ok (Store s k v (from_be (bytes_of ttl_bytes))))))))
        else if tag = 6 then
          and_then (read_id bytes) (\<lambda>(s, bytes).
          and_then (read_key bytes) (\<lambda>(k, bytes). Ok (StoreAck s k)))
        else if tag = 7 then
          and_then (read_id bytes) (\<lambda>(s, bytes).
          and_then (read_key bytes) (\<lambda>(k, bytes). Ok (FindValue s k)))
        else if tag = 8 then
          and_then (read_id bytes) (\<lambda>(s, bytes).
          and_then (read_key bytes) (\<lambda>(k, bytes).
          and_then (read_value bytes) (\<lambda>(v, bytes).
          and_then (read_nodes bytes) (\<lambda>(ns, bytes). Ok (Value s k v ns)))))
        else Err (MsgNats ''unknown dht packet tag: {tag}'' [unat tag])))"

text \<open>The operations whose lists and values fit their 16-bit lengths.\<close>

fun op_ok :: "dht_operation \<Rightarrow> bool" where
  "op_ok (Nodes s ns) = nodes_ok ns"
| "op_ok (Store s k v ttl) = (length v < 65536)"
| "op_ok (Value s k v ns) = ((case v of None \<Rightarrow> True | Some v \<Rightarrow> length v < 65536) \<and> nodes_ok ns)"
| "op_ok op = True"

lemma read_id_append [simp]: "read_id (bytes_of (nid s) @ r) = Ok (s, r)"
  by (simp add: read_id_def)

lemma read_key_append [simp]: "read_key (bytes_of k @ r) = Ok (k, r)"
  by (simp add: read_key_def)

lemma read_id_not_Panic [simp]: "read_id bs \<noteq> Panic"
  by (auto simp: read_id_def res_simps)

lemma read_key_not_Panic [simp]: "read_key bs \<noteq> Panic"
  by (simp add: read_key_def)

lemma read_value_not_Panic [simp]: "read_value bs \<noteq> Panic"
  by (auto simp: read_value_def res_simps remove0_def remove_u16_Panic split: list.splits)

lemma read_value_append:
  assumes "case v of None \<Rightarrow> True | Some v \<Rightarrow> length v < 65536"
  shows "read_value ((case v of Some v \<Rightarrow> [1] @ be_bytes 2 (of_nat (length v) :: u16) @ v | None \<Rightarrow> [0]) @ r) = Ok (v, r)"
  using assms by (cases v) (simp_all add: read_value_def remove0_def unat_of_nat_u16)

lemma op_roundtrip:
  assumes "op_ok op"
  shows "op_from_serialized (op_serialize op @ junk) = Ok op"
proof (cases op)
  case (Value s k v ns)
  then show ?thesis using assms read_value_append [of v "write_nodes ns @ junk"]
    by (simp add: op_from_serialized_def op_serialize_def remove0_def nodes.read_write)
qed (use assms in \<open>simp_all add: op_from_serialized_def op_serialize_def remove0_def
      nodes.read_write unat_of_nat_u16 from_be_be_bytes\<close>)

interpretation dht_op: codec op_serialize op_from_serialized op_ok
proof
  show "op_from_serialized (op_serialize op) = Ok op" if "op_ok op" for op
    using op_roundtrip [OF that, of "[]"] by simp
qed

lemma read_value_ok: "read_value bs = Ok (v, r) \<Longrightarrow> case v of None \<Rightarrow> True | Some v \<Rightarrow> length v < 65536"
proof -
  have "unat (w :: u16) < 65536" for w using unsigned_less [of w] by simp
  then show "read_value bs = Ok (v, r) \<Longrightarrow> case v of None \<Rightarrow> True | Some v \<Rightarrow> length v < 65536"
    by (auto simp: read_value_def res_simps remove0_def drain_def split: if_splits list.splits)
qed

lemma op_from_serialized_ok:
  assumes "op_from_serialized bs = Ok op"
  shows "op_ok op"
proof -
  have "unat (w :: u16) < 65536" for w using unsigned_less [of w] by simp
  then show ?thesis
    using assms
    by (auto simp: op_from_serialized_def res_simps nodes.read_iff drain_def dest!: read_value_ok
        split: if_splits)
qed

lemma read_id_Ok_iff: "read_id bs = Ok (s, r) \<longleftrightarrow> bs = bytes_of (nid s) @ r"
  by (cases s) (auto simp: read_id_def res_simps take_bytes_Ok_iff)

lemma read_key_Ok_iff: "read_key bs = Ok (k, r) \<longleftrightarrow> bs = bytes_of k @ r"
  by (simp add: read_key_def take_bytes_Ok_iff)

lemma op_from_serialized_PanicD:
  assumes "op_from_serialized bs = Panic"
  shows "\<exists>r. bs = 5 # r \<and> (length r = 68 \<or> length r = 69)"
proof -
  obtain t r where bs: "bs = t # r"
    using assms by (cases bs) (simp_all add: op_from_serialized_def)
  have "t = 5"
    using assms bs
    by (auto simp: op_from_serialized_def remove0_def res_simps nodes.read_total split: if_splits)
  moreover from this have "length r = 68 \<or> length r = 69"
    using assms bs
    by (auto simp: op_from_serialized_def remove0_def res_simps remove_u16_Panic read_id_Ok_iff
        read_key_Ok_iff take_bytes_Ok_iff less_2_cases_iff split: if_splits)
  ultimately show ?thesis using bs by auto
qed

lemma op_from_serialized_PanicI:
  assumes "length r = 68 \<or> length r = 69"
  shows "op_from_serialized (5 # r) = Panic"
proof -
  have "read_id r = Ok (NodeID (arr_of (take 32 r)), drop 32 r)"
    "read_key (drop 32 r) = Ok (arr_of (take 32 (drop 32 r)), drop 64 r)"
    "take_bytes (drop 64 r) = Ok (arr_of (take 4 (drop 64 r)) :: 4 arr, drop 68 r)"
    "remove_u16 (drop 68 r) = Panic"
    using assms by (auto simp: read_id_def read_key_def take_bytes_def remove_u16_Panic)
  then show ?thesis by (simp add: op_from_serialized_def remove0_def)
qed

text \<open>
  C36. The wire format of DHT operations: every operation whose lists and value are shorter than
  65536 reads back exactly, whatever bytes follow it in the datagram.
\<close>

theorem dht_operation_roundtrip:
  assumes "op_ok op"
  shows "op_from_serialized (op_serialize op @ junk) = Ok op"
  using assms by (rule op_roundtrip)

theorem dht_operation_roundtrip_witness:
  "op_from_serialized (op_serialize (Nodes (NodeID zero_arr) [(NodeID zero_arr, V4 (arr_of [1, 2, 3, 4]) 80)]) @ [9]) =
     Ok (Nodes (NodeID zero_arr) [(NodeID zero_arr, V4 (arr_of [1, 2, 3, 4]) 80)])"
  by (rule dht_operation_roundtrip) (simp add: nodes_ok_def node_ok_def)

text \<open>
  Panics of the parser on a network buffer, all of them: a \<open>Store\<close> packet that ends inside
  its two-byte value length. Every other buffer gives an operation or an error.
\<close>

theorem op_from_serialized_panics_iff:
  "op_from_serialized bs = Panic \<longleftrightarrow> (\<exists>r. bs = 5 # r \<and> (length r = 68 \<or> length r = 69))"
  using op_from_serialized_PanicD op_from_serialized_PanicI by blast

text \<open>
  Serialization is injective on the operations that fit, so no two of them share a datagram,
  and everything that parses fits.
\<close>

theorem op_serialize_injective:
  "(op_ok op \<and> op_ok op' \<longrightarrow> (op_serialize op = op_serialize op' \<longleftrightarrow> op = op')) \<and>
   (op_from_serialized bs = Ok op \<longrightarrow> op_ok op)"
  using dht_op.enc_eq_iff op_from_serialized_ok by blast

end
