(* ===== verification/Routing.thy ===== *)
theory Routing
  imports DhtProto
begin

text \<open>
  dht/routing.rs: the Kademlia routing table. The invariant (256 buckets, each entry in the
  bucket of its id, at most \<open>K\<close> active and \<open>K\<close> candidate entries, no duplicate ids, never the
  local id) and its preservation; what \<open>add_node\<close> and \<open>evict_stale\<close> do; what \<open>closest_nodes\<close>
  returns, and when that is not the closest.
\<close>

definition K :: nat where "K = 20"

definition PING_COOLDOWN :: nat where "PING_COOLDOWN = from_secs 60"

definition STALE_THRESHOLD :: nat where "STALE_THRESHOLD = from_secs 120"

record entry =
  e_id :: node_id
  e_addr :: socket_addr
  last_seen :: instant
  last_pinged :: "instant option"

record bucket =
  active :: "entry list"
  candidates :: "entry list"

record routing_table =
  local_id :: node_id
  buckets :: "bucket list"

definition bucket_new :: bucket where
  "bucket_new = \<lparr>active = [], candidates = []\<rparr>"

definition entry_position :: "entry list \<Rightarrow> node_id \<Rightarrow> nat option" where
  "entry_position xs i = position (\<lambda>e. e_id e = i) xs"

definition routing_new :: "node_id \<Rightarrow> routing_table" where
  "routing_new l = \<lparr>local_id = l, buckets = replicate 256 bucket_new\<rparr>"

definition bucket_index :: "routing_table \<Rightarrow> node_id \<Rightarrow> nat" where
  "bucket_index rt node =
     (case leading_zero_bits (local_id rt) node of None \<Rightarrow> 255 | Some k \<Rightarrow> k)"

definition node_of :: "entry \<Rightarrow> contact_node" where
  "node_of e = (e_id e, e_addr e)"

definition ping_due :: "instant \<Rightarrow> entry \<Rightarrow> bool" where
  "ping_due now e =
     (case last_pinged e of None \<Rightarrow> True | Some t \<Rightarrow> duration_since now t > PING_COOLDOWN)"

text \<open>
  The search of \<open>add_node\<close> and \<open>needs_ping\<close>: among the active entries that may be pinged, the
  first with the least \<open>last_seen\<close>, which is marked as pinged.
\<close>

definition ping_oldest :: "instant \<Rightarrow> entry list \<Rightarrow> entry list \<times> contact_node option" where
  "ping_oldest now es =
     (case min_by_key (\<lambda>i. last_seen (es ! i)) (filter (\<lambda>i. ping_due now (es ! i)) [0..<length es]) of
        None \<Rightarrow> (es, None)
      | Some i \<Rightarrow> (es[i := (es ! i)\<lparr>last_pinged := Some now\<rparr>], Some (node_of (es ! i))))"

definition add_node ::
    "instant \<Rightarrow> node_id \<Rightarrow> socket_addr \<Rightarrow> routing_table \<Rightarrow> routing_table \<times> contact_node option" where
  "add_node now node addr rt =
     (if node = local_id rt then (rt, None)
      else
        let idx = bucket_index rt node;
            b = buckets rt ! idx;
            new = \<lparr>e_id = node, e_addr = addr, last_seen = now, last_pinged = None\<rparr>;
            put = (\<lambda>b. rt\<lparr>buckets := (buckets rt)[idx := b]\<rparr>)
        in case entry_position (active b) node of
             Some pos \<Rightarrow> (put (b\<lparr>active := remove_at pos (active b) @ [new]\<rparr>), None)
           | None \<Rightarrow>
             (case entry_position (candidates b) node of
                Some pos \<Rightarrow> (put (b\<lparr>candidates := remove_at pos (candidates b) @ [new]\<rparr>), None)
              | None \<Rightarrow>
                if length (active b) < K then (put (b\<lparr>active := active b @ [new]\<rparr>), None)
                else if length (candidates b) < K then
                  let (act, ping) = ping_oldest now (active b)
                  in (put (b\<lparr>active := act, candidates := candidates b @ [new]\<rparr>), ping)
                else (rt, None)))"

definition remove_node :: "node_id \<Rightarrow> routing_table \<Rightarrow> routing_table" where
  "remove_node node rt =
     (let idx = bucket_index rt node; b = buckets rt ! idx
      in rt\<lparr>buckets := (buckets rt)[idx :=
           b\<lparr>active := filter (\<lambda>e. e_id e \<noteq> node) (active b),
             candidates := filter (\<lambda>e. e_id e \<noteq> node) (candidates b)\<rparr>]\<rparr>)"

definition needs_ping :: "instant \<Rightarrow> node_id \<Rightarrow> routing_table \<Rightarrow> routing_table \<times> contact_node option" where
  "needs_ping now target rt =
     (let idx = bucket_index rt target; b = buckets rt ! idx;
          (act, ping) = ping_oldest now (active b)
      in (rt\<lparr>buckets := (buckets rt)[idx := b\<lparr>active := act\<rparr>]\<rparr>, ping))"

section \<open>Eviction\<close>

definition is_stale :: "instant \<Rightarrow> entry \<Rightarrow> bool" where
  "is_stale now e =
     (case last_pinged e of None \<Rightarrow> False
      | Some pinged \<Rightarrow> duration_since now pinged > STALE_THRESHOLD \<and> last_seen e < pinged)"

text \<open>The loop that moves stale active entries down, from index \<open>i\<close> on.\<close>

function demote_loop :: "instant \<Rightarrow> nat \<Rightarrow> bucket \<Rightarrow> bucket" where
  "demote_loop now i b =
     (if i < length (active b) then
        if is_stale now (active b ! i) then
          let stale = active b ! i; b = b\<lparr>active := remove_at i (active b)\<rparr>
          in demote_loop now i
               (if length (candidates b) < K then b\<lparr>candidates := candidates b @ [stale]\<rparr> else b)
        else demote_loop now (Suc i) b
      else b)"
  by pat_completeness auto
termination
  by (relation "measure (\<lambda>(now, i, b). length (active b) - i)") auto

declare demote_loop.simps [simp del]

text \<open>The loop that fills the active list with the freshest candidates.\<close>

definition freshest :: "entry list \<Rightarrow> nat option" where
  "freshest es = max_by_key (\<lambda>i. last_seen (es ! i)) [0..<length es]"

lemma freshest_SomeD:
  "freshest es = Some i \<Longrightarrow> i < length es \<and> (\<forall>e \<in> set es. last_seen e \<le> last_seen (es ! i))"
  unfolding freshest_def by (drule max_by_key_SomeD) (auto simp: in_set_conv_nth)

lemma freshest_None [simp]: "freshest es = None \<longleftrightarrow> es = []"
  by (simp add: freshest_def)

function promote_loop :: "bucket \<Rightarrow> bucket" where
  "promote_loop b =
     (if length (active b) < K \<and> candidates b \<noteq> [] then
        (case freshest (candidates b) of
           None \<Rightarrow> b
         | Some idx \<Rightarrow> promote_loop
             (b\<lparr>active := active b @ [candidates b ! idx],
                candidates := remove_at idx (candidates b)\<rparr>))
      else b)"
  by pat_completeness auto
termination
  by (relation "measure (\<lambda>b. length (candidates b))") (auto dest: freshest_SomeD)

declare promote_loop.simps [simp del]

definition evict_bucket :: "instant \<Rightarrow> bucket \<Rightarrow> bucket" where
  "evict_bucket now b =
     promote_loop (demote_loop now 0
       (b\<lparr>candidates := filter (\<lambda>e. duration_since now (last_seen e) < STALE_THRESHOLD) (candidates b)\<rparr>))"

definition evict_stale :: "instant \<Rightarrow> routing_table \<Rightarrow> routing_table" where
  "evict_stale now rt = rt\<lparr>buckets := map (evict_bucket now) (buckets rt)\<rparr>"

section \<open>The closest nodes\<close>

text \<open>
  The loop around the target's bucket. \<open>up\<close> is a \<open>usize\<close> that wraps below 0 to end the walk.
\<close>

function closest_loop :: "bucket list \<Rightarrow> nat \<Rightarrow> u64 \<Rightarrow> nat \<Rightarrow> contact_node list \<Rightarrow> contact_node list" where
  "closest_loop bks n up down out =
     (if (up < 256 \<or> down < 256) \<and> length out < n then
        let (out, up) =
              (if up < 256 then (out @ map node_of (active (bks ! unat up)), up - 1)
               else (out, up));
            (out, down) =
              (if down < 256 then (out @ map node_of (active (bks ! down)), down + 1)
               else (out, down))
        in closest_loop bks n up down out
      else out)"
  by pat_completeness auto
termination
proof (relation "measure (\<lambda>(bks, n, up :: u64, down, out). (if up < 256 then Suc (unat up) else 0) + (256 - down))")
  have "unat (up - 1) < unat up" if "up < 256" "up - 1 < 256" for up :: u64
    using that by (cases "up = 0") (simp_all add: unat_minus_one unat_gt_0)
  then show "((bks, n, up', down', out'), bks, n, up, down, out)
      \<in> measure (\<lambda>(bks, n, up :: u64, down, out). (if up < 256 then Suc (unat up) else 0) + (256 - down))"
    if "(up < 256 \<or> down < 256) \<and> length out < n"
      "x = (if up < 256 then (out @ map node_of (active (bks ! unat up)), up - 1) else (out, up))"
      "(out1, up') = x"
      "y = (if down < 256 then (out1 @ map node_of (active (bks ! down)), down + 1) else (out1, down))"
      "(out', down') = y"
    for bks n out out1 out' down down' x y and up up' :: u64
    using that by (auto split: if_splits) (fastforce)?
qed simp

declare closest_loop.simps [simp del]

definition closest_nodes :: "node_id \<Rightarrow> nat \<Rightarrow> routing_table \<Rightarrow> contact_node list" where
  "closest_nodes target n rt =
     (let start = bucket_index rt target;
          out = map node_of (active (buckets rt ! start));
          out = closest_loop (buckets rt) n (of_nat start - 1) (start + 1) out
      in take n (sort_key (\<lambda>(i, _). bytes_of (distance target i)) out))"


section \<open>The invariant\<close>

definition entries :: "bucket \<Rightarrow> entry list" where
  "entries b = active b @ candidates b"

definition pair_of :: "entry \<Rightarrow> node_id \<times> socket_addr \<times> instant" where
  "pair_of e = (e_id e, e_addr e, last_seen e)"

text \<open>The abstract bucket: who is known, at which address, seen when.\<close>

definition contacts :: "bucket \<Rightarrow> (node_id \<times> socket_addr \<times> instant) list" where
  "contacts b = map pair_of (entries b)"

definition bucket_ok :: "node_id \<Rightarrow> nat \<Rightarrow> bucket \<Rightarrow> bool" where
  "bucket_ok l i b \<longleftrightarrow>
     length (active b) \<le> K \<and> length (candidates b) \<le> K \<and> distinct (map fst (contacts b)) \<and>
     (\<forall>node \<in> set (map fst (contacts b)). leading_zero_bits l node = Some i)"

definition rt_ok :: "routing_table \<Rightarrow> bool" where
  "rt_ok rt \<longleftrightarrow> length (buckets rt) = 256 \<and> (\<forall>i < 256. bucket_ok (local_id rt) i (buckets rt ! i))"

definition contact_map :: "routing_table \<Rightarrow> node_id \<Rightarrow> (socket_addr \<times> instant) option" where
  "contact_map rt node = map_of (contacts (buckets rt ! bucket_index rt node)) node"

lemma fst_pair_of [simp]: "fst (pair_of e) = e_id e"
  by (simp add: pair_of_def)

lemma fst_comp_pair_of [simp]: "fst \<circ> pair_of = e_id"
  by (simp add: fun_eq_iff)

lemma bucket_index_less [simp]: "bucket_index rt node < 256"
  using leading_zero_bits_bounds by (auto simp: bucket_index_def split: option.splits)

lemma bucket_index_local [simp]: "bucket_index (rt\<lparr>buckets := bs\<rparr>) = bucket_index rt"
  by (simp add: bucket_index_def fun_eq_iff)

lemma lzb_bucket_index:
  "node \<noteq> local_id rt \<Longrightarrow> leading_zero_bits (local_id rt) node = Some (bucket_index rt node)"
  using leading_zero_bits_None [of "local_id rt" node] by (auto simp: bucket_index_def split: option.splits)

lemma lzb_SomeD: "leading_zero_bits (local_id rt) node = Some i \<Longrightarrow> node \<noteq> local_id rt \<and> bucket_index rt node = i"
  using leading_zero_bits_None [of "local_id rt" node] by (auto simp: bucket_index_def)

lemma rt_ok_put:
  assumes "rt_ok rt" and "bucket_ok (local_id rt) i b"
  shows "rt_ok (rt\<lparr>buckets := (buckets rt)[i := b]\<rparr>)"
  unfolding rt_ok_def using assms by (auto simp: rt_ok_def nth_update_if)

lemma rt_okD [intro]:
  "rt_ok rt \<Longrightarrow> bucket_ok (local_id rt) (bucket_index rt node) (buckets rt ! bucket_index rt node)"
  by (simp add: rt_ok_def)

lemma contact_map_put:
  assumes "rt_ok rt" and "i < 256"
  shows "contact_map (rt\<lparr>buckets := (buckets rt)[i := b]\<rparr>) node =
    (if bucket_index rt node = i then map_of (contacts b) node else contact_map rt node)"
  using assms by (simp add: contact_map_def rt_ok_def)

lemma distinct_subseteq_mset: "mset xs \<subseteq># mset ys \<Longrightarrow> distinct ys \<Longrightarrow> distinct xs"
proof -
  assume "mset xs \<subseteq># mset ys" and d: "distinct ys"
  then obtain zs where "mset ys = mset (xs @ zs)"
    by (metis ex_mset mset_append mset_subset_eq_exists_conv)
  with d have "distinct (xs @ zs)" by (metis mset_eq_imp_distinct_iff)
  then show ?thesis by simp
qed

lemma map_of_mset: "distinct (map fst xs) \<Longrightarrow> mset xs = mset ys \<Longrightarrow> map_of xs = map_of ys"
  by (metis map_of_inject_set mset_eq_imp_distinct_iff mset_map set_mset_mset)

lemma bucket_ok_subset:
  assumes "bucket_ok l i b" and "length (active b') \<le> K" and "length (candidates b') \<le> K"
    and sub: "mset (map fst (contacts b')) \<subseteq># mset (map fst (contacts b))"
  shows "bucket_ok l i b'"
proof -
  have "set (map fst (contacts b')) \<subseteq> set (map fst (contacts b))"
    using sub by (metis set_mset_mono set_mset_mset)
  then show ?thesis using assms distinct_subseteq_mset [OF sub] unfolding bucket_ok_def by blast
qed

lemma pair_of_ping [simp]: "map pair_of (fst (ping_oldest now es)) = map pair_of es"
  by (auto simp: ping_oldest_def pair_of_def nth_update_if intro!: nth_equalityI split: option.splits)

lemma length_ping [simp]: "length (fst (ping_oldest now es)) = length es"
  by (simp add: ping_oldest_def split: option.splits)

lemma contacts_update [simp]:
  "contacts (b\<lparr>active := xs\<rparr>) = map pair_of (xs @ candidates b)"
  "contacts (b\<lparr>candidates := xs\<rparr>) = map pair_of (active b @ xs)"
  by (simp_all add: contacts_def entries_def)

lemma bucket_new_ok [simp]: "bucket_ok l i bucket_new"
  by (simp add: bucket_ok_def contacts_def entries_def bucket_new_def)

lemma routing_new_ok: "rt_ok (routing_new l)"
  by (simp add: rt_ok_def routing_new_def)

lemma ids_contacts: "fst ` set (contacts b) = e_id ` set (entries b)"
  by (simp add: contacts_def image_image)

subsection \<open>Adding a node\<close>

lemma mset_pairs_remove:
  "i < length xs \<Longrightarrow> mset (map pair_of xs) = add_mset (pair_of (xs ! i)) (mset (map pair_of (remove_at i xs)))"
  by (metis mset_remove_at image_mset_add_mset mset_map)

text \<open>Replacing the entry of a known node by a new one moves it to the end of its list.\<close>

lemma refresh_bucket:
  assumes ok: "bucket_ok l i b" and len: "length (active b') \<le> K" "length (candidates b') \<le> K"
    and b: "mset (contacts b) = add_mset (node, v) (mset rest)"
    and b': "mset (contacts b') = add_mset (node, w) (mset rest)"
  shows "bucket_ok l i b' \<and> map_of (contacts b') = (map_of (contacts b))(node \<mapsto> w)"
proof -
  have ids: "mset (map fst (contacts b')) = mset (map fst (contacts b))" using b b' by simp
  then have ok': "bucket_ok l i b'" using ok len by (intro bucket_ok_subset [OF ok]) auto
  have "map_of (contacts b') = map_of ((node, w) # rest)"
    using ok' b' by (intro map_of_mset) (simp_all add: bucket_ok_def)
  moreover have "map_of (contacts b) = map_of ((node, v) # rest)"
    using ok b by (intro map_of_mset) (simp_all add: bucket_ok_def)
  moreover note ok'
  ultimately show ?thesis by simp
qed

lemma insert_bucket:
  assumes ok: "bucket_ok l i b" and len: "length (active b') \<le> K" "length (candidates b') \<le> K"
    and fresh: "node \<notin> set (map fst (contacts b))" and lzb: "leading_zero_bits l node = Some i"
    and b': "mset (contacts b') = add_mset (node, w) (mset (contacts b))"
  shows "bucket_ok l i b' \<and> map_of (contacts b') = (map_of (contacts b))(node \<mapsto> w)"
proof -
  have m: "mset (contacts b') = mset ((node, w) # contacts b)" using b' by simp
  have "distinct (map fst ((node, w) # contacts b))" using ok fresh by (simp add: bucket_ok_def)
  moreover have "mset (map fst (contacts b')) = mset (map fst ((node, w) # contacts b))"
    using m by (metis mset_map)
  moreover note calculation
  ultimately have d: "distinct (map fst (contacts b'))"
    "set (map fst (contacts b')) = insert node (set (map fst (contacts b)))"
    using mset_eq_imp_distinct_iff mset_eq_setD by (metis, metis fst_conv list.simps(15) list.simps(9))
  then have "bucket_ok l i b'" using ok len lzb unfolding bucket_ok_def by auto
  moreover have "map_of (contacts b') = map_of ((node, w) # contacts b)" by (rule map_of_mset [OF d(1) m])
  ultimately show ?thesis by simp
qed

definition has_room :: "routing_table \<Rightarrow> node_id \<Rightarrow> bool" where
  "has_room rt node \<longleftrightarrow>
     length (active (buckets rt ! bucket_index rt node)) < K \<or>
     length (candidates (buckets rt ! bucket_index rt node)) < K"

lemma entry_position_SomeD: "entry_position xs node = Some p \<Longrightarrow> p < length xs \<and> e_id (xs ! p) = node"
  unfolding entry_position_def by (drule position_SomeD) simp

lemma entry_position_None: "entry_position xs node = None \<longleftrightarrow> node \<notin> e_id ` set xs"
  by (auto simp: entry_position_def position_None_iff)

lemma add_node_bucket:
  assumes ok: "rt_ok rt" and node: "node \<noteq> local_id rt"
    and known: "contact_map rt node \<noteq> None \<or> has_room rt node"
  defines "i \<equiv> bucket_index rt node"
  shows "\<exists>b'. fst (add_node now node addr rt) = rt\<lparr>buckets := (buckets rt)[i := b']\<rparr> \<and>
      bucket_ok (local_id rt) i b' \<and>
      map_of (contacts b') = (map_of (contacts (buckets rt ! i)))(node \<mapsto> (addr, now))"
proof -
  let ?b = "buckets rt ! i" and ?new = "\<lparr>e_id = node, e_addr = addr, last_seen = now, last_pinged = None\<rparr>"
  have b: "bucket_ok (local_id rt) i ?b" using ok unfolding i_def by blast
  then have len: "length (active ?b) \<le> K" "length (candidates ?b) \<le> K" by (simp_all add: bucket_ok_def)
  have lzb: "leading_zero_bits (local_id rt) node = Some i" unfolding i_def using node by (rule lzb_bucket_index)
  consider (a) p where "entry_position (active ?b) node = Some p"
    | (c) p where "entry_position (active ?b) node = None" "entry_position (candidates ?b) node = Some p"
    | (n) "entry_position (active ?b) node = None" "entry_position (candidates ?b) node = None"
    by (cases "entry_position (active ?b) node"; cases "entry_position (candidates ?b) node") auto
  then show ?thesis
  proof cases
    case a
    note p = entry_position_SomeD [OF a]
    let ?b' = "?b\<lparr>active := remove_at p (active ?b) @ [?new]\<rparr>"
    have "bucket_ok (local_id rt) i ?b' \<and> map_of (contacts ?b') = (map_of (contacts ?b))(node \<mapsto> (addr, now))"
      by (rule refresh_bucket [OF b, where rest = "map pair_of (remove_at p (active ?b) @ candidates ?b)"])
        (use p len mset_pairs_remove [of p "active ?b"] in \<open>auto simp: contacts_def entries_def pair_of_def\<close>)
    then show ?thesis using node a by (auto simp: add_node_def i_def Let_def)
  next
    case c
    note p = entry_position_SomeD [OF c(2)]
    let ?b' = "?b\<lparr>candidates := remove_at p (candidates ?b) @ [?new]\<rparr>"
    have "bucket_ok (local_id rt) i ?b' \<and> map_of (contacts ?b') = (map_of (contacts ?b))(node \<mapsto> (addr, now))"
      by (rule refresh_bucket [OF b, where rest = "map pair_of (active ?b @ remove_at p (candidates ?b))"])
        (use p len mset_pairs_remove [of p "candidates ?b"] in \<open>auto simp: contacts_def entries_def pair_of_def\<close>)
    then show ?thesis using node c by (auto simp: add_node_def i_def Let_def)
  next
    case n
    then have fresh: "node \<notin> set (map fst (contacts ?b))"
      by (auto simp: entry_position_None ids_contacts entries_def)
    then have room: "has_room rt node"
      using known by (simp add: contact_map_def i_def map_of_eq_None_iff)
    show ?thesis
    proof (cases "length (active ?b) < K")
      case True
      let ?b' = "?b\<lparr>active := active ?b @ [?new]\<rparr>"
      have "bucket_ok (local_id rt) i ?b' \<and> map_of (contacts ?b') = (map_of (contacts ?b))(node \<mapsto> (addr, now))"
        by (rule insert_bucket [OF b _ _ fresh lzb])
          (use True len in \<open>auto simp: contacts_def entries_def pair_of_def\<close>)
      then show ?thesis using node n True by (auto simp: add_node_def i_def Let_def)
    next
      case False
      then have c: "length (candidates ?b) < K" using room by (simp add: has_room_def i_def)
      let ?b' = "?b\<lparr>active := fst (ping_oldest now (active ?b)), candidates := candidates ?b @ [?new]\<rparr>"
      have "bucket_ok (local_id rt) i ?b' \<and> map_of (contacts ?b') = (map_of (contacts ?b))(node \<mapsto> (addr, now))"
        by (rule insert_bucket [OF b _ _ fresh lzb])
          (use c len in \<open>auto simp: contacts_def entries_def pair_of_def\<close>)
      then show ?thesis using node n False c by (auto simp: add_node_def i_def Let_def case_prod_beta)
    qed
  qed
qed

lemma add_node_dropped:
  assumes "contact_map rt node = None" and "\<not> has_room rt node" 
  shows "add_node now node addr rt = (rt, None)"
proof -
  let ?b = "buckets rt ! bucket_index rt node"
  have "node \<notin> e_id ` set (entries ?b)"
    using assms(1) by (simp add: contact_map_def map_of_eq_None_iff ids_contacts)
  then have "entry_position (active ?b) node = None" "entry_position (candidates ?b) node = None"
    by (auto simp: entry_position_None entries_def)
  then show ?thesis using assms(2) by (simp add: add_node_def Let_def has_room_def)
qed

text \<open>No bucket gets shorter: what had no room has none afterwards.\<close>

lemma add_node_room:
  "local_id (fst (add_node now node addr rt)) = local_id rt"
  "rt_ok rt \<Longrightarrow> has_room (fst (add_node now node addr rt)) i \<Longrightarrow> has_room rt i"
proof -
  show l: "local_id (fst (add_node now node addr rt)) = local_id rt"
    by (simp add: add_node_def Let_def split: option.split prod.split)
  assume ok: "rt_ok rt" and room: "has_room (fst (add_node now node addr rt)) i"
  have idx: "bucket_index (fst (add_node now node addr rt)) i = bucket_index rt i" by (simp add: bucket_index_def l)
  have len: "bucket_index rt node < length (buckets rt)" using ok by (simp add: rt_ok_def)
  have "length (active (buckets rt ! bucket_index rt i)) \<le> length (active (buckets (fst (add_node now node addr rt)) ! bucket_index rt i))"
    "length (candidates (buckets rt ! bucket_index rt i)) \<le> length (candidates (buckets (fst (add_node now node addr rt)) ! bucket_index rt i))"
    using len by (auto simp: add_node_def Let_def ping_oldest_def nth_list_update length_remove_at dest: entry_position_SomeD
        split: option.split prod.split)
  then show "has_room rt i" using room unfolding has_room_def idx by linarith
qed

lemma add_node_local [simp]: "add_node now (local_id rt) addr rt = (rt, None)"
  by (simp add: add_node_def)

lemma add_node_ok: "rt_ok rt \<Longrightarrow> rt_ok (fst (add_node now node addr rt))"
proof (cases "node = local_id rt \<or> contact_map rt node = None \<and> \<not> has_room rt node")
  case True
  then show "rt_ok rt \<Longrightarrow> ?thesis" by (auto simp: add_node_dropped)
next
  case False
  then show "rt_ok rt \<Longrightarrow> ?thesis"
    using add_node_bucket [of rt node now addr] by (auto intro!: rt_ok_put)
qed

lemma add_node_map:
  assumes ok: "rt_ok rt"
  shows "contact_map (fst (add_node now node addr rt)) =
    (if node = local_id rt \<or> contact_map rt node = None \<and> \<not> has_room rt node then contact_map rt
     else (contact_map rt)(node \<mapsto> (addr, now)))"
proof (cases "node = local_id rt \<or> contact_map rt node = None \<and> \<not> has_room rt node")
  case True
  then show ?thesis by (auto simp: add_node_dropped)
next
  case False
  then obtain b' where b': "fst (add_node now node addr rt) = rt\<lparr>buckets := (buckets rt)[bucket_index rt node := b']\<rparr>"
    "map_of (contacts b') = (map_of (contacts (buckets rt ! bucket_index rt node)))(node \<mapsto> (addr, now))"
    using add_node_bucket [OF ok, of node now addr] by auto
  show ?thesis
    unfolding b'(1) fun_eq_iff
    using False by (auto simp: contact_map_put [OF ok] b'(2)) (simp_all add: contact_map_def)
qed


subsection \<open>Removing and pinging\<close>

lemma map_of_filter_neq: "map_of (filter (\<lambda>p. fst p \<noteq> k) xs) = (map_of xs)(k := None)"
  by (induction xs) (auto simp: fun_eq_iff)

lemma remove_bucket:
  fixes node :: node_id
  assumes ok: "bucket_ok l i b"
  defines "b' \<equiv> b\<lparr>active := filter (\<lambda>e. e_id e \<noteq> node) (active b),
                  candidates := filter (\<lambda>e. e_id e \<noteq> node) (candidates b)\<rparr>"
  shows "bucket_ok l i b' \<and> map_of (contacts b') = (map_of (contacts b))(node := None)"
proof -
  have c: "contacts b' = filter (\<lambda>p. fst p \<noteq> node) (contacts b)"
    by (simp add: b'_def contacts_def entries_def filter_map comp_def)
  have len: "length (active b') \<le> length (active b)" "length (candidates b') \<le> length (candidates b)"
    by (simp_all add: b'_def)
  moreover have "mset (map fst (contacts b')) \<subseteq># mset (map fst (contacts b))"
    unfolding c by (simp add: image_mset_subseteq_mono multiset_filter_subset)
  ultimately have "bucket_ok l i b'" using ok by (intro bucket_ok_subset [OF ok]) (auto simp: bucket_ok_def)
  then show ?thesis by (simp add: c map_of_filter_neq)
qed

lemma remove_node_ok: "rt_ok rt \<Longrightarrow> rt_ok (remove_node node rt)"
  unfolding remove_node_def Let_def by (intro rt_ok_put) (blast dest: remove_bucket [OF rt_okD])+

lemma remove_node_map:
  assumes "rt_ok rt"
  shows "contact_map (remove_node node rt) = (contact_map rt)(node := None)"
  using remove_bucket [OF rt_okD [OF assms], of node node]
  by (auto simp: remove_node_def Let_def fun_eq_iff contact_map_put [OF assms]) (simp_all add: contact_map_def)

lemma needs_ping_bucket:
  "fst (needs_ping now target rt) = rt\<lparr>buckets := (buckets rt)[bucket_index rt target :=
     (buckets rt ! bucket_index rt target)\<lparr>active := fst (ping_oldest now (active (buckets rt ! bucket_index rt target)))\<rparr>]\<rparr>"
  by (simp add: needs_ping_def Let_def case_prod_beta)

lemma ping_bucket:
  "contacts (b\<lparr>active := fst (ping_oldest now (active b))\<rparr>) = contacts b"
  by (simp add: contacts_def entries_def)

lemma needs_ping_ok:
  assumes "rt_ok rt"
  shows "rt_ok (fst (needs_ping now target rt))"
  unfolding needs_ping_bucket using assms rt_okD [OF assms, of target]
  by (intro rt_ok_put) (simp_all add: bucket_ok_def ping_bucket del: contacts_update)

lemma needs_ping_map:
  assumes "rt_ok rt"
  shows "contact_map (fst (needs_ping now target rt)) = contact_map rt"
  unfolding needs_ping_bucket fun_eq_iff
  by (simp add: contact_map_put [OF assms] ping_bucket del: contacts_update) (simp add: contact_map_def)

lemma ping_oldest_None: "snd (ping_oldest now es) = None \<longleftrightarrow> (\<forall>e \<in> set es. \<not> ping_due now e)"
  by (auto simp: ping_oldest_def filter_empty_conv in_set_conv_nth split: option.splits
      dest!: min_by_key_SomeD intro: bexI [OF _ nth_mem])

lemma ping_oldest_Some:
  assumes "snd (ping_oldest now es) = Some n"
  shows "\<exists>i < length es. n = node_of (es ! i) \<and> ping_due now (es ! i) \<and>
      (\<forall>e \<in> set es. ping_due now e \<longrightarrow> last_seen (es ! i) \<le> last_seen e) \<and>
      fst (ping_oldest now es) = es[i := (es ! i)\<lparr>last_pinged := Some now\<rparr>]"
proof -
  from assms obtain i where i: "min_by_key (\<lambda>i. last_seen (es ! i)) (filter (\<lambda>i. ping_due now (es ! i)) [0..<length es]) = Some i"
    "n = node_of (es ! i)" by (auto simp: ping_oldest_def split: option.splits)
  with min_by_key_SomeD [OF i(1)] show ?thesis
    by (intro exI [of _ i]) (auto simp: ping_oldest_def in_set_conv_nth)
qed

subsection \<open>Eviction\<close>

lemma demote_loop_mset:
  "mset (entries (demote_loop now i b)) \<subseteq># mset (entries b) \<and>
   length (active (demote_loop now i b)) \<le> length (active b) \<and>
   (length (candidates b) \<le> K \<longrightarrow> length (candidates (demote_loop now i b)) \<le> K)"
proof (induction now i b rule: demote_loop.induct)
  case (1 now i b)
  show ?case
  proof (cases "i < length (active b)")
    case i: True
    show ?thesis
    proof (cases "is_stale now (active b ! i)")
      case True
      let ?b = "b\<lparr>active := remove_at i (active b)\<rparr>" and ?stale = "active b ! i"
      let ?b' = "if length (candidates ?b) < K then ?b\<lparr>candidates := candidates ?b @ [?stale]\<rparr> else ?b"
      note IH = "1.IH"(1) [OF i True refl refl]
      have m: "mset (active b) = add_mset ?stale (mset (remove_at i (active b)))"
        using mset_remove_at [OF i] by simp
      have "mset (entries ?b') \<subseteq># mset (entries b)"
        by (simp add: entries_def m)
      moreover have "demote_loop now i b = demote_loop now i ?b'"
        using i True by (subst demote_loop.simps) (simp add: Let_def)
      ultimately show ?thesis using IH i by (auto split: if_splits intro: subset_mset.order_trans)
    next
      case False
      then show ?thesis using "1.IH"(2) [OF i False] i by (subst (1 2 3) demote_loop.simps) simp
    qed
  next
    case False
    then show ?thesis by (simp add: demote_loop.simps)
  qed
qed

lemma promote_loop_mset:
  "mset (entries (promote_loop b)) = mset (entries b) \<and>
   (length (active b) \<le> K \<longrightarrow> length (active (promote_loop b)) \<le> K) \<and>
   length (candidates (promote_loop b)) \<le> length (candidates b) \<and>
   set (active b) \<subseteq> set (active (promote_loop b)) \<and>
   (length (active (promote_loop b)) < K \<longrightarrow> candidates (promote_loop b) = [])"
proof (induction b rule: promote_loop.induct)
  case (1 b)
  show ?case
  proof (cases "length (active b) < K \<and> candidates b \<noteq> []")
    case True
    then obtain i where i: "freshest (candidates b) = Some i" by (cases "freshest (candidates b)") auto
    then have "i < length (candidates b)" by (blast dest: freshest_SomeD)
    from mset_remove_at [OF this] this have "mset (candidates b) = add_mset (candidates b ! i) (mset (remove_at i (candidates b)))"
      "i < length (candidates b)" by simp_all
    moreover have "promote_loop b = promote_loop (b\<lparr>active := active b @ [candidates b ! i],
                candidates := remove_at i (candidates b)\<rparr>)"
      using True i by (subst promote_loop.simps) simp
    ultimately show ?thesis using "1.IH" [OF True i] True by (auto simp: entries_def)
  next
    case False
    then have "promote_loop b = b" by (subst promote_loop.simps) (simp only: if_False)
    with False show ?thesis by auto
  qed
qed

definition fresh_candidates :: "instant \<Rightarrow> bucket \<Rightarrow> entry list" where
  "fresh_candidates now b = filter (\<lambda>e. duration_since now (last_seen e) < STALE_THRESHOLD) (candidates b)"

lemma evict_bucket_mset: "mset (entries (evict_bucket now b)) \<subseteq># mset (entries b)"
proof -
  let ?c = "b\<lparr>candidates := fresh_candidates now b\<rparr>"
  have "mset (entries (evict_bucket now b)) \<subseteq># mset (entries ?c)"
    unfolding evict_bucket_def fresh_candidates_def using promote_loop_mset demote_loop_mset by metis
  also have "mset (entries ?c) \<subseteq># mset (entries b)"
    by (simp add: entries_def fresh_candidates_def multiset_filter_subset)
  finally show ?thesis .
qed

lemma evict_bucket_ok:
  assumes ok: "bucket_ok l i b"
  shows "bucket_ok l i (evict_bucket now b)"
proof (rule bucket_ok_subset [OF ok])
  let ?c = "b\<lparr>candidates := fresh_candidates now b\<rparr>"
  have "length (candidates ?c) \<le> K" using ok
    by (simp add: fresh_candidates_def bucket_ok_def) (meson length_filter_le order_trans)
  then have d: "length (active (demote_loop now 0 ?c)) \<le> K" "length (candidates (demote_loop now 0 ?c)) \<le> K"
    using demote_loop_mset [of now 0 ?c] ok by (auto simp: bucket_ok_def)
  then show "length (active (evict_bucket now b)) \<le> K" "length (candidates (evict_bucket now b)) \<le> K"
    using promote_loop_mset [of "demote_loop now 0 ?c"] by (auto simp: evict_bucket_def fresh_candidates_def)
  show "mset (map fst (contacts (evict_bucket now b))) \<subseteq># mset (map fst (contacts b))"
    using image_mset_subseteq_mono [OF evict_bucket_mset] by (simp add: contacts_def)
qed

lemma evict_stale_ok: "rt_ok rt \<Longrightarrow> rt_ok (evict_stale now rt)"
  by (simp add: rt_ok_def evict_stale_def evict_bucket_ok)


lemma demote_loop_step:
  assumes "i < length (active b)" and "is_stale now (active b ! i)"
  shows "demote_loop now i b = demote_loop now i
    (b\<lparr>active := remove_at i (active b),
       candidates := if length (candidates b) < K then candidates b @ [active b ! i] else candidates b\<rparr>)"
  using assms by (subst demote_loop.simps) (simp add: Let_def)

lemma demote_loop_skip:
  assumes "i < length (active b)" and "\<not> is_stale now (active b ! i)"
  shows "demote_loop now i b = demote_loop now (Suc i) b"
  using assms by (subst demote_loop.simps) simp

lemma demote_loop_keeps:
  "set (filter (\<lambda>e. \<not> is_stale now e) (active b)) \<subseteq> set (active (demote_loop now i b)) \<and>
   set (candidates b) \<subseteq> set (candidates (demote_loop now i b)) \<and>
   (length (entries b) \<le> K \<longrightarrow> mset (entries (demote_loop now i b)) = mset (entries b))"
proof (induction "length (active b) - i" arbitrary: i b rule: less_induct)
  case less
  show ?case
  proof (cases "i < length (active b)")
    case i: True
    show ?thesis
    proof (cases "is_stale now (active b ! i)")
      case True
      let ?b = "b\<lparr>active := remove_at i (active b),
       candidates := if length (candidates b) < K then candidates b @ [active b ! i] else candidates b\<rparr>"
      have IH: "set (filter (\<lambda>e. \<not> is_stale now e) (active ?b)) \<subseteq> set (active (demote_loop now i ?b)) \<and>
         set (candidates ?b) \<subseteq> set (candidates (demote_loop now i ?b)) \<and>
         (length (entries ?b) \<le> K \<longrightarrow> mset (entries (demote_loop now i ?b)) = mset (entries ?b))"
        by (rule less) (use i in simp)
      have m: "mset (active b) = add_mset (active b ! i) (mset (remove_at i (active b)))"
        using mset_remove_at [OF i] by simp
      then have s: "set (active b) = insert (active b ! i) (set (remove_at i (active b)))"
        by (metis set_mset_add_mset_insert set_mset_mset)
      show ?thesis
        unfolding demote_loop_step [OF i True] using IH True i by (auto simp: s m entries_def)
    next
      case False
      show ?thesis unfolding demote_loop_skip [OF i False] by (rule less) (use i in simp)
    qed
  next
    case False
    then show ?thesis by (auto simp: demote_loop.simps)
  qed
qed

lemma evict_bucket_keeps:
  "set (filter (\<lambda>e. \<not> is_stale now e) (active b)) \<subseteq> set (active (evict_bucket now b)) \<and>
   set (fresh_candidates now b) \<subseteq> set (entries (evict_bucket now b)) \<and>
   set (entries (evict_bucket now b)) \<subseteq> set (active b) \<union> set (fresh_candidates now b)"
proof -
  let ?c = "b\<lparr>candidates := fresh_candidates now b\<rparr>"
  let ?d = "demote_loop now 0 ?c"
  have e: "evict_bucket now b = promote_loop ?d" by (simp add: evict_bucket_def fresh_candidates_def)
  note k = demote_loop_keeps [of now ?c 0]
  note p = promote_loop_mset [of ?d]
  have "set (entries (evict_bucket now b)) = set (entries ?d)" using p e by (metis set_mset_mset)
  moreover have "set (entries ?d) \<subseteq> set (entries ?c)" using demote_loop_mset by (metis set_mset_mono set_mset_mset)
  moreover have "set (active ?d) \<subseteq> set (active (evict_bucket now b))" using p e by simp
  ultimately show ?thesis using k by (auto simp: entries_def)
qed

text \<open>A bucket with room keeps every active entry active, stale or not.\<close>

lemma evict_bucket_room:
  assumes "length (active b) + length (fresh_candidates now b) \<le> K"
  shows "mset (active (evict_bucket now b)) = mset (active b @ fresh_candidates now b) \<and>
    candidates (evict_bucket now b) = []"
proof -
  let ?c = "b\<lparr>candidates := fresh_candidates now b\<rparr>"
  let ?r = "promote_loop (demote_loop now 0 ?c)"
  have e: "evict_bucket now b = ?r" by (simp add: evict_bucket_def fresh_candidates_def)
  have m: "mset (entries ?r) = mset (active b @ fresh_candidates now b)"
    using promote_loop_mset [of "demote_loop now 0 ?c"] demote_loop_keeps [of now ?c 0] assms
    by (simp add: entries_def)
  then have "length (active ?r) + length (candidates ?r) \<le> K"
    using assms by (metis entries_def length_append size_mset)
  then have "candidates ?r = []"
    using promote_loop_mset [of "demote_loop now 0 ?c"] by (cases "candidates ?r") auto
  then show ?thesis using m e by (simp add: entries_def)
qed

section \<open>The table as a state machine\<close>

inductive rt_step :: "routing_table \<Rightarrow> routing_table \<Rightarrow> bool" where
  step_add: "rt_step rt (fst (add_node now node addr rt))"
| step_remove: "rt_step rt (remove_node node rt)"
| step_ping: "rt_step rt (fst (needs_ping now target rt))"
| step_evict: "rt_step rt (evict_stale now rt)"

inductive_cases rt_stepE: "rt_step rt rt'"

interpretation table: machine "\<lambda>rt. \<exists>l. rt = routing_new l" rt_step rt_ok
  by unfold_locales
    (auto elim!: rt_stepE intro: routing_new_ok add_node_ok remove_node_ok needs_ping_ok evict_stale_ok)

text \<open>
  C10. The invariant of the routing table: after any sequence of \<open>add_node\<close>, \<open>remove_node\<close>,
  \<open>needs_ping\<close> and \<open>evict_stale\<close> from a new table there are 256 buckets, each with at most
  \<open>K\<close> active and \<open>K\<close> candidate entries, no id twice, every id in the bucket of its distance
  (so no indexing panics), and never the local id.
\<close>

theorem routing_table_invariant:
  assumes "reach (\<lambda>rt. \<exists>l. rt = routing_new l) rt_step rt"
  shows "length (buckets rt) = 256 \<and>
    (\<forall>i < 256. length (active (buckets rt ! i)) \<le> K \<and> length (candidates (buckets rt ! i)) \<le> K \<and>
      distinct (map e_id (entries (buckets rt ! i))) \<and>
      (\<forall>e \<in> set (entries (buckets rt ! i)). e_id e \<noteq> local_id rt \<and> bucket_index rt (e_id e) = i))"
  using table.reach_inv [OF assms] lzb_SomeD
  by (fastforce simp: rt_ok_def bucket_ok_def contacts_def)

definition demo_id :: "u8 \<Rightarrow> node_id" where
  "demo_id b = NodeID (arr_of (replicate 31 0 @ [b]))"

definition demo_addr :: socket_addr where
  "demo_addr = V4 (arr_of [10, 0, 0, 1]) 4000"

theorem routing_table_invariant_witness:
  "length (active (buckets (fst (add_node (Instant 5) (demo_id 1) demo_addr (routing_new (demo_id 0)))) ! 255)) \<le> K"
proof -
  have "reach (\<lambda>rt. \<exists>l. rt = routing_new l) rt_step
      (fst (add_node (Instant 5) (demo_id 1) demo_addr (routing_new (demo_id 0))))"
    by (blast intro: step_add)
  from routing_table_invariant [OF this] show ?thesis by simp
qed


lemma contact_map_evict:
  assumes ok: "rt_ok rt"
  shows "contact_map (evict_stale now rt) \<subseteq>\<^sub>m contact_map rt"
proof (unfold map_le_def, rule ballI)
  fix node
  let ?b = "buckets rt ! bucket_index rt node"
  assume "node \<in> dom (contact_map (evict_stale now rt))"
  then obtain v where v: "map_of (contacts (evict_bucket now ?b)) node = Some v"
    using ok by (auto simp: contact_map_def evict_stale_def rt_ok_def)
  then have "(node, v) \<in> set (contacts (evict_bucket now ?b))" by (rule map_of_SomeD)
  moreover have "set (contacts (evict_bucket now ?b)) \<subseteq> set (contacts ?b)"
    using set_mset_mono [OF evict_bucket_mset] by (auto simp: contacts_def)
  ultimately have "map_of (contacts ?b) node = Some v"
    using rt_okD [OF ok, of node] by (auto simp: bucket_ok_def)
  then show "contact_map (evict_stale now rt) node = contact_map rt node"
    using v ok by (simp add: contact_map_def evict_stale_def rt_ok_def)
qed

text \<open>
  C11. The routing table refines a map from node ids to address and time of last contact:
  \<open>add_node\<close> updates the map (unless the node is the local one, or is new and both lists of its
  bucket are full), \<open>remove_node\<close> deletes, \<open>needs_ping\<close> leaves it alone and \<open>evict_stale\<close> only
  drops nodes.
\<close>

theorem routing_table_refines_map:
  assumes "rt_ok rt"
  shows "contact_map (fst (add_node now node addr rt)) =
      (if node = local_id rt \<or> contact_map rt node = None \<and> \<not> has_room rt node then contact_map rt
       else (contact_map rt)(node \<mapsto> (addr, now))) \<and>
    contact_map (remove_node node rt) = (contact_map rt)(node := None) \<and>
    contact_map (fst (needs_ping now node rt)) = contact_map rt \<and>
    contact_map (evict_stale now rt) \<subseteq>\<^sub>m contact_map rt"
  using assms by (intro conjI add_node_map remove_node_map needs_ping_map contact_map_evict)

theorem routing_table_refines_map_witness:
  "contact_map (remove_node (demo_id 1) (routing_new (demo_id 0))) =
     (contact_map (routing_new (demo_id 0)))(demo_id 1 := None)"
  using routing_table_refines_map [OF routing_new_ok] by blast

definition stale_table :: routing_table where
  "stale_table = (routing_new (demo_id 0))\<lparr>buckets := replicate 255 bucket_new @
     [\<lparr>active = [\<lparr>e_id = demo_id 1, e_addr = demo_addr, last_seen = Instant 5, last_pinged = Some (Instant 6)\<rparr>],
       candidates = []\<rparr>]\<rparr>"

lemma stale_table_255:
  "buckets stale_table ! 255 =
     \<lparr>active = [\<lparr>e_id = demo_id 1, e_addr = demo_addr, last_seen = Instant 5, last_pinged = Some (Instant 6)\<rparr>],
      candidates = []\<rparr>"
  "local_id stale_table = demo_id 0"
  "length (buckets stale_table) = 256"
  by (simp_all add: stale_table_def routing_new_def nth_append)

lemma lzb_demo: "leading_zero_bits (demo_id 0) (demo_id 1) = Some 255"
  by code_simp

lemma stale_table_ok: "rt_ok stale_table"
proof -
  have "buckets stale_table ! i = bucket_new" if "i < 255" for i
    using that by (simp add: stale_table_def nth_append)
  then have "bucket_ok (demo_id 0) i (buckets stale_table ! i)" if "i < 256" for i
    using that by (cases "i = 255", simp_all)
      (simp add: stale_table_255 bucket_ok_def contacts_def entries_def pair_of_def lzb_demo K_def)
  then show ?thesis by (simp add: rt_ok_def stale_table_255)
qed

text \<open>
  What \<open>needs_ping\<close> selects: the active entry of the target's bucket that was seen longest ago
  among those not pinged within the cooldown; it is marked as pinged now, and none is returned only
  when every entry is within its cooldown.
\<close>

theorem needs_ping_selects:
  fixes rt :: routing_table and target :: node_id
  defines "b \<equiv> buckets rt ! bucket_index rt target"
  shows "case needs_ping now target rt of
      (rt', None) \<Rightarrow> \<forall>e \<in> set (active b). \<not> ping_due now e
    | (rt', Some n) \<Rightarrow> \<exists>i < length (active b). n = node_of (active b ! i) \<and> ping_due now (active b ! i) \<and>
        (\<forall>e \<in> set (active b). ping_due now e \<longrightarrow> last_seen (active b ! i) \<le> last_seen e) \<and>
        buckets rt' = (buckets rt)[bucket_index rt target :=
          b\<lparr>active := (active b)[i := (active b ! i)\<lparr>last_pinged := Some now\<rparr>]\<rparr>]"
proof (cases "snd (ping_oldest now (active b))")
  case None
  then show ?thesis using ping_oldest_None [of now "active b"]
    by (simp add: needs_ping_def b_def Let_def case_prod_beta)
next
  case (Some n)
  then show ?thesis using ping_oldest_Some [OF Some]
    by (auto simp: needs_ping_def b_def Let_def case_prod_beta)
qed

theorem needs_ping_selects_witness:
  "snd (needs_ping (Instant (from_secs 500)) (demo_id 1) stale_table) = Some (demo_id 1, demo_addr)"
proof -
  have "bucket_index stale_table (demo_id 1) = 255"
    by (simp add: bucket_index_def stale_table_255 lzb_demo)
  then show ?thesis
    using needs_ping_selects [of stale_table "demo_id 1" "Instant (from_secs 500)"]
    by (auto simp: stale_table_255 ping_due_def duration_since_def from_secs_def PING_COOLDOWN_def
        node_of_def split: prod.splits option.splits)
qed

text \<open>
  Eviction, per bucket: an active entry that is not stale stays active, a candidate seen within
  the threshold stays in the bucket, nothing else comes in, and the active list is filled as far
  as the candidates go.
\<close>

theorem evict_stale_spec:
  fixes now :: instant
  assumes "rt_ok rt" and "i < 256"
  defines "b \<equiv> buckets rt ! i" and "b' \<equiv> buckets (evict_stale now rt) ! i"
  shows "(\<forall>e \<in> set (active b). \<not> is_stale now e \<longrightarrow> e \<in> set (active b')) \<and>
    (\<forall>e \<in> set (candidates b). duration_since now (last_seen e) < STALE_THRESHOLD \<longrightarrow> e \<in> set (entries b')) \<and>
    set (entries b') \<subseteq> set (active b) \<union> set (fresh_candidates now b) \<and>
    (length (active b') < K \<longrightarrow> candidates b' = [])"
proof -
  have b': "b' = evict_bucket now b" using assms by (simp add: b'_def b_def evict_stale_def rt_ok_def)
  have "length (active b') < K \<longrightarrow> candidates b' = []"
    using promote_loop_mset unfolding b' evict_bucket_def by blast
  then show ?thesis using evict_bucket_keeps [of now b] by (auto simp: b' fresh_candidates_def)
qed

lemma stale_table_fresh: "fresh_candidates now (buckets stale_table ! 255) = []"
  by (simp add: fresh_candidates_def stale_table_255)

theorem evict_stale_spec_witness:
  "set (entries (buckets (evict_stale (Instant (from_secs 500)) stale_table) ! 255)) \<subseteq> set (active (buckets stale_table ! 255))"
  using evict_stale_spec [OF stale_table_ok, of 255 "Instant (from_secs 500)"] by (simp add: stale_table_fresh)

text \<open>
  Eviction moves nothing down in a bucket with room: as long as the active entries and the
  candidates that are kept do not exceed \<open>K\<close>, the promotion loop brings every stale entry that was
  just demoted straight back, so a node that never answers stays active.
\<close>

theorem evict_stale_keeps_stale_active:
  assumes "rt_ok rt" and "i < 256"
    and "length (active (buckets rt ! i)) + length (fresh_candidates now (buckets rt ! i)) \<le> K"
  shows "mset (active (buckets (evict_stale now rt) ! i)) =
      mset (active (buckets rt ! i) @ fresh_candidates now (buckets rt ! i)) \<and>
    candidates (buckets (evict_stale now rt) ! i) = []"
  using assms evict_bucket_room by (simp add: evict_stale_def rt_ok_def)

theorem evict_stale_keeps_stale_active_witness:
  "is_stale (Instant (from_secs 500)) (active (buckets stale_table ! 255) ! 0) \<and>
   mset (active (buckets (evict_stale (Instant (from_secs 500)) stale_table) ! 255)) =
     mset (active (buckets stale_table ! 255))"
proof -
  let ?now = "Instant (from_secs 500)"
  have f: "fresh_candidates ?now (buckets stale_table ! 255) = []" by (rule stale_table_fresh)
  then have "length (active (buckets stale_table ! 255)) + length (fresh_candidates ?now (buckets stale_table ! 255)) \<le> K"
    by (simp add: stale_table_255 K_def)
  from evict_stale_keeps_stale_active [OF stale_table_ok _ this] f show ?thesis
    by (simp add: stale_table_255 is_stale_def duration_since_def from_secs_def STALE_THRESHOLD_def)
qed


section \<open>What \<open>closest_nodes\<close> returns\<close>

lemma take_sort_key:
  fixes f :: "'a \<Rightarrow> 'b::linorder"
  shows "sorted (map f (take n (sort_key f xs)))"
    and "mset (take n (sort_key f xs)) \<subseteq># mset xs"
    and "x \<in> set (take n (sort_key f xs)) \<Longrightarrow> y \<in> set xs \<Longrightarrow> y \<notin> set (take n (sort_key f xs)) \<Longrightarrow> f x \<le> f y"
proof -
  let ?s = "sort_key f xs"
  have s: "sorted (map f (take n ?s @ drop n ?s))" by simp
  then show "sorted (map f (take n ?s))" by (simp only: map_append sorted_append)
  have "mset (take n ?s) + mset (drop n ?s) = mset xs"
    by (metis append_take_drop_id mset_append mset_sort)
  then show "mset (take n ?s) \<subseteq># mset xs" by (metis mset_subset_eq_add_left)
  assume x: "x \<in> set (take n ?s)" and y: "y \<in> set xs" "y \<notin> set (take n ?s)"
  have "y \<in> set (take n ?s @ drop n ?s)" using y(1) by (simp only: append_take_drop_id set_sort)
  then have "y \<in> set (drop n ?s)" using y(2) by (simp only: set_append) blast
  then show "f x \<le> f y" using s x by (auto simp only: map_append sorted_append set_map)
qed

text \<open>The buckets from \<open>a\<close> up to \<open>d\<close>, collected.\<close>

definition window :: "bucket list \<Rightarrow> nat \<Rightarrow> nat \<Rightarrow> contact_node list" where
  "window bks a d = concat (map (\<lambda>i. map node_of (active (bks ! i))) [a..<d])"

lemma window_lower: "a < d \<Longrightarrow> window bks a d = map node_of (active (bks ! a)) @ window bks (Suc a) d"
  by (simp add: window_def upt_conv_Cons)

lemma window_upper: "a \<le> d \<Longrightarrow> window bks a (Suc d) = window bks a d @ map node_of (active (bks ! d))"
  by (simp add: window_def)

text \<open>\<open>up\<close> runs one below the window's lower end, and wraps when that is 0.\<close>

lemma wrapped_index:
  assumes "a \<le> 256"
  shows "(of_nat a - 1 :: u64) < 256 \<longleftrightarrow> a \<noteq> 0"
    and "a \<noteq> 0 \<Longrightarrow> unat (of_nat a - 1 :: u64) = a - 1"
proof -
  have e: "(of_nat a - 1 :: u64) = of_nat (a - 1)" if "a \<noteq> 0" using that by (simp add: of_nat_diff)
  have v: "unat (of_nat (a - 1) :: u64) = a - 1"
    using assms by (simp add: unat_of_nat take_bit_nat_eq_self)
  show "unat (of_nat a - 1 :: u64) = a - 1" if "a \<noteq> 0"
    unfolding e [OF that] by (rule v)
  show "(of_nat a - 1 :: u64) < 256 \<longleftrightarrow> a \<noteq> 0"
  proof (cases "a = 0")
    case False
    have "unat (of_nat (a - 1) :: u64) < 256" unfolding v using assms False by linarith
    then show ?thesis unfolding e [OF False] using False by (simp add: word_less_nat_alt del: of_nat_diff)
  qed simp
qed

lemma window_step:
  "a \<le> d \<Longrightarrow> mset out = mset (window bks a d) \<Longrightarrow>
    mset (if d < 256 then out @ map node_of (active (bks ! d)) else out) = mset (window bks a (if d < 256 then d + 1 else d))"
  by (simp add: window_upper)

text \<open>What \<open>k\<close> rounds of the walk around bucket \<open>s\<close> have collected.\<close>

definition visited :: "bucket list \<Rightarrow> nat \<Rightarrow> nat \<Rightarrow> contact_node list" where
  "visited bks s k = window bks (s - k) (min 256 (Suc (s + k)))"

lemma visited_0: "s < 256 \<Longrightarrow> visited bks s 0 = map node_of (active (bks ! s))"
proof -
  assume "s < 256"
  then have "min 256 (Suc s) = Suc s" by (intro min_absorb2) simp
  then show ?thesis unfolding visited_def add_0_right diff_zero by (simp add: window_def)
qed

lemma closest_loop_rounds:
  assumes "s < 256" and "up = of_nat (s - j) - 1" and "mset out = mset (visited bks s j)"
  shows "\<exists>k \<ge> j. mset (closest_loop bks n up (min 256 (Suc (s + j))) out) = mset (visited bks s k) \<and>
    (\<forall>i. j \<le> i \<and> i < k \<longrightarrow> length (visited bks s i) < n) \<and>
    (n \<le> length (visited bks s k) \<or> visited bks s k = window bks 0 256)"
  using assms
proof (induction "256 - j" arbitrary: j up out rule: less_induct)
  case less
  let ?a = "s - j" and ?d = "min 256 (Suc (s + j))"
  have a: "?a \<le> 256" using less.prems(1) by simp
  note w = wrapped_index [OF a]
  have len: "length out = length (visited bks s j)" using less.prems(3) by (rule mset_eq_length)
  show ?case
  proof (cases "(up < 256 \<or> ?d < 256) \<and> length out < n")
    case False
    then have "closest_loop bks n up ?d out = out" by (subst closest_loop.simps) (simp only: if_False)
    moreover have "n \<le> length (visited bks s j) \<or> visited bks s j = window bks 0 256"
      using False w(1) less.prems(2) len by (auto simp: not_less visited_def)
    ultimately show ?thesis using less.prems(3) by (intro exI [of _ j]) auto
  next
    case True
    let ?o1 = "if up < 256 then out @ map node_of (active (bks ! unat up)) else out"
    let ?u = "if up < 256 then up - 1 else up"
    let ?o2 = "if ?d < 256 then ?o1 @ map node_of (active (bks ! ?d)) else ?o1"
    have d: "(if ?d < 256 then ?d + 1 else ?d) = min 256 (Suc (s + Suc j))" by auto
    have "closest_loop bks n up ?d out = closest_loop bks n ?u (if ?d < 256 then ?d + 1 else ?d) ?o2"
      using True by (subst closest_loop.simps) (auto simp: Let_def)
    then have step: "closest_loop bks n up ?d out = closest_loop bks n ?u (min 256 (Suc (s + Suc j))) ?o2" by (simp only: d)
    have u: "?u = of_nat (s - Suc j) - 1"
      using w(1) less.prems(2) by (cases "?a = 0") (simp_all add: of_nat_diff Suc_diff_Suc [symmetric])
    have low: "mset ?o1 = mset (window bks (s - Suc j) ?d)"
    proof (cases "?a = 0")
      case True
      then show ?thesis using w(1) less.prems(2,3) by (simp add: visited_def)
    next
      case False
      then have "s - Suc j < ?d" "Suc (s - Suc j) = ?a" "unat up = s - Suc j" using w(2) less.prems(1,2) by auto
      with window_lower [of "s - Suc j" ?d bks] show ?thesis
        using False w(1) less.prems(2,3) by (simp add: visited_def add.commute)
    qed
    have "s - Suc j \<le> ?d" using less.prems(1) by simp
    from window_step [OF this low]
    have o2: "mset ?o2 = mset (visited bks s (Suc j))" unfolding d visited_def .
    have "256 - Suc j < 256 - j" using True w(1) less.prems(1,2) by auto
    from less.hyps [OF this less.prems(1) u o2] obtain k where k: "Suc j \<le> k"
      "mset (closest_loop bks n ?u (min 256 (Suc (s + Suc j))) ?o2) = mset (visited bks s k)"
      "\<forall>i. Suc j \<le> i \<and> i < k \<longrightarrow> length (visited bks s i) < n"
      "n \<le> length (visited bks s k) \<or> visited bks s k = window bks 0 256" by blast
    have "length (visited bks s i) < n" if "j \<le> i" "i < k" for i
      using that k(3) True len by (cases "i = j") auto
    then show ?thesis using k(1,2,4) unfolding step by (intro exI [of _ k]) auto
  qed
qed


subsection \<open>Distances across buckets\<close>

lemma pow_bracket: "(2::nat) ^ k \<le> a \<Longrightarrow> a < 2 ^ Suc k \<Longrightarrow> drop_bit k a = 1"
  by (simp add: drop_bit_eq_div) (metis One_nat_def Suc_1 div_less_iff_less_mult div_nat_eqI
      mult.commute mult.right_neutral mult_Suc_right power_Suc add.commute mult_2 mult_numeral_1_right numeral_One)

lemma less_pow_iff: "(a::nat) < 2 ^ k \<longleftrightarrow> drop_bit k a = 0"
  by (simp add: drop_bit_eq_div div_eq_0_iff)

lemma less_pow_Suc_iff: "(a::nat) < 2 ^ Suc k \<longleftrightarrow> drop_bit k a < 2"
  by (simp add: drop_bit_eq_div div_less_iff_less_mult)

lemma xor_same_magnitude:
  "(2::nat) ^ k \<le> a \<Longrightarrow> a < 2 ^ Suc k \<Longrightarrow> 2 ^ k \<le> b \<Longrightarrow> b < 2 ^ Suc k \<Longrightarrow> a XOR b < 2 ^ k"
  unfolding less_pow_iff [of "a XOR b"] drop_bit_xor by (simp add: pow_bracket del: power_Suc)

lemma xor_other_magnitude:
  assumes "(a::nat) < 2 ^ k" and "2 ^ k \<le> b" and "b < 2 ^ Suc k"
  shows "2 ^ k \<le> a XOR b" and "a XOR b < 2 ^ Suc k"
proof -
  have "drop_bit k (a XOR b) = 1"
    using assms(1) pow_bracket [OF assms(2,3)] unfolding less_pow_iff by (simp add: drop_bit_xor)
  then show "2 ^ k \<le> a XOR b" "a XOR b < 2 ^ Suc k"
    unfolding less_pow_Suc_iff using less_pow_iff [of "a XOR b" k] by simp_all
qed

lemma dist_val_via: "dist_val t x = dist_val l t XOR dist_val l x"
  by (simp add: dist_val_xor) (metis xor.assoc xor.commute xor.left_neutral xor_self_eq)


lemma lzb_bracket:
  assumes "leading_zero_bits l x = Some j"
  shows "j < 256" "2 ^ (255 - j) \<le> dist_val l x" "dist_val l x < 2 ^ Suc (255 - j)"
proof -
  note b = leading_zero_bits_bounds [OF assms]
  have "256 - j = Suc (255 - j)" using b by linarith
  then show "j < 256" "2 ^ (255 - j) \<le> dist_val l x" "dist_val l x < 2 ^ Suc (255 - j)"
    using b by metis+
qed

lemma dist_own_bucket:
  assumes "leading_zero_bits l t = Some s" and "leading_zero_bits l x = Some s"
  shows "dist_val t x < 2 ^ (255 - s)"
  unfolding dist_val_via [of t x l] by (rule xor_same_magnitude) (use assms lzb_bracket in auto)

lemma dist_other_bucket:
  assumes t: "leading_zero_bits l t = Some s" and x: "leading_zero_bits l x = Some j" and "j \<noteq> s"
  shows "2 ^ (255 - s) \<le> dist_val t x"
proof (cases "s < j")
  case True
  have "255 - j < 255 - s" using lzb_bracket(1) [OF x] True by linarith
  then have "Suc (255 - j) \<le> 255 - s" by simp
  then have "(2::nat) ^ Suc (255 - j) \<le> 2 ^ (255 - s)" by (rule power_increasing) simp
  then have "dist_val l x < 2 ^ (255 - s)" using lzb_bracket(3) [OF x] by linarith
  from xor_other_magnitude(1) [OF this] show ?thesis
    using lzb_bracket [OF t] unfolding dist_val_via [of t x l] by (simp add: xor.commute)
next
  case False
  then have "j < s" using assms by simp
  then have lt: "255 - s < 255 - j" using lzb_bracket(1) [OF t] by linarith
  then have "Suc (255 - s) \<le> 255 - j" by simp
  then have "(2::nat) ^ Suc (255 - s) \<le> 2 ^ (255 - j)" by (rule power_increasing) simp
  then have "dist_val l t < 2 ^ (255 - j)" using lzb_bracket(3) [OF t] by linarith
  from xor_other_magnitude(1) [OF this] have "2 ^ (255 - j) \<le> dist_val t x"
    using lzb_bracket [OF x] unfolding dist_val_via [of t x l] by simp
  moreover have "(2::nat) ^ (255 - s) \<le> 2 ^ (255 - j)" by (rule power_increasing) (use lt in simp_all)
  ultimately show ?thesis by linarith
qed

lemma dist_local_bucket:
  assumes x: "leading_zero_bits l x = Some i" and y: "leading_zero_bits l y = Some j" and "j < i"
  shows "dist_val l x < dist_val l y"
proof -
  have "Suc (255 - i) \<le> 255 - j" using assms(3) lzb_bracket(1) [OF x] by linarith
  then have "(2::nat) ^ Suc (255 - i) \<le> 2 ^ (255 - j)" by (rule power_increasing) simp
  then show ?thesis using lzb_bracket(3) [OF x] lzb_bracket(2) [OF y] by linarith
qed

subsection \<open>The result\<close>

definition active_nodes :: "routing_table \<Rightarrow> contact_node list" where
  "active_nodes rt = window (buckets rt) 0 256"

lemma closest_nodes_window:
  "\<exists>k out. mset out = mset (visited (buckets rt) (bucket_index rt t) k) \<and>
     (\<forall>j < k. length (visited (buckets rt) (bucket_index rt t) j) < n) \<and>
     (n \<le> length (visited (buckets rt) (bucket_index rt t) k) \<or> visited (buckets rt) (bucket_index rt t) k = active_nodes rt) \<and>
     closest_nodes t n rt = take n (sort_key (\<lambda>(i, _). bytes_of (distance t i)) out)"
proof -
  let ?s = "bucket_index rt t"
  let ?o = "map node_of (active (buckets rt ! ?s))"
  have s: "?s < 256" by simp
  then have "mset ?o = mset (visited (buckets rt) ?s 0)" by (simp add: visited_0)
  moreover have "min 256 (Suc ?s) = Suc ?s" using s by (intro min_absorb2) (rule Suc_leI)
  ultimately obtain k where "mset (closest_loop (buckets rt) n (of_nat ?s - 1) (Suc ?s) ?o) = mset (visited (buckets rt) ?s k)"
    "\<forall>i < k. length (visited (buckets rt) ?s i) < n" "n \<le> length (visited (buckets rt) ?s k) \<or> visited (buckets rt) ?s k = active_nodes rt"
    using closest_loop_rounds [where j = 0 and out = ?o and n = n and bks = "buckets rt", OF s refl]
    unfolding diff_zero add_0_right active_nodes_def by auto
  moreover have "closest_nodes t n rt = take n (sort_key (\<lambda>(i, _). bytes_of (distance t i))
      (closest_loop (buckets rt) n (of_nat ?s - 1) (Suc ?s) ?o))"
    by (simp add: closest_nodes_def Let_def)
  ultimately show ?thesis by blast
qed

lemma window_set: "set (window bks a d) = {node_of e |e i. a \<le> i \<and> i < d \<and> e \<in> set (active (bks ! i))}"
  unfolding window_def by (fastforce simp: image_iff)

lemma window_sub: "a \<le> d \<Longrightarrow> d \<le> 256 \<Longrightarrow> mset (window bks a d) \<subseteq># mset (window bks 0 256)"
proof -
  assume "a \<le> d" "d \<le> 256"
  then have "[0..<256] = [0..<a] @ [a..<d] @ [d..<256]"
    using upt_add_eq_append [of 0 a "256 - a"] upt_add_eq_append [of a d "256 - d"] by simp
  then show ?thesis by (simp add: window_def)
qed

lemma active_ok:
  assumes "rt_ok rt" and "i < 256" and "e \<in> set (active (buckets rt ! i))"
  shows "leading_zero_bits (local_id rt) (e_id e) = Some i"
  using assms by (auto simp: rt_ok_def bucket_ok_def contacts_def entries_def)

lemma distinct_active:
  assumes ok: "rt_ok rt" and "d \<le> 256"
  shows "distinct (map fst (window (buckets rt) a d))"
  using assms(2)
proof (induction d)
  case (Suc d)
  show ?case
  proof (cases "a \<le> d")
    case True
    have own: "distinct (map fst (map node_of (active (buckets rt ! d))))"
      using ok Suc.prems by (simp add: rt_ok_def bucket_ok_def contacts_def entries_def comp_def node_of_def)
    have disj: False if "p \<in> set (window (buckets rt) a d)" "q \<in> set (map node_of (active (buckets rt ! d)))" "fst p = fst q" for p q
    proof -
      from that(1) obtain e i where e: "p = node_of e" "i < d" "e \<in> set (active (buckets rt ! i))"
        by (auto simp: window_set)
      from that(2) obtain f where f: "q = node_of f" "f \<in> set (active (buckets rt ! d))" by auto
      have "e_id e = e_id f" using that(3) e f by (simp add: node_of_def)
      moreover have "leading_zero_bits (local_id rt) (e_id e) = Some i"
        using e Suc.prems by (intro active_ok [OF ok]) auto
      moreover have "leading_zero_bits (local_id rt) (e_id f) = Some d"
        using f Suc.prems by (intro active_ok [OF ok]) auto
      ultimately show False using e(2) by simp
    qed
    have "fst ` set (window (buckets rt) a d) \<inter> fst ` set (map node_of (active (buckets rt ! d))) = {}"
      using disj by (auto simp only: image_iff disjoint_iff)
    then show ?thesis using Suc own True by (simp add: window_upper image_image)
  qed (simp add: window_def)
qed (simp add: window_def)


lemma visited_sub: "mset (visited (buckets rt) (bucket_index rt t) k) \<subseteq># mset (active_nodes rt)"
proof -
  have "bucket_index rt t < 256" by simp
  then have "bucket_index rt t - k \<le> min 256 (Suc (bucket_index rt t + k))" by linarith
  then show ?thesis unfolding visited_def active_nodes_def by (rule window_sub) (rule min.cobounded1)
qed

lemma distinct_visited: "rt_ok rt \<Longrightarrow> distinct (map fst (visited (buckets rt) s k))"
  unfolding visited_def by (rule distinct_active [OF _ min.cobounded1])

lemma sorted_dist:
  "sorted (map (\<lambda>(i, _). bytes_of (distance t i)) ns) \<longleftrightarrow> sorted (map (\<lambda>(i, _). dist_val t i) ns)"
  by (induction ns) (auto simp: distance_le_iff)

lemma closest_nodes_facts:
  assumes ok: "rt_ok rt"
  shows "sorted (map (\<lambda>(i, _). dist_val t i) (closest_nodes t n rt)) \<and>
    distinct (map fst (closest_nodes t n rt)) \<and>
    set (closest_nodes t n rt) \<subseteq> set (active_nodes rt) \<and>
    length (closest_nodes t n rt) = min n (length (active_nodes rt))"
proof -
  let ?key = "\<lambda>(i, _). bytes_of (distance t i)"
  let ?v = "visited (buckets rt) (bucket_index rt t)"
  obtain k out where out: "mset out = mset (?v k)" "closest_nodes t n rt = take n (sort_key ?key out)"
    and n: "n \<le> length (?v k) \<or> ?v k = active_nodes rt"
    using closest_nodes_window [of rt t n] by blast
  have sub: "mset out \<subseteq># mset (active_nodes rt)"
    unfolding out(1) by (rule visited_sub)
  have r: "mset (closest_nodes t n rt) \<subseteq># mset out" unfolding out(2) by (rule take_sort_key)
  have "set (closest_nodes t n rt) \<subseteq> set (active_nodes rt)"
    using set_mset_mono [OF subset_mset.order_trans [OF r sub]] by simp
  moreover have "distinct (map fst (closest_nodes t n rt))"
    using distinct_visited [OF ok] r out(1)
    by (metis distinct_subseteq_mset image_mset_subseteq_mono mset_map)
  moreover have "length out = length (?v k)" using out(1) by (rule mset_eq_length)
  then have "length (closest_nodes t n rt) = min n (length (active_nodes rt))"
    using n sub unfolding out(2) by (auto dest!: size_mset_mono)
  moreover have "sorted (map ?key (closest_nodes t n rt))" unfolding out(2) by (rule take_sort_key)
  ultimately show ?thesis unfolding sorted_dist by blast
qed

text \<open>
  \<open>closest_nodes\<close> returns active nodes of the table, none twice, in order of their distance
  to the target, and as many as were asked for if the table has that many.
\<close>

theorem closest_nodes_sorted:
  assumes ok: "rt_ok rt"
  shows "sorted (map (\<lambda>(i, _). dist_val t i) (closest_nodes t n rt)) \<and>
    distinct (map fst (closest_nodes t n rt)) \<and>
    set (closest_nodes t n rt) \<subseteq> set (active_nodes rt) \<and>
    length (closest_nodes t n rt) = min n (length (active_nodes rt))"
  using ok by (rule closest_nodes_facts)

theorem closest_nodes_sorted_witness:
  "length (closest_nodes (demo_id 7) 3 (routing_new (demo_id 0))) = min 3 (length (active_nodes (routing_new (demo_id 0))))"
  using closest_nodes_sorted [OF routing_new_ok] by blast

text \<open>
  An entry of the window is closer to the target than an entry outside: when the target is the local
  node, or when the entry is in the target's own bucket.
\<close>

lemma closer_than_outside:
  assumes ok: "rt_ok rt" and w: "a \<le> bucket_index rt t" "bucket_index rt t < d" "d \<le> 256"
    and e: "a \<le> i" "i < d" "e \<in> set (active (buckets rt ! i))"
    and f: "j < a \<or> d \<le> j" "j < 256" "f \<in> set (active (buckets rt ! j))"
    and own: "t = local_id rt \<or> i = bucket_index rt t"
  shows "dist_val t (e_id e) < dist_val t (e_id f)"
proof -
  have le: "leading_zero_bits (local_id rt) (e_id e) = Some i" using e w(3) by (intro active_ok [OF ok]) auto
  note lf = active_ok [OF ok f(2,3)]
  show ?thesis
  proof (cases "t = local_id rt")
    case True
    then have "bucket_index rt t = 255" by (simp add: bucket_index_def leading_zero_bits_None [THEN iffD2])
    then have "j < i" using f w e by auto
    then show ?thesis using dist_local_bucket [OF le lf] True by simp
  next
    case False
    note lt = lzb_bucket_index [OF False]
    have "j \<noteq> bucket_index rt t" using f(1) w(1,2) by linarith
    then show ?thesis using dist_own_bucket [OF lt] dist_other_bucket [OF lt lf] own False le by fastforce
  qed
qed

text \<open>Ids that are distinct have distinct distances, so that their order by distance is one list.\<close>

lemma dist_inj: "distinct (map fst ns) \<Longrightarrow> inj_on (\<lambda>(i, _). dist_val t i) (set ns)"
  by (auto simp: inj_on_def distinct_map dist_val_inj split_beta)

lemma sort_by_distance:
  assumes "mset out = mset ns" and "distinct (map fst ns)"
  shows "sort_key (\<lambda>(i, _). bytes_of (distance t i)) out = sort_key (\<lambda>(i, _). dist_val t i) ns"
proof (rule sort_key_inj_key_eq [symmetric])
  show "mset ns = mset (sort_key (\<lambda>(i, _). bytes_of (distance t i)) out)" using assms(1) by simp
  show "inj_on (\<lambda>(i, _). dist_val t i) (set ns)" using assms(2) by (rule dist_inj)
  show "sorted (map (\<lambda>(i, _). dist_val t i) (sort_key (\<lambda>(i, _). bytes_of (distance t i)) out))"
    by (rule sorted_dist [THEN iffD1]) (rule sorted_sort_key)
qed

lemma sort_key_append:
  assumes "inj_on f (set (xs @ ys))" and "\<And>x y. x \<in> set xs \<Longrightarrow> y \<in> set ys \<Longrightarrow> f x < (f y :: nat)"
  shows "sort_key f (xs @ ys) = sort_key f xs @ sort_key f ys"
  by (rule sort_key_inj_key_eq) (use assms less_imp_le in \<open>auto simp: sorted_append\<close>)

text \<open>When nothing outside the window is closer than what is inside, the window is as good as the table.\<close>

lemma window_enough:
  assumes ok: "rt_ok rt" and ad: "a \<le> bucket_index rt t" "bucket_index rt t < d" "d \<le> 256"
    and n: "n \<le> length (window (buckets rt) a d)" and own: "t = local_id rt \<or> a = bucket_index rt t \<and> d = Suc a"
  shows "take n (sort_key (\<lambda>(i, _). dist_val t i) (window (buckets rt) a d)) =
    take n (sort_key (\<lambda>(i, _). dist_val t i) (active_nodes rt))"
proof -
  let ?f = "\<lambda>(i, _). dist_val t i" and ?w = "window (buckets rt)"
  let ?rest = "?w 0 a @ ?w d 256"
  have "[0..<256] = [0..<a] @ [a..<d] @ [d..<256]"
    using ad upt_add_eq_append [of 0 a "256 - a"] upt_add_eq_append [of a d "256 - d"] by simp
  then have m: "mset (active_nodes rt) = mset (?w a d @ ?rest)" by (simp add: active_nodes_def window_def)
  have inj: "inj_on ?f (set (active_nodes rt))"
    using distinct_active [OF ok, of 256 0] by (intro dist_inj) (simp add: active_nodes_def)
  then have inj': "inj_on ?f (set (?w a d @ ?rest))" using m by (metis set_mset_mset)
  have less: "?f x < ?f y" if x: "x \<in> set (?w a d)" and y: "y \<in> set ?rest" for x y
  proof -
    obtain e i where e: "x = node_of e" "a \<le> i" "i < d" "e \<in> set (active (buckets rt ! i))" using x by (auto simp: window_set)
    obtain f j where f: "y = node_of f" "j < a \<or> d \<le> j" "j < 256" "f \<in> set (active (buckets rt ! j))"
      using y ad by (auto simp: window_set) fastforce+
    have "t = local_id rt \<or> i = bucket_index rt t" using own e(2,3) by auto
    from closer_than_outside [OF ok ad e(2-4) f(2-4) this] show ?thesis by (simp add: e(1) f(1) node_of_def)
  qed
  have "sort_key ?f (active_nodes rt) = sort_key ?f (?w a d @ ?rest)"
    by (rule sort_key_inj_key_eq) (use m inj in simp_all)
  also have "\<dots> = sort_key ?f (?w a d) @ sort_key ?f ?rest" using inj' less by (rule sort_key_append)
  finally show ?thesis using n by simp
qed

lemma closest_nodes_visits:
  assumes ok: "rt_ok rt"
  obtains k where "closest_nodes t n rt = take n (sort_key (\<lambda>(i, _). dist_val t i) (visited (buckets rt) (bucket_index rt t) k))"
    "\<forall>j < k. length (visited (buckets rt) (bucket_index rt t) j) < n"
    "n \<le> length (visited (buckets rt) (bucket_index rt t) k) \<or> visited (buckets rt) (bucket_index rt t) k = active_nodes rt"
proof -
  obtain k out where "mset out = mset (visited (buckets rt) (bucket_index rt t) k)"
    "closest_nodes t n rt = take n (sort_key (\<lambda>(i, _). bytes_of (distance t i)) out)"
    "\<forall>j < k. length (visited (buckets rt) (bucket_index rt t) j) < n"
    "n \<le> length (visited (buckets rt) (bucket_index rt t) k) \<or> visited (buckets rt) (bucket_index rt t) k = active_nodes rt"
    using closest_nodes_window [of rt t n] by blast
  then show thesis using that sort_by_distance [OF _ distinct_visited [OF ok]] by metis
qed

text \<open>
  C30. What \<open>closest_nodes\<close> returns, exactly: the buckets within the least distance \<open>k\<close> of the target's
  bucket that hold \<open>n\<close> active nodes, or all buckets, are collected, sorted by the distance to the target, and
  the first \<open>n\<close> are returned. These are the \<open>n\<close> closest of the whole table if the target is the local node, or the
  target's own bucket already holds \<open>n\<close> nodes, or the whole table holds at most \<open>n\<close>.
\<close>

theorem closest_nodes_exact:
  assumes "rt_ok rt"
  shows "\<exists>k. closest_nodes t n rt = take n (sort_key (\<lambda>(i, _). dist_val t i) (visited (buckets rt) (bucket_index rt t) k)) \<and>
    (\<forall>j < k. length (visited (buckets rt) (bucket_index rt t) j) < n) \<and>
    (n \<le> length (visited (buckets rt) (bucket_index rt t) k) \<or> visited (buckets rt) (bucket_index rt t) k = active_nodes rt) \<and>
    (t = local_id rt \<or> n \<le> length (active (buckets rt ! bucket_index rt t)) \<or> length (active_nodes rt) \<le> n \<longrightarrow>
       closest_nodes t n rt = take n (sort_key (\<lambda>(i, _). dist_val t i) (active_nodes rt)))"
proof -
  let ?s = "bucket_index rt t" and ?f = "\<lambda>(i, _). dist_val t i"
  let ?v = "visited (buckets rt) ?s"
  obtain k where k: "closest_nodes t n rt = take n (sort_key ?f (?v k))" "\<forall>j < k. length (?v j) < n"
    "n \<le> length (?v k) \<or> ?v k = active_nodes rt" by (rule closest_nodes_visits [OF assms])
  have s: "?s < 256" by simp
  have "take n (sort_key ?f (?v k)) = take n (sort_key ?f (active_nodes rt))"
    if e: "t = local_id rt \<or> n \<le> length (active (buckets rt ! ?s)) \<or> length (active_nodes rt) \<le> n" and n: "n \<le> length (?v k)"
  proof (cases "length (active_nodes rt) \<le> n")
    case True
    have "mset (?v k) = mset (active_nodes rt)"
      using visited_sub [of rt t k] n True by (metis le_trans mset_subset_size not_less size_mset subset_mset.le_imp_less_or_eq)
    then have "sort_key ?f (?v k) = sort_key ?f (active_nodes rt)"
      using sort_by_distance [of "?v k" "?v k" t] sort_by_distance [of "?v k" "active_nodes rt" t] distinct_visited [OF assms]
        distinct_active [OF assms, of 256 0] by (simp add: active_nodes_def)
    then show ?thesis by simp
  next
    case False
    have "k = 0" if "t \<noteq> local_id rt"
    proof (rule ccontr)
      assume "k \<noteq> 0"
      then have "length (?v 0) < n" using k(2) by blast
      then show False using e False that s by (simp add: visited_0)
    qed
    moreover have "min 256 (Suc ?s) = Suc ?s" using s by (intro min_absorb2) (rule Suc_leI)
    ultimately have own: "t = local_id rt \<or> ?s - k = ?s \<and> min 256 (Suc (?s + k)) = Suc (?s - k)"
      by (metis add_0_right diff_zero)
    have "?s - k \<le> ?s" "?s < min 256 (Suc (?s + k))" "min 256 (Suc (?s + k)) \<le> 256" using s by linarith+
    from window_enough [OF assms this _ own] n show ?thesis by (simp add: visited_def)
  qed
  then show ?thesis using k by (intro exI [of _ k]) auto
qed

text \<open>A table with one node in bucket 252 and one in bucket 255.\<close>

definition gap_table :: routing_table where
  "gap_table = fst (add_node (Instant 2) (demo_id 1) demo_addr
     (fst (add_node (Instant 1) (demo_id 8) demo_addr (routing_new (demo_id 0)))))"

lemma gap_table_ok: "rt_ok gap_table"
  unfolding gap_table_def by (intro add_node_ok routing_new_ok)

lemma gap_table_active: "active_nodes gap_table = [(demo_id 8, demo_addr), (demo_id 1, demo_addr)]"
  by code_simp

theorem closest_nodes_exact_witness:
  "closest_nodes (demo_id 0) 1 gap_table = [(demo_id 1, demo_addr)] \<and> length (active_nodes gap_table) = 2"
proof -
  have "local_id gap_table = demo_id 0" by code_simp
  moreover have "dist_val (demo_id 0) (demo_id 1) < dist_val (demo_id 0) (demo_id 8)"
    unfolding distance_less_iff [symmetric] by code_simp
  ultimately show ?thesis
    using closest_nodes_exact [OF gap_table_ok, of "demo_id 0" 1] by (auto simp: gap_table_active)
qed

text \<open>
  In general the answer is not the closest: the walk alternates between the buckets on both
  sides of the target's, although every node past it is closer than every node before it. In a
  table of two nodes, the one node asked for is the farther of the two.
\<close>

theorem closest_nodes_not_closest:
  "rt_ok gap_table \<and>
   closest_nodes (demo_id 4) 1 gap_table = [(demo_id 8, demo_addr)] \<and>
   (demo_id 1, demo_addr) \<in> set (active_nodes gap_table) \<and>
   dist_val (demo_id 4) (demo_id 1) < dist_val (demo_id 4) (demo_id 8)"
proof -
  have i: "bucket_index gap_table (demo_id 4) = 253" by code_simp
  have b: "map node_of (active (buckets gap_table ! 252)) = [(demo_id 8, demo_addr)]"
    "map node_of (active (buckets gap_table ! 253)) = []" "map node_of (active (buckets gap_table ! 254)) = []"
    by code_simp+
  have "closest_loop (buckets gap_table) 1 252 254 [] = [(demo_id 8, demo_addr)]"
    using b by (subst closest_loop.simps) (simp add: closest_loop.simps Let_def)
  then have "closest_nodes (demo_id 4) 1 gap_table = [(demo_id 8, demo_addr)]"
    using b by (simp add: closest_nodes_def i Let_def)
  moreover have "dist_val (demo_id 4) (demo_id 1) < dist_val (demo_id 4) (demo_id 8)"
    unfolding distance_less_iff [symmetric] by code_simp
  ultimately show ?thesis using gap_table_ok by (simp add: gap_table_active)
qed

end
