(* ===== verification/Lookup.thy ===== *)
theory Lookup
  imports Routing
begin

text \<open>
  dht/client.rs: the iterative lookup. Lemmas: which node is queried next; a lookup sends at most
  one query to each id that the routing table or a response names, so it ends; what each
  event (a response, a node skipped) does to it, and what holds of the shortlist when it ends. Two results show where it ends too early.
\<close>

record pending_lookup =
  target :: node_id
  find_value_key :: "32 arr option"
  shortlist :: "contact_node list"
  queried :: "node_id set"
  found_value :: "bytes option"

record dht_client =
  client_id :: node_id
  pending :: "pending_lookup option"

type_synonym query = "(dht_operation \<times> socket_addr) option"

definition next_query :: "pending_lookup \<Rightarrow> pending_lookup \<times> contact_node option" where
  "next_query p =
     (case min_by_key (\<lambda>(i, _). bytes_of (distance (target p) i))
             (filter (\<lambda>(i, _). i \<notin> queried p) (shortlist p)) of
        None \<Rightarrow> (p, None)
      | Some (i, addr) \<Rightarrow> (p\<lparr>queried := insert i (queried p)\<rparr>, Some (i, addr)))"

definition client_new :: "node_id \<Rightarrow> dht_client" where
  "client_new i = \<lparr>client_id = i, pending = None\<rparr>"

definition start_join :: "socket_addr list \<Rightarrow> dht_client \<Rightarrow> dht_client \<times> query" where
  "start_join seeds c =
     (let p = \<lparr>target = client_id c, find_value_key = None,
               shortlist = map (\<lambda>seed. (NodeID zero_arr, seed)) seeds,
               queried = {}, found_value = None\<rparr>;
          (p, nxt) = next_query p;
          c = c\<lparr>pending := Some p\<rparr>
      in case nxt of
           Some (_, addr) \<Rightarrow> (c, Some (FindNode (client_id c) (client_id c), addr))
         | None \<Rightarrow> (c, None))"

definition start_lookup_node :: "node_id \<Rightarrow> routing_table \<Rightarrow> dht_client \<Rightarrow> dht_client \<times> query" where
  "start_lookup_node t rt c =
     (let p = \<lparr>target = t, find_value_key = None, shortlist = closest_nodes t K rt,
               queried = {}, found_value = None\<rparr>;
          (p, nxt) = next_query p;
          c = c\<lparr>pending := Some p\<rparr>
      in case nxt of
           Some (_, addr) \<Rightarrow> (c, Some (FindNode (client_id c) t, addr))
         | None \<Rightarrow> (c, None))"

definition start_find_value :: "32 arr \<Rightarrow> routing_table \<Rightarrow> dht_client \<Rightarrow> dht_client \<times> query" where
  "start_find_value key rt c =
     (let t = NodeID key;
          p = \<lparr>target = t, find_value_key = Some key, shortlist = closest_nodes t K rt,
               queried = {}, found_value = None\<rparr>;
          (p, nxt) = next_query p;
          c = c\<lparr>pending := Some p\<rparr>
      in case nxt of
           Some (_, addr) \<Rightarrow> (c, Some (FindValue (client_id c) key, addr))
         | None \<Rightarrow> (c, None))"

text \<open>The end of \<open>handle_response\<close> and \<open>skip_node\<close>: the next query, or the lookup is done.\<close>

definition continue_lookup :: "pending_lookup \<Rightarrow> dht_client \<Rightarrow> dht_client \<times> query \<times> bool" where
  "continue_lookup p c =
     (let (p, nxt) = next_query p
      in case nxt of
           Some (_, addr) \<Rightarrow>
             (c\<lparr>pending := Some p\<rparr>,
              Some (case find_value_key p of
                      Some key \<Rightarrow> FindValue (client_id c) key
                    | None \<Rightarrow> FindNode (client_id c) (target p), addr),
              False)
         | None \<Rightarrow> (c\<lparr>pending := Some p\<rparr>, None, True))"

definition add_nodes :: "instant \<Rightarrow> contact_node list \<Rightarrow> routing_table \<Rightarrow> routing_table" where
  "add_nodes now ns rt = fold (\<lambda>(i, addr) rt. fst (add_node now i addr rt)) ns rt"

definition resort :: "pending_lookup \<Rightarrow> pending_lookup" where
  "resort p = p\<lparr>shortlist := take K (sort_key (\<lambda>(i, _). bytes_of (distance (target p) i)) (shortlist p))\<rparr>"

definition handle_response ::
    "instant \<Rightarrow> dht_operation \<Rightarrow> dht_client \<times> routing_table \<Rightarrow> (dht_client \<times> routing_table) \<times> query \<times> bool" where
  "handle_response now op s =
     (case s of (c, rt) \<Rightarrow>
      case pending c of
        None \<Rightarrow> ((c, rt), None, True)
      | Some p \<Rightarrow>
          (let c = c\<lparr>pending := None\<rparr> in
           case op of
             Nodes _ ns \<Rightarrow>
               (let (c, out) = continue_lookup (resort (p\<lparr>shortlist := shortlist p @ ns\<rparr>)) c
                in ((c, add_nodes now ns rt), out))
           | Value _ _ v ns \<Rightarrow>
               (let p = p\<lparr>shortlist := shortlist p @ ns\<rparr>; rt = add_nodes now ns rt in
                if v \<noteq> None then ((c\<lparr>pending := Some (p\<lparr>found_value := v\<rparr>)\<rparr>, rt), None, True)
                else let (c, out) = continue_lookup (resort p) c in ((c, rt), out))
           | _ \<Rightarrow> (let (c, out) = continue_lookup (resort p) c in ((c, rt), out))))"

definition skip_node :: "dht_client \<Rightarrow> dht_client \<times> query \<times> bool" where
  "skip_node c =
     (case pending c of
        None \<Rightarrow> (c, None, True)
      | Some p \<Rightarrow> continue_lookup p (c\<lparr>pending := None\<rparr>))"

definition lookup_result :: "dht_client \<Rightarrow> pending_lookup option" where
  "lookup_result c = pending c"

section \<open>The next query\<close>

definition ids_of :: "contact_node list \<Rightarrow> node_id set" where
  "ids_of ns = fst ` set ns"

lemma in_ids_of: "i \<in> ids_of ns \<longleftrightarrow> (\<exists>a. (i, a) \<in> set ns)"
  by (force simp: ids_of_def)

lemma next_query_None: "snd (next_query p) = None \<longleftrightarrow> ids_of (shortlist p) \<subseteq> queried p"
proof -
  have "snd (next_query p) = None \<longleftrightarrow> filter (\<lambda>(i, _). i \<notin> queried p) (shortlist p) = []"
    by (auto simp: next_query_def split: option.splits)
  then show ?thesis by (auto simp: filter_empty_conv subset_iff in_ids_of)
qed

lemma next_query_None_same: "snd (next_query p) = None \<Longrightarrow> fst (next_query p) = p"
  by (auto simp: next_query_def split: option.splits)

lemma next_query_Some:
  assumes "snd (next_query p) = Some (i, addr)"
  shows "(i, addr) \<in> set (shortlist p)" "i \<notin> queried p"
    "\<forall>(j, _) \<in> set (shortlist p). j \<in> queried p \<or> dist_val (target p) i \<le> dist_val (target p) j"
    "fst (next_query p) = p\<lparr>queried := insert i (queried p)\<rparr>"
proof -
  from assms have m: "min_by_key (\<lambda>(i, _). bytes_of (distance (target p) i))
      (filter (\<lambda>(i, _). i \<notin> queried p) (shortlist p)) = Some (i, addr)"
    and "fst (next_query p) = p\<lparr>queried := insert i (queried p)\<rparr>"
    by (auto simp: next_query_def split: option.splits)
  with min_by_key_SomeD [OF m] show "(i, addr) \<in> set (shortlist p)" "i \<notin> queried p"
    "\<forall>(j, _) \<in> set (shortlist p). j \<in> queried p \<or> dist_val (target p) i \<le> dist_val (target p) j"
    "fst (next_query p) = p\<lparr>queried := insert i (queried p)\<rparr>"
    by (auto simp: distance_le_iff)
qed

text \<open>
  The next query goes to a node of the shortlist that has not been queried and is closest to
  the target among those, and the node is marked; there is none only when the whole shortlist has
  been queried.
\<close>

theorem next_query_spec:
  "case next_query p of
     (p', None) \<Rightarrow> p' = p \<and> ids_of (shortlist p) \<subseteq> queried p
   | (p', Some (i, addr)) \<Rightarrow>
       p' = p\<lparr>queried := insert i (queried p)\<rparr> \<and> (i, addr) \<in> set (shortlist p) \<and> i \<notin> queried p \<and>
       (\<forall>(j, _) \<in> set (shortlist p). j \<in> queried p \<or> dist_val (target p) i \<le> dist_val (target p) j)"
proof (cases "snd (next_query p)")
  case None
  with next_query_None [of p] next_query_None_same [OF None] show ?thesis
    by (cases "next_query p") simp
next
  case (Some n)
  obtain i a where n: "n = (i, a)" by (cases n)
  from next_query_Some [OF Some [unfolded n]] Some n show ?thesis by (cases "next_query p") simp
qed

theorem next_query_spec_witness:
  "snd (next_query \<lparr>target = demo_id 0, find_value_key = None, shortlist = [(demo_id 1, demo_addr)],
      queried = {}, found_value = None\<rparr>) \<noteq> None"
  using next_query_spec [of "\<lparr>target = demo_id 0, find_value_key = None, shortlist = [(demo_id 1, demo_addr)],
      queried = {}, found_value = None\<rparr>"]
  by (auto simp: ids_of_def split: prod.splits option.splits)

section \<open>A lookup ends\<close>

text \<open>What can happen to a lookup: a response arrives, or the queried node is given up.\<close>

datatype event = Response instant dht_operation | Skip

definition lookup_event :: "event \<Rightarrow> dht_client \<times> routing_table \<Rightarrow> (dht_client \<times> routing_table) \<times> query \<times> bool" where
  "lookup_event e s =
     (case e of
        Response now op \<Rightarrow> handle_response now op s
      | Skip \<Rightarrow> (let (c, out) = skip_node (fst s) in ((c, snd s), out)))"

fun run_lookup :: "event list \<Rightarrow> dht_client \<times> routing_table \<Rightarrow> (dht_client \<times> routing_table) \<times> nat" where
  "run_lookup [] s = (s, 0)"
| "run_lookup (e # es) s =
     (let (s, q, _) = lookup_event e s; (s, n) = run_lookup es s
      in (s, if q = None then n else Suc n))"

fun named_ids :: "event \<Rightarrow> node_id set" where
  "named_ids (Response now (Nodes s ns)) = ids_of ns"
| "named_ids (Response now (Value s k v ns)) = ids_of ns"
| "named_ids e = {}"

definition asked :: "dht_client \<Rightarrow> node_id set" where
  "asked c = (case pending c of None \<Rightarrow> {} | Some p \<Rightarrow> queried p)"

definition listed :: "dht_client \<Rightarrow> node_id set" where
  "listed c = (case pending c of None \<Rightarrow> {} | Some p \<Rightarrow> ids_of (shortlist p))"

lemma resort_simps [simp]:
  "queried (resort p) = queried p" "target (resort p) = target p" "find_value_key (resort p) = find_value_key p"
  "found_value (resort p) = found_value p"
  by (simp_all add: resort_def)

lemma ids_resort: "ids_of (shortlist (resort p)) \<subseteq> ids_of (shortlist p)"
proof -
  have "set (shortlist (resort p)) \<subseteq> set (shortlist p)"
    unfolding resort_def using set_take_subset by fastforce
  then show ?thesis unfolding ids_of_def by (rule image_mono)
qed

lemma ids_append [simp]: "ids_of (xs @ ys) = ids_of xs \<union> ids_of ys"
  by (simp add: ids_of_def image_Un)

text \<open>A query marks one more id of the shortlist; without a query nothing is marked.\<close>

lemma continue_lookup_counts:
  assumes "continue_lookup p c = (c', q, fin)"
  shows "listed c' = ids_of (shortlist p)"
    "q = None \<Longrightarrow> asked c' = queried p \<and> fin \<and> listed c' \<subseteq> asked c'"
    "q \<noteq> None \<Longrightarrow> \<not> fin \<and> (\<exists>i \<in> listed c'. i \<notin> queried p \<and> asked c' = insert i (queried p))"
proof -
  have "listed c' = ids_of (shortlist p) \<and>
    (if q = None then asked c' = queried p \<and> fin \<and> listed c' \<subseteq> asked c'
     else \<not> fin \<and> (\<exists>i \<in> listed c'. i \<notin> queried p \<and> asked c' = insert i (queried p)))"
  proof (cases "snd (next_query p)")
    case None
    then show ?thesis using assms next_query_None_same [OF None] next_query_None [of p]
      by (auto simp: continue_lookup_def case_prod_beta asked_def listed_def)
  next
    case (Some n)
    obtain i a where n: "n = (i, a)" by (cases n)
    note nq = next_query_Some [OF Some [unfolded n]]
    have "i \<in> ids_of (shortlist p)" using nq(1) in_ids_of by blast
    with nq(2,4) show ?thesis using assms Some n
      by (auto simp: continue_lookup_def case_prod_beta asked_def listed_def)
  qed
  then show "listed c' = ids_of (shortlist p)"
    "q = None \<Longrightarrow> asked c' = queried p \<and> fin \<and> listed c' \<subseteq> asked c'"
    "q \<noteq> None \<Longrightarrow> \<not> fin \<and> (\<exists>i \<in> listed c'. i \<notin> queried p \<and> asked c' = insert i (queried p))"
    by auto
qed

text \<open>One event: the ids on the shortlist are old or named, and a query adds one of them.\<close>

definition progress :: "node_id set \<Rightarrow> node_id set \<Rightarrow> dht_client \<Rightarrow> query \<Rightarrow> bool" where
  "progress A L c' q \<longleftrightarrow> listed c' \<subseteq> L \<and>
     (if q = None then asked c' = A else (\<exists>i \<in> L. i \<notin> A \<and> asked c' = insert i A))"

lemma continue_progress:
  assumes "continue_lookup p c = (c', q, fin)" and "queried p = A" and "ids_of (shortlist p) \<subseteq> L"
  shows "progress A L c' q"
  using continue_lookup_counts [OF assms(1)] assms(2,3) by (auto simp: progress_def)

lemma lookup_event_progress:
  assumes "lookup_event e (c, rt) = ((c', rt'), q, fin)"
  shows "progress (asked c) (listed c \<union> named_ids e) c' q"
proof (cases "pending c")
  case None
  then show ?thesis
    using assms by (auto simp: lookup_event_def handle_response_def skip_node_def progress_def
      asked_def listed_def split: event.splits)
next
  case (Some p)
  then have a: "asked c = queried p" and l: "listed c = ids_of (shortlist p)"
    by (simp_all add: asked_def listed_def)
  show ?thesis
  proof (cases e)
    case Skip
    then show ?thesis using assms Some a l
      by (auto simp: lookup_event_def skip_node_def Let_def split: prod.splits intro!: continue_progress)
  next
    case (Response now op)
    have r: "progress (queried p) (ids_of (shortlist p) \<union> ids_of ns) c' q"
      if "continue_lookup (resort (p\<lparr>shortlist := shortlist p @ ns\<rparr>)) c1 = (c', q, fin)" for ns c1
      using continue_progress [OF that] ids_resort [of "p\<lparr>shortlist := shortlist p @ ns\<rparr>"] by simp
    from r [of "[]"] have r0: "progress (queried p) (ids_of (shortlist p)) c' q"
      if "continue_lookup (resort p) c1 = (c', q, fin)" for c1 using that by (simp add: ids_of_def)
    show ?thesis
      using assms Some Response a l r r0
      by (cases op) (auto simp: lookup_event_def handle_response_def Let_def progress_def
          asked_def listed_def split: prod.splits if_splits)
  qed
qed


lemma run_lookup_counts:
  "run_lookup es (c, rt) = ((c', rt'), n) \<Longrightarrow>
     finite L \<Longrightarrow> listed c \<union> (\<Union>e \<in> set es. named_ids e) \<subseteq> L \<Longrightarrow>
     asked c \<subseteq> asked c' \<and> asked c' - asked c \<subseteq> L \<and> n = card (asked c' - asked c)"
proof (induction es arbitrary: c rt n)
  case (Cons e es)
  obtain c1 rt1 q fin where e: "lookup_event e (c, rt) = ((c1, rt1), q, fin)" by (metis prod.exhaust)
  obtain m where m: "run_lookup es (c1, rt1) = ((c', rt'), m)" and n: "n = (if q = None then m else Suc m)"
    using Cons.prems(1) e by (auto simp: Let_def split: prod.splits)
  from lookup_event_progress [OF e] have pr: "progress (asked c) (listed c \<union> named_ids e) c1 q" .
  then have "listed c1 \<union> (\<Union>e \<in> set es. named_ids e) \<subseteq> L"
    using Cons.prems(3) by (auto simp: progress_def)
  from Cons.IH [OF m Cons.prems(2) this] have IH: "asked c1 \<subseteq> asked c'" "asked c' - asked c1 \<subseteq> L" "m = card (asked c' - asked c1)"
    by auto
  show ?case
  proof (cases "q = None")
    case True
    then show ?thesis using IH pr n by (auto simp: progress_def)
  next
    case False
    then obtain i where i: "i \<in> L" "i \<notin> asked c" "asked c1 = insert i (asked c)"
      using pr Cons.prems(3) unfolding progress_def if_not_P [OF False] by auto
    then have d: "asked c' - asked c = insert i (asked c' - asked c1)" using IH(1) by auto
    have "finite (asked c' - asked c1)" using IH(2) Cons.prems(2) finite_subset by blast
    then have "card (asked c' - asked c) = Suc m" unfolding d using IH(3) i by simp
    moreover have "asked c \<subseteq> asked c'" using IH(1) i(3) by blast
    moreover have "asked c' - asked c \<subseteq> L" unfolding d using IH(2) i(1) by blast
    ultimately show ?thesis using n False by simp
  qed
qed simp

text \<open>
  A lookup ends: whatever responses arrive and in whatever order, and however often nodes are
  given up, the number of queries sent is at most the number of ids on the shortlist at the start
  and in the responses, because no id is queried twice.
\<close>

theorem lookup_terminates:
  assumes "run_lookup es (c, rt) = ((c', rt'), n)"
  shows "n = card (asked c' - asked c) \<and> n \<le> card (listed c \<union> (\<Union>e \<in> set es. named_ids e))"
proof -
  let ?L = "listed c \<union> (\<Union>e \<in> set es. named_ids e)"
  have "finite (named_ids e)" for e
    by (induction e rule: named_ids.induct) (simp_all add: ids_of_def)
  then have fin: "finite ?L" by (auto simp: listed_def ids_of_def split: option.splits)
  from run_lookup_counts [OF assms fin order_refl] show ?thesis by (auto intro: card_mono [OF fin])
qed

definition demo_client :: dht_client where
  "demo_client = fst (start_join [demo_addr] (client_new (demo_id 5)))"

theorem lookup_terminates_witness:
  "snd (run_lookup [Skip, Skip] (demo_client, routing_new (demo_id 5))) \<le> 1"
proof -
  obtain c' rt' n where r: "run_lookup [Skip, Skip] (demo_client, routing_new (demo_id 5)) = ((c', rt'), n)"
    by (metis prod.exhaust)
  have "listed demo_client = {NodeID zero_arr}"
    by (simp add: demo_client_def start_join_def client_new_def listed_def next_query_def Let_def ids_of_def)
  then show ?thesis using lookup_terminates [OF r] r by simp
qed

section \<open>One event of a lookup, exactly\<close>

text \<open>What an event brings: a value, and nodes, with which the shortlist is merged and cut to the closest.\<close>

fun value_in :: "event \<Rightarrow> bytes option" where
  "value_in (Response now (Value s k v ns)) = v"
| "value_in e = None"

fun nodes_in :: "event \<Rightarrow> contact_node list" where
  "nodes_in (Response now (Nodes s ns)) = ns"
| "nodes_in (Response now (Value s k v ns)) = ns"
| "nodes_in e = []"

definition merged :: "event \<Rightarrow> pending_lookup \<Rightarrow> contact_node list" where
  "merged e p = (case e of
     Skip \<Rightarrow> shortlist p
   | Response _ _ \<Rightarrow> take K (sort_key (\<lambda>(i, _). bytes_of (distance (target p) i)) (shortlist p @ nodes_in e)))"

lemma resort_merged: "resort (p\<lparr>shortlist := shortlist p @ nodes_in (Response now op)\<rparr>) = p\<lparr>shortlist := merged (Response now op) p\<rparr>"
  by (simp add: resort_def merged_def)

text \<open>What the lookup \<open>p\<close> does next: it is over, or the closest node that was not asked is asked.\<close>

definition asks_next :: "pending_lookup \<Rightarrow> dht_client \<Rightarrow> dht_client \<times> query \<times> bool \<Rightarrow> bool" where
  "asks_next p c = (\<lambda>(c', q, fin).
     if ids_of (shortlist p) \<subseteq> queried p then fin \<and> q = None \<and> c' = c\<lparr>pending := Some p\<rparr>
     else \<not> fin \<and> (\<exists>(i, a) \<in> set (shortlist p). i \<notin> queried p \<and>
       (\<forall>(j, _) \<in> set (shortlist p). j \<in> queried p \<or> dist_val (target p) i \<le> dist_val (target p) j) \<and>
       q = Some (case find_value_key p of Some key \<Rightarrow> FindValue (client_id c) key | None \<Rightarrow> FindNode (client_id c) (target p), a) \<and>
       c' = c\<lparr>pending := Some (p\<lparr>queried := insert i (queried p)\<rparr>)\<rparr>))"

lemma continue_asks_next: "asks_next p c (continue_lookup p (c\<lparr>pending := old\<rparr>))"
proof (cases "snd (next_query p)")
  case None
  then show ?thesis using next_query_None_same [OF None] next_query_None [of p]
    by (auto simp: asks_next_def continue_lookup_def case_prod_beta)
next
  case (Some n)
  obtain i a where n: "n = (i, a)" by (cases n)
  note nq = next_query_Some [OF Some [unfolded n]]
  have "\<not> ids_of (shortlist p) \<subseteq> queried p" using next_query_None [of p] Some by simp
  then show ?thesis using nq Some n
    by (cases "find_value_key p") (auto simp: asks_next_def continue_lookup_def case_prod_beta intro!: bexI [OF _ nq(1)])
qed

text \<open>
  C31. What one event does to a lookup, exactly, and so what holds when it ends. A response with a value
  ends it, and the value is its result. Any other response merges the nodes that it names into the shortlist, sorted by
  their distance to the target and cut to \<open>K\<close>; giving a node up leaves the shortlist as it is. Then, in both cases, the
  lookup ends if every id on the shortlist was asked, and only then: otherwise the closest node with an id that was
  not asked is asked, and its id is marked. (The seeds of a join share one id: only the first is asked.)
  The routing table is offered the nodes named.
\<close>

theorem lookup_end_state:
  assumes "lookup_event e (c, rt) = ((c', rt'), q, fin)" and "pending c = Some p"
  shows "(case value_in e of
      Some v \<Rightarrow> fin \<and> q = None \<and> c' = c\<lparr>pending := Some (p\<lparr>shortlist := shortlist p @ nodes_in e, found_value := Some v\<rparr>)\<rparr>
    | None \<Rightarrow> asks_next (p\<lparr>shortlist := merged e p\<rparr>) c (c', q, fin)) \<and>
    rt' = (case e of Response now _ \<Rightarrow> add_nodes now (nodes_in e) rt | Skip \<Rightarrow> rt)"
proof (cases e)
  case Skip
  have "p\<lparr>shortlist := merged Skip p\<rparr> = p" by (simp add: merged_def)
  then show ?thesis using assms continue_asks_next [of p c None] Skip
    by (auto simp: lookup_event_def skip_node_def Let_def split: prod.splits)
next
  case (Response now op)
  have none: "p\<lparr>shortlist := shortlist p @ []\<rparr> = p" by simp
  have go: "asks_next (p\<lparr>shortlist := merged e p\<rparr>) c (c', q, fin)"
    if "continue_lookup (resort (p\<lparr>shortlist := shortlist p @ nodes_in e\<rparr>)) (c\<lparr>pending := None\<rparr>) = (c', q, fin)"
    using continue_asks_next [of "p\<lparr>shortlist := merged e p\<rparr>" c None] that unfolding Response resort_merged by simp
  show ?thesis
    using assms go none
    by (cases op) (auto simp: Response lookup_event_def handle_response_def add_nodes_def Let_def split: prod.splits if_splits)
qed

theorem lookup_end_state_witness:
  "\<exists>c'. lookup_event Skip (demo_client, routing_new (demo_id 5)) = ((c', routing_new (demo_id 5)), None, True) \<and>
     lookup_result c' = lookup_result demo_client \<and> listed c' \<subseteq> asked c'"
proof -
  let ?p = "\<lparr>target = demo_id 5, find_value_key = None, shortlist = [(NodeID zero_arr, demo_addr)],
      queried = {NodeID zero_arr}, found_value = None\<rparr>"
  have p: "pending demo_client = Some ?p"
    by (simp add: demo_client_def start_join_def client_new_def next_query_def Let_def)
  obtain c' rt' q fin where e: "lookup_event Skip (demo_client, routing_new (demo_id 5)) = ((c', rt'), q, fin)"
    by (metis prod.exhaust)
  have "rt' = routing_new (demo_id 5)" "fin" "q = None" "c' = demo_client\<lparr>pending := Some ?p\<rparr>"
    using lookup_end_state [OF e p] by (simp_all add: asks_next_def merged_def ids_of_def)
  then show ?thesis using e p by (simp add: lookup_result_def listed_def asked_def ids_of_def)
qed

section \<open>Where a lookup stops too early\<close>

lemma min_by_key_first: "\<forall>y \<in> set xs. f x \<le> f y \<Longrightarrow> min_by_key f (x # xs) = Some x"
  by (auto split: option.splits dest: min_by_key_SomeD)

text \<open>
  All seeds of a join share the all-zero id: the first one is queried, and then there is no
  other seed to fall back to, as giving it up ends the join although the others were never asked.
\<close>

theorem start_join_one_seed:
  "\<exists>c'. start_join (seed # seeds) c = (c', Some (FindNode (client_id c) (client_id c), seed)) \<and>
     skip_node c' = (c', None, True)"
proof -
  let ?z = "NodeID zero_arr"
  let ?p = "\<lparr>target = client_id c, find_value_key = None, shortlist = map (Pair ?z) (seed # seeds),
      queried = {}, found_value = None\<rparr>"
  let ?q = "?p\<lparr>queried := {?z}\<rparr>"
  have "filter (\<lambda>(i, _). i \<notin> queried ?p) (shortlist ?p) = (?z, seed) # map (Pair ?z) seeds"
    by (simp add: filter_id_conv)
  moreover have "min_by_key (\<lambda>(i, _). bytes_of (distance (target ?p) i)) ((?z, seed) # map (Pair ?z) seeds) = Some (?z, seed)"
    by (rule min_by_key_first) auto
  ultimately have nq: "next_query ?p = (?q, Some (?z, seed))"
    by (simp only: next_query_def) simp
  have "ids_of (shortlist ?q) \<subseteq> queried ?q" by (auto simp: ids_of_def)
  then have n: "next_query ?q = (?q, None)"
    using next_query_None [of ?q] next_query_None_same [of ?q] by (metis prod.collapse)
  have "start_join (seed # seeds) c = (c\<lparr>pending := Some ?q\<rparr>, Some (FindNode (client_id c) (client_id c), seed))"
    unfolding start_join_def Let_def nq by simp
  moreover have "skip_node (c\<lparr>pending := Some ?q\<rparr>) = (c\<lparr>pending := Some ?q\<rparr>, None, True)"
    unfolding skip_node_def continue_lookup_def Let_def using n by simp
  ultimately show ?thesis by blast
qed

lemma sort_key_crowd:
  fixes f :: "'a \<Rightarrow> 'b::linorder"
  assumes "\<forall>x \<in> set xs. f n < f x"
  shows "sort_key f (xs @ replicate k n) = replicate k n @ sort_key f xs"
proof (rule properties_for_sort_key)
  show "mset (replicate k n @ sort_key f xs) = mset (xs @ replicate k n)" by simp
  show "sorted (map f (replicate k n @ sort_key f xs))"
    using assms by (auto simp: sorted_append intro: less_imp_le)
  fix y
  assume "y \<in> set (replicate k n @ sort_key f xs)"
  then consider "y = n" | "y \<in> set xs" by (auto split: if_splits)
  then show "filter (\<lambda>x. f y = f x) (replicate k n @ sort_key f xs) = filter (\<lambda>x. f y = f x) (xs @ replicate k n)"
  proof cases
    case 1
    then have "filter (\<lambda>x. f y = f x) (sort_key f xs) = []" "filter (\<lambda>x. f y = f x) xs = []"
      using assms by (fastforce simp: filter_empty_conv)+
    then show ?thesis by simp
  next
    case 2
    then have "f n \<noteq> f y" using assms by auto
    moreover have "filter (\<lambda>x. f y = f x) (sort_key f xs) = filter (\<lambda>x. f y = f x) xs"
      using sort_key_stable [of f "f y" xs] by (simp add: eq_commute)
    ultimately show ?thesis by simp
  qed
qed

text \<open>
  Responses are appended to the shortlist without removing duplicates: one response that
  names the closest node \<open>K\<close> times fills the shortlist with it, so that once it has been queried the
  lookup ends with every other node dropped, queried or not.
\<close>

theorem shortlist_crowded_out:
  assumes "pending c = Some p" and "i \<in> queried p"
    and "\<forall>(j, _) \<in> set (shortlist p). dist_val (target p) i < dist_val (target p) j"
  shows "\<exists>c' rt'. handle_response now (Nodes s (replicate K (i, addr))) (c, rt) = ((c', rt'), None, True) \<and>
    (\<exists>p'. pending c' = Some p' \<and> shortlist p' = replicate K (i, addr))"
proof -
  let ?r = "resort (p\<lparr>shortlist := shortlist p @ replicate K (i, addr)\<rparr>)"
  have sl: "shortlist ?r = replicate K (i, addr)"
  proof -
    have "\<forall>x \<in> set (shortlist p). (\<lambda>(i, _). bytes_of (distance (target p) i)) (i, addr) <
        (\<lambda>(i, _). bytes_of (distance (target p) i)) x"
      using assms(3) by (auto simp: distance_less_iff)
    from sort_key_crowd [OF this] show ?thesis by (simp add: resort_def)
  qed
  then have "ids_of (shortlist ?r) \<subseteq> queried ?r" using assms(2) by (auto simp: ids_of_def)
  then have n: "next_query ?r = (?r, None)"
    using next_query_None [of ?r] next_query_None_same [of ?r] by (metis prod.collapse)
  show ?thesis using sl
    by (auto simp: handle_response_def assms(1) Let_def continue_lookup_def n split: prod.splits)
qed

theorem shortlist_crowded_out_witness:
  "\<exists>c' rt'. handle_response (Instant 1) (Nodes (demo_id 3) (replicate K (demo_id 4, demo_addr)))
      (\<lparr>client_id = demo_id 0, pending = Some \<lparr>target = demo_id 5, find_value_key = None,
          shortlist = [(demo_id 1, demo_addr)], queried = {demo_id 4}, found_value = None\<rparr>\<rparr>,
       routing_new (demo_id 0)) = ((c', rt'), None, True)"
proof -
  let ?p = "\<lparr>target = demo_id 5, find_value_key = None,
          shortlist = [(demo_id 1, demo_addr)], queried = {demo_id 4}, found_value = None\<rparr>"
  let ?c = "\<lparr>client_id = demo_id 0, pending = Some ?p\<rparr>"
  have "dist_val (demo_id 5) (demo_id 4) < dist_val (demo_id 5) (demo_id 1)"
    unfolding distance_less_iff [symmetric] by code_simp
  then show ?thesis
    using shortlist_crowded_out [of ?c ?p "demo_id 4" "Instant 1" "demo_id 3" demo_addr "routing_new (demo_id 0)"]
    by auto
qed

end
