(* ===== verification/DhtServer.thy ===== *)
theory DhtServer
  imports Lookup Packets
begin

text \<open>
  dht/node.rs: the server side of the DHT. Lemmas: which reply each operation gets and what the node learns from it, that the
  routing table's invariant is kept, that a stored value is found until it expires and not after,
  and which packets panic. The handler reads the clock once, at \<open>now\<close>; adding a 32-bit number of
  seconds to an instant does not overflow.
\<close>

record dht_node =
  node_id_of :: node_id
  node_addr :: socket_addr
  dht_store :: "(32 arr, bytes \<times> instant) hash_map"

definition dht_node_new :: "node_id \<Rightarrow> socket_addr \<Rightarrow> dht_node" where
  "dht_node_new i addr = \<lparr>node_id_of = i, node_addr = addr, dht_store = []\<rparr>"

definition without_sender :: "node_id \<Rightarrow> contact_node list \<Rightarrow> contact_node list" where
  "without_sender sid ns = filter (\<lambda>(i, _). i \<noteq> sid) ns"

definition stored_value :: "instant \<Rightarrow> 32 arr \<Rightarrow> dht_node \<Rightarrow> bytes option" where
  "stored_value now key n =
     (case map_of (dht_store n) key of
        None \<Rightarrow> None
      | Some (v, expires) \<Rightarrow> if expires > now then Some v else None)"

definition process_op ::
    "instant \<Rightarrow> dht_operation \<Rightarrow> socket_addr \<Rightarrow> dht_node \<times> routing_table \<Rightarrow> (dht_node \<times> routing_table) \<times> query" where
  "process_op now op sender s =
     (case s of (n, rt) \<Rightarrow>
      let sid = sender_id op; rt' = fst (add_node now sid sender rt) in
      case op of
        Ping _ \<Rightarrow> ((n, rt'), Some (Pong (node_id_of n), sender))
      | FindNode _ t \<Rightarrow>
          ((n, rt'), Some (Nodes (node_id_of n) (without_sender sid (closest_nodes t K rt)), sender))
      | FindValue _ key \<Rightarrow>
          ((n, rt'), Some (Value (node_id_of n) key (stored_value now key n)
             (without_sender sid (closest_nodes (NodeID key) K rt)), sender))
      | Store _ key v ttl \<Rightarrow>
          ((n\<lparr>dht_store := AList.update key (v, Instant (nanos now + from_secs (unat ttl))) (dht_store n)\<rparr>, rt'),
           Some (StoreAck (node_id_of n) key, sender))
      | Pong _ \<Rightarrow> ((n, rt'), None)
      | Nodes _ ns \<Rightarrow> ((n, add_nodes now ns rt'), None)
      | StoreAck _ _ \<Rightarrow> ((n, rt'), None)
      | Value _ _ _ ns \<Rightarrow> ((n, add_nodes now ns rt'), None))"

definition dht_process ::
    "instant \<Rightarrow> packet \<Rightarrow> socket_addr \<Rightarrow> dht_node \<times> routing_table \<Rightarrow> ((dht_node \<times> routing_table) \<times> query) res" where
  "dht_process now pkt sender s =
     and_then (to_option (op_from_serialized (data (payload pkt)))) (\<lambda>op.
       case op of None \<Rightarrow> Ok (s, None) | Some op \<Rightarrow> Ok (process_op now op sender s))"

lemma add_nodes_ok: "rt_ok rt \<Longrightarrow> rt_ok (add_nodes now ns rt)"
  by (induction ns arbitrary: rt) (auto simp: add_nodes_def add_node_ok)

lemma process_op_ok: "rt_ok rt \<Longrightarrow> rt_ok (snd (fst (process_op now op sender (n, rt))))"
  by (cases op) (simp_all add: process_op_def Let_def add_node_ok add_nodes_ok)

section \<open>What a node learns\<close>

text \<open>
  After hearing of the nodes \<open>ns\<close> at \<open>now\<close>, in this order: each of them but the local one is known under the
  last address named, as seen now, or was unknown and there is no room for it; nothing else has changed.
\<close>

definition learned :: "instant \<Rightarrow> contact_node list \<Rightarrow> routing_table \<Rightarrow> routing_table \<Rightarrow> bool" where
  "learned now ns rt rt' \<longleftrightarrow> (\<forall>i.
     if i = local_id rt \<or> i \<notin> ids_of ns then contact_map rt' i = contact_map rt i
     else contact_map rt' i = map_option (\<lambda>a. (a, now)) (map_of (rev ns) i) \<or>
       contact_map rt i = None \<and> contact_map rt' i = None \<and> \<not> has_room rt' i)"

lemma add_nodes_snoc: "add_nodes now (ns @ [(j, a)]) rt = fst (add_node now j a (add_nodes now ns rt))"
  by (simp add: add_nodes_def)

lemma add_nodes_Cons: "add_nodes now ((j, a) # ns) rt = add_nodes now ns (fst (add_node now j a rt))"
  by (simp add: add_nodes_def)

lemma add_nodes_learns:
  assumes "rt_ok rt"
  shows "local_id (add_nodes now ns rt) = local_id rt \<and> learned now ns rt (add_nodes now ns rt)"
proof (induction ns rule: rev_induct)
  case Nil
  then show ?case by (simp add: add_nodes_def learned_def ids_of_def)
next
  case (snoc x ns)
  obtain j a where x: "x = (j, a)" by (cases x)
  let ?r1 = "add_nodes now ns rt"
  let ?r2 = "fst (add_node now j a ?r1)"
  have ok: "rt_ok ?r1" using assms by (rule add_nodes_ok)
  have l: "local_id ?r1 = local_id rt" using snoc by simp
  note m = add_node_map [OF ok, of now j a]
  have room: "\<not> has_room ?r2 i" if "\<not> has_room ?r1 i" for i using that add_node_room(2) [OF ok] by blast
  have named: "map_of (rev ns) i \<noteq> None" if "i \<in> ids_of ns" for i
    using that by (simp add: ids_of_def map_of_eq_None_iff)
  have "learned now (ns @ [(j, a)]) rt ?r2"
    unfolding learned_def
  proof
    fix i
    have IH: "if i = local_id rt \<or> i \<notin> ids_of ns then contact_map ?r1 i = contact_map rt i
        else contact_map ?r1 i = map_option (\<lambda>a. (a, now)) (map_of (rev ns) i) \<or>
          contact_map rt i = None \<and> contact_map ?r1 i = None \<and> \<not> has_room ?r1 i"
      using snoc unfolding learned_def by blast
    have ids: "i \<in> ids_of (ns @ [(j, a)]) \<longleftrightarrow> i \<in> ids_of ns \<or> i = j" by (auto simp: ids_of_def)
    show "if i = local_id rt \<or> i \<notin> ids_of (ns @ [(j, a)]) then contact_map ?r2 i = contact_map rt i
      else contact_map ?r2 i = map_option (\<lambda>a. (a, now)) (map_of (rev (ns @ [(j, a)])) i) \<or>
        contact_map rt i = None \<and> contact_map ?r2 i = None \<and> \<not> has_room ?r2 i"
    proof (cases "i = j")
      case True
      then show ?thesis using IH named [of j] m room [of j] l unfolding ids by (auto split: if_splits)
    next
      case False
      then have "contact_map ?r2 i = contact_map ?r1 i" using m by simp
      then show ?thesis using IH room [of i] False unfolding ids by (auto split: if_splits)
    qed
  qed
  then show ?case using l by (simp add: x add_nodes_snoc add_node_room(1))
qed

text \<open>
  C35. What a DHT node answers, learns and stores, for every operation. A request (\<open>Ping\<close>, \<open>FindNode\<close>,
  \<open>FindValue\<close>, \<open>Store\<close>) gets exactly one reply, to the address it came from and in the node's own name, and a
  response gets none. The nodes of a reply are those that \<open>closest_nodes\<close> gives for the table before the request, without
  the requester: at most \<open>K\<close>, active, in order of distance. The sender is learned from every operation, with the address it
  came from, and then the nodes that a response names. Only \<open>Store\<close> changes the store: the value, to expire after its time to live.
\<close>

theorem process_op_replies:
  assumes ok: "rt_ok rt" and p: "process_op now op sender (n, rt) = ((n', rt'), reply)"
  shows "rt_ok rt' \<and> learned now ((sender_id op, sender) # nodes_in (Response now op)) rt rt' \<and>
    node_id_of n' = node_id_of n \<and>
    map_of (dht_store n') = (case op of
        Store _ key v ttl \<Rightarrow> (map_of (dht_store n))(key \<mapsto> (v, Instant (nanos now + from_secs (unat ttl))))
      | _ \<Rightarrow> map_of (dht_store n)) \<and>
    (case op of
       Ping _ \<Rightarrow> reply = Some (Pong (node_id_of n), sender)
     | FindNode sid t \<Rightarrow> (\<exists>ns. reply = Some (Nodes (node_id_of n) ns, sender) \<and> ns = without_sender sid (closest_nodes t K rt) \<and>
         length ns \<le> K \<and> set ns \<subseteq> set (active_nodes rt) \<and> sid \<notin> ids_of ns \<and> sorted (map (\<lambda>(i, _). dist_val t i) ns))
     | FindValue sid key \<Rightarrow> (\<exists>ns. reply = Some (Value (node_id_of n) key (stored_value now key n) ns, sender) \<and>
         ns = without_sender sid (closest_nodes (NodeID key) K rt) \<and>
         length ns \<le> K \<and> set ns \<subseteq> set (active_nodes rt) \<and> sid \<notin> ids_of ns \<and>
         sorted (map (\<lambda>(i, _). dist_val (NodeID key) i) ns))
     | Store _ key _ _ \<Rightarrow> reply = Some (StoreAck (node_id_of n) key, sender)
     | _ \<Rightarrow> reply = None)"
proof -
  have ns: "length (without_sender sid (closest_nodes t K rt)) \<le> K \<and>
      set (without_sender sid (closest_nodes t K rt)) \<subseteq> set (active_nodes rt) \<and>
      sid \<notin> ids_of (without_sender sid (closest_nodes t K rt)) \<and>
      sorted (map (\<lambda>(i, _). dist_val t i) (without_sender sid (closest_nodes t K rt)))" for sid t
  proof -
    note c = closest_nodes_facts [OF ok, of t K]
    have "length (without_sender sid (closest_nodes t K rt)) \<le> length (closest_nodes t K rt)"
      by (simp add: without_sender_def)
    then show ?thesis using c by (auto simp: without_sender_def in_ids_of intro: sorted_filter)
  qed
  have "rt' = add_nodes now ((sender_id op, sender) # nodes_in (Response now op)) rt"
    using p by (cases op) (auto simp: process_op_def Let_def add_nodes_def)
  then have "rt_ok rt'" "learned now ((sender_id op, sender) # nodes_in (Response now op)) rt rt'"
    using add_nodes_ok [OF ok] add_nodes_learns [OF ok] by simp_all
  then show ?thesis using p ns by (cases op) (auto simp: process_op_def Let_def)
qed

theorem process_op_replies_witness:
  "\<exists>ns n' rt'. process_op (Instant 9) (FindNode (demo_id 3) (demo_id 4)) demo_addr (dht_node_new (demo_id 0) demo_addr, gap_table) =
     ((n', rt'), Some (Nodes (demo_id 0) ns, demo_addr)) \<and> demo_id 3 \<notin> ids_of ns \<and>
     (contact_map rt' (demo_id 3) = Some (demo_addr, Instant 9) \<or> \<not> has_room rt' (demo_id 3))"
proof -
  obtain n' rt' reply where p: "process_op (Instant 9) (FindNode (demo_id 3) (demo_id 4)) demo_addr
      (dht_node_new (demo_id 0) demo_addr, gap_table) = ((n', rt'), reply)" by (metis prod.exhaust)
  have l: "local_id gap_table = demo_id 0" "demo_id 3 \<noteq> demo_id 0" by code_simp+
  from process_op_replies [OF gap_table_ok p] have
    r: "\<exists>ns. reply = Some (Nodes (demo_id 0) ns, demo_addr) \<and> demo_id 3 \<notin> ids_of ns"
    and learn: "learned (Instant 9) [(demo_id 3, demo_addr)] gap_table rt'" by (auto simp: dht_node_new_def)
  have "contact_map rt' (demo_id 3) = Some (demo_addr, Instant 9) \<or> \<not> has_room rt' (demo_id 3)"
    using learn [unfolded learned_def, THEN spec, of "demo_id 3"] l by (auto simp: ids_of_def)
  then show ?thesis using p r by blast
qed

section \<open>The store\<close>

fun stores_key :: "32 arr \<Rightarrow> dht_operation \<Rightarrow> bool" where
  "stores_key key (Store _ k _ _) = (k = key)"
| "stores_key key _ = False"

fun process_all :: "(instant \<times> dht_operation \<times> socket_addr) list \<Rightarrow> dht_node \<times> routing_table \<Rightarrow> dht_node \<times> routing_table" where
  "process_all [] s = s"
| "process_all ((now, op, sender) # es) s = process_all es (fst (process_op now op sender s))"

lemma process_op_store:
  "map_of (dht_store (fst (fst (process_op now op sender s)))) key =
    (case op of Store _ k v ttl \<Rightarrow> if key = k then Some (v, Instant (nanos now + from_secs (unat ttl)))
                                   else map_of (dht_store (fst s)) key
     | _ \<Rightarrow> map_of (dht_store (fst s)) key)"
  by (cases s; cases op) (simp_all add: process_op_def Let_def)

lemma process_all_store:
  "\<forall>(_, op, _) \<in> set es. \<not> stores_key key op \<Longrightarrow>
     map_of (dht_store (fst (process_all es s))) key = map_of (dht_store (fst s)) key"
proof (induction es s rule: process_all.induct)
  case (2 now op sender es s)
  then show ?case by (cases op) (auto simp: process_op_store)
qed simp

text \<open>
  A stored value is found until its time to live is over and not after it: whatever operations
  come between, as long as none stores the same key, a \<open>FindValue\<close> at \<open>now\<close> is answered with the
  value if \<open>now\<close> is before the store's time plus its ttl, and without a value otherwise.
\<close>

theorem stored_value_until_expiry:
  assumes "\<forall>(_, op, _) \<in> set es. \<not> stores_key key op"
    and "s' = process_all es (fst (process_op t (Store sid key v ttl) a s))"
  shows "\<exists>ns. snd (process_op now (FindValue sid' key) b s') =
    Some (Value (node_id_of (fst s')) key
      (if nanos now < nanos t + from_secs (unat ttl) then Some v else None) ns, b)"
proof -
  have "map_of (dht_store (fst s')) key = Some (v, Instant (nanos t + from_secs (unat ttl)))"
    unfolding assms(2) process_all_store [OF assms(1)] by (simp add: process_op_store)
  then show ?thesis
    by (cases s') (simp add: process_op_def Let_def stored_value_def less_instant_def)
qed

theorem stored_value_until_expiry_witness:
  "\<exists>ns n. snd (process_op (Instant 8) (FindValue (demo_id 2) zero_arr) demo_addr
      (process_all [(Instant 7, Ping (demo_id 2), demo_addr)]
        (fst (process_op (Instant 5) (Store (demo_id 1) zero_arr [42] 60) demo_addr
          (dht_node_new (demo_id 0) demo_addr, routing_new (demo_id 0)))))) =
    Some (Value n zero_arr (Some [42]) ns, demo_addr)"
proof -
  have "\<forall>(_, op, _) \<in> set [(Instant 7, Ping (demo_id 2), demo_addr)]. \<not> stores_key zero_arr op" by simp
  from stored_value_until_expiry [OF this refl, where now = "Instant 8" and t = "Instant 5" and ttl = 60]
  show ?thesis by (force simp: from_secs_def)
qed

text \<open>
  A DHT packet can make the server panic only through the cut-off \<open>Store\<close>; a packet that does not
  parse changes nothing and gets no reply.
\<close>

theorem dht_process_total:
  "dht_process now pkt sender s =
     (case op_from_serialized (data (payload pkt)) of
        Ok op \<Rightarrow> Ok (process_op now op sender s)
      | Err _ \<Rightarrow> Ok (s, None)
      | Panic \<Rightarrow> Panic) \<and>
   (dht_process now pkt sender s = Panic \<longleftrightarrow>
      (\<exists>r. data (payload pkt) = 5 # r \<and> (length r = 68 \<or> length r = 69)))"
  using op_from_serialized_PanicD [of "data (payload pkt)"] op_from_serialized_PanicI
  by (cases "op_from_serialized (data (payload pkt))") (auto simp: dht_process_def)

end
