(* ===== verification/Crypto.thy ===== *)
theory Crypto
  imports Prelude
begin

text \<open>
  crypto/hkdf.rs, cipher.rs, argon.rs and exchange.rs over the primitives of the crypto packages.
  The primitives are not part of the program: they are the fields of \<open>crypto\<close>, a parameter of
  every definition that uses them, and \<open>crypto_ok\<close> lists what those packages document. Random
  bytes (nonces, salts, secrets) are arguments.
\<close>

record crypto =
  hkdf_expand :: "bytes option \<Rightarrow> bytes \<Rightarrow> bytes \<Rightarrow> nat \<Rightarrow> bytes option"
  aead_seal :: "32 arr \<Rightarrow> 12 arr \<Rightarrow> bytes \<Rightarrow> bytes option"
  aead_open :: "32 arr \<Rightarrow> 12 arr \<Rightarrow> bytes \<Rightarrow> bytes option"
  x_pub :: "32 arr \<Rightarrow> 32 arr"
  x_dh :: "32 arr \<Rightarrow> 32 arr \<Rightarrow> 32 arr"
  ed_pub :: "32 arr \<Rightarrow> 32 arr"
  ed_sign :: "32 arr \<Rightarrow> bytes \<Rightarrow> 64 arr"
  ed_valid :: "32 arr \<Rightarrow> bool"
  ed_verify :: "32 arr \<Rightarrow> bytes \<Rightarrow> 64 arr \<Rightarrow> bool"
  sha256 :: "bytes \<Rightarrow> 32 arr"
  argon2id :: "bytes \<Rightarrow> 32 arr \<Rightarrow> 32 arr option"

text \<open>
  The documented behaviour the program relies on: HKDF-SHA256 fills up to 255 blocks; opening a
  sealed message with its key and nonce gives it back, and the seal adds a 16-byte tag; X25519
  commutes; an Ed25519 signature verifies under the signer's public key, which is a valid key.
\<close>

definition hkdf_ok :: "crypto \<Rightarrow> bool" where
  "hkdf_ok C \<longleftrightarrow> (\<forall>salt ikm info n. n \<le> 8160 \<longrightarrow> (\<exists>okm. hkdf_expand C salt ikm info n = Some okm \<and> length okm = n))"

definition aead_ok :: "crypto \<Rightarrow> bool" where
  "aead_ok C \<longleftrightarrow> (\<forall>k n p c. aead_seal C k n p = Some c \<longrightarrow> aead_open C k n c = Some p \<and> length c = length p + 16)"

definition dh_ok :: "crypto \<Rightarrow> bool" where
  "dh_ok C \<longleftrightarrow> (\<forall>a b. x_dh C a (x_pub C b) = x_dh C b (x_pub C a))"

definition ed_ok :: "crypto \<Rightarrow> bool" where
  "ed_ok C \<longleftrightarrow> (\<forall>sk m. ed_verify C (ed_pub C sk) m (ed_sign C sk m) \<and> ed_valid C (ed_pub C sk))"

definition crypto_ok :: "crypto \<Rightarrow> bool" where
  "crypto_ok C \<longleftrightarrow> hkdf_ok C \<and> aead_ok C \<and> dh_ok C \<and> ed_ok C"

section \<open>hkdf.rs\<close>

definition derive_key :: "crypto \<Rightarrow> bytes \<Rightarrow> bytes option \<Rightarrow> bytes \<Rightarrow> 32 arr res" where
  "derive_key C shared_secret salt info =
     map_res arr_of (ok_or (hkdf_expand C salt shared_secret info 32) (Msg ''HKDF expand failed''))"

lemma derive_key_total: "hkdf_ok C \<Longrightarrow> \<exists>k. derive_key C ikm salt info = Ok k"
proof -
  assume "hkdf_ok C"
  moreover have "(32::nat) \<le> 8160" by simp
  ultimately have "\<exists>okm. hkdf_expand C salt ikm info 32 = Some okm" unfolding hkdf_ok_def by blast
  then show ?thesis by (auto simp: derive_key_def)
qed

section \<open>cipher.rs\<close>

definition cipher_encrypt :: "crypto \<Rightarrow> 12 arr \<Rightarrow> bytes \<Rightarrow> 32 arr \<Rightarrow> (bytes \<times> 12 arr) res" where
  "cipher_encrypt C nonce bs key =
     map_res (\<lambda>c. (c, nonce)) (ok_or (aead_seal C key nonce bs) (Msg ''encryption failed''))"

definition cipher_decrypt :: "crypto \<Rightarrow> bytes \<Rightarrow> 12 arr \<Rightarrow> 32 arr \<Rightarrow> bytes res" where
  "cipher_decrypt C cipher_bytes nonce key =
     ok_or (aead_open C key nonce cipher_bytes)
       (Msg ''decryption failed: wrong key, wrong nonce, or corrupted/tampered data'')"

lemma cipher_roundtrip:
  "aead_ok C \<Longrightarrow> cipher_encrypt C nonce bs key = Ok (c, n) \<Longrightarrow> n = nonce \<and> cipher_decrypt C c n key = Ok bs"
  by (auto simp: cipher_encrypt_def cipher_decrypt_def aead_ok_def res_simps)

section \<open>argon.rs\<close>

definition argon_derive_key :: "crypto \<Rightarrow> bytes \<Rightarrow> 32 arr \<Rightarrow> 32 arr res" where
  "argon_derive_key C password salt =
     ok_or (argon2id C password salt) (Wrap ''argon2id key derivation failed: {e}'' (Msg ''argon2''))"

definition encrypt_with_password :: "crypto \<Rightarrow> 32 arr \<Rightarrow> 12 arr \<Rightarrow> bytes \<Rightarrow> bytes \<Rightarrow> bytes res" where
  "encrypt_with_password C salt rnd plaintext password =
     and_then (argon_derive_key C password salt) (\<lambda>key.
     and_then (cipher_encrypt C rnd plaintext key) (\<lambda>(ciphertext, nonce).
       Ok (bytes_of salt @ bytes_of nonce @ ciphertext)))"

definition decrypt_with_password :: "crypto \<Rightarrow> bytes \<Rightarrow> bytes \<Rightarrow> bytes res" where
  "decrypt_with_password C encrypted password =
     (if length encrypted < 44 + 16 then Err (Msg ''encrypted data too short'')
      else
        and_then (sub_bytes encrypted 0 32) (\<lambda>s.
        and_then (ok_or (try_arr s) (Msg ''failed to read salt'')) (\<lambda>salt.
        and_then (sub_bytes encrypted 32 44) (\<lambda>n.
        and_then (ok_or (try_arr n) (Msg ''failed to read nonce'')) (\<lambda>nonce.
        and_then (sub_from encrypted 44) (\<lambda>ciphertext.
        and_then (argon_derive_key C password salt) (\<lambda>key.
          cipher_decrypt C ciphertext nonce key)))))))"

text \<open>The format \<open>salt || nonce || ciphertext\<close>, read.\<close>

lemma decrypt_with_password_eq:
  "60 \<le> length e \<Longrightarrow> decrypt_with_password C e password =
     and_then (argon_derive_key C password (arr_of (take 32 e))) (\<lambda>key.
       cipher_decrypt C (drop 44 e) (arr_of (take 12 (drop 32 e))) key)"
  by (simp add: decrypt_with_password_def)

lemma password_roundtrip:
  assumes "aead_ok C" and e: "encrypt_with_password C salt rnd plaintext password = Ok e"
  shows "decrypt_with_password C e password = Ok plaintext"
proof -
  from e obtain key c where k: "argon_derive_key C password salt = Ok key"
    "cipher_encrypt C rnd plaintext key = Ok (c, rnd)" "e = bytes_of salt @ bytes_of rnd @ c"
    by (auto simp: encrypt_with_password_def cipher_encrypt_def res_simps)
  moreover have "16 \<le> length c" using assms(1) k(2) by (auto simp: aead_ok_def cipher_encrypt_def res_simps)
  moreover note cipher_roundtrip [OF assms(1) k(2)]
  ultimately show ?thesis by (simp add: decrypt_with_password_eq)
qed

lemma decrypt_with_password_not_Panic [simp]: "decrypt_with_password C e password \<noteq> Panic"
proof (cases "length e < 60")
  case False
  then show ?thesis
    by (simp add: decrypt_with_password_eq res_simps argon_derive_key_def cipher_decrypt_def)
qed (simp add: decrypt_with_password_def)

section \<open>exchange.rs\<close>

record static_exchange =
  st_public_key :: "32 arr"
  st_secret :: "32 arr"
  st_shared_secret :: "32 arr option"

record ephemeral_exchange =
  ep_public_key :: "32 arr"
  ep_secret :: "32 arr option"
  ep_shared_secret :: "32 arr option"

definition static_new :: "crypto \<Rightarrow> 32 arr \<Rightarrow> static_exchange" where
  "static_new C secret = \<lparr>st_public_key = x_pub C secret, st_secret = secret, st_shared_secret = None\<rparr>"

definition static_compute :: "crypto \<Rightarrow> 32 arr \<Rightarrow> static_exchange \<Rightarrow> static_exchange res" where
  "static_compute C peer k = Ok (k\<lparr>st_shared_secret := Some (x_dh C (st_secret k) peer)\<rparr>)"

definition ephemeral_new :: "crypto \<Rightarrow> 32 arr \<Rightarrow> ephemeral_exchange" where
  "ephemeral_new C secret = \<lparr>ep_public_key = x_pub C secret, ep_secret = Some secret, ep_shared_secret = None\<rparr>"

text \<open>The secret is taken out before it is used; the state is returned with the error too.\<close>

definition ephemeral_compute :: "crypto \<Rightarrow> 32 arr \<Rightarrow> ephemeral_exchange \<Rightarrow> ephemeral_exchange \<times> unit res" where
  "ephemeral_compute C peer k =
     (let k' = k\<lparr>ep_secret := None\<rparr> in
      case ok_or (ep_secret k) (Msg ''ephemeral secret already consumed'') of
        Ok secret \<Rightarrow> (k'\<lparr>ep_shared_secret := Some (x_dh C secret peer)\<rparr>, Ok ())
      | Err e \<Rightarrow> (k', Err e)
      | Panic \<Rightarrow> (k', Panic))"

text \<open>
  Both sides compute the same secret from the other's public key; an ephemeral secret works once.
\<close>

lemma exchange_agree:
  assumes "dh_ok C"
    and "static_compute C (ep_public_key (ephemeral_new C a)) (static_new C b) = Ok k"
    and "ephemeral_compute C (st_public_key (static_new C b)) (ephemeral_new C a) = (e, r)"
  shows "r = Ok () \<and> ep_shared_secret e = st_shared_secret k \<and>
    ephemeral_compute C peer e = (e, Err (Msg ''ephemeral secret already consumed''))"
  using assms
  by (auto simp: ephemeral_compute_def static_compute_def ephemeral_new_def static_new_def dh_ok_def Let_def)

section \<open>A concrete instance\<close>

text \<open>
  Functions that meet the contract, so that it can be met: XOR for Diffie-Hellman, a constant tag
  for the seal, the message's first bytes for hashes and signatures.
\<close>

definition xor_arr :: "32 arr \<Rightarrow> 32 arr \<Rightarrow> 32 arr" where
  "xor_arr a b = arr_of (map2 (XOR) (bytes_of a) (bytes_of b))"

definition demo_crypto :: crypto where
  "demo_crypto = \<lparr>
     hkdf_expand = \<lambda>salt ikm info n.
       if n \<le> 8160 then Some (take n (info @ ikm @ replicate n 0)) else None,
     aead_seal = \<lambda>k n p. Some (replicate 16 7 @ p),
     aead_open = \<lambda>k n c. if take 16 c = replicate 16 7 then Some (drop 16 c) else None,
     x_pub = \<lambda>a. a,
     x_dh = xor_arr,
     ed_pub = \<lambda>a. a,
     ed_sign = \<lambda>sk m. arr_of (take 64 (bytes_of sk @ m @ replicate 64 0)),
     ed_valid = \<lambda>pk. True,
     ed_verify = \<lambda>pk m s. s = arr_of (take 64 (bytes_of pk @ m @ replicate 64 0)),
     sha256 = \<lambda>m. arr_of (take 32 (m @ replicate 32 0)),
     argon2id = \<lambda>pw salt. Some salt\<rparr>"

lemma xor_arr_commute: "xor_arr a b = xor_arr b a"
  unfolding xor_arr_def by (rule arg_cong [where f = arr_of]) (auto intro!: nth_equalityI simp: xor.commute)

lemma demo_crypto_ok: "crypto_ok demo_crypto"
proof -
  have "\<exists>okm. hkdf_expand demo_crypto salt ikm info n = Some okm \<and> length okm = n" if "n \<le> 8160" for salt ikm info n
    using that by (auto simp: demo_crypto_def min_def)
  then have "hkdf_ok demo_crypto" unfolding hkdf_ok_def by blast
  then show ?thesis
    by (simp add: crypto_ok_def aead_ok_def dh_ok_def ed_ok_def demo_crypto_def xor_arr_commute)
qed

text \<open>
  What \<open>encrypt_with_password\<close> produces, \<open>decrypt_with_password\<close> opens with the same password, and
  no input makes the latter panic.
\<close>

theorem password_encryption_roundtrip:
  assumes "aead_ok C" and "encrypt_with_password C salt rnd plaintext password = Ok e"
  shows "decrypt_with_password C e password = Ok plaintext \<and> decrypt_with_password C e' password' \<noteq> Panic"
  using assms by (simp add: password_roundtrip)

theorem password_encryption_roundtrip_witness:
  "\<exists>e. encrypt_with_password demo_crypto zero_arr zero_arr [1, 2] [3] = Ok e \<and>
     decrypt_with_password demo_crypto e [3] = Ok [1, 2]"
proof -
  obtain e where e: "encrypt_with_password demo_crypto zero_arr zero_arr [1, 2] [3] = Ok e"
    by (simp add: encrypt_with_password_def argon_derive_key_def cipher_encrypt_def demo_crypto_def)
  have "aead_ok demo_crypto" using demo_crypto_ok by (simp add: crypto_ok_def)
  from password_encryption_roundtrip [OF this e] e show ?thesis by blast
qed

end
