(* ===== verification/Identity.thy ===== *)
theory Identity
  imports Crypto Wire
begin

text \<open>
  identity/identity.rs, certificates.rs, devices.rs and keychain.rs: the master key, the device
  certificates it signs, the signed device list and the device's own keychain. Lemmas: what is
  issued verifies, every format reads back, what a history of
  changes makes of a device list and of its signature, and which
  inputs panic.
\<close>

section \<open>identity.rs\<close>

record master_key_pair =
  m_public_key :: "32 arr"
  m_private_key :: "32 arr"

datatype user_id = UserID (user_public_key: "32 arr")

definition from_signing_key_bytes :: "crypto \<Rightarrow> 32 arr \<Rightarrow> master_key_pair" where
  "from_signing_key_bytes C sk = \<lparr>m_public_key = ed_pub C sk, m_private_key = sk\<rparr>"

text \<open>\<open>to_seed\<close> is the mnemonic's seed as a function of the password (bip39).\<close>

definition master_from_mnemonic :: "crypto \<Rightarrow> (string \<Rightarrow> bytes) \<Rightarrow> string option \<Rightarrow> master_key_pair res" where
  "master_from_mnemonic C to_seed password =
     (case derive_key C (to_seed (case password of None \<Rightarrow> '''' | Some p \<Rightarrow> p)) None (ascii ''insub-master-ed25519-v1'') of
        Ok seed \<Rightarrow> Ok (from_signing_key_bytes C seed)
      | _ \<Rightarrow> Panic)"

definition master_sign :: "crypto \<Rightarrow> master_key_pair \<Rightarrow> bytes \<Rightarrow> 64 arr" where
  "master_sign C m bs = ed_sign C (m_private_key m) bs"

text \<open>A new identity, from a new mnemonic, without a password.\<close>

definition master_new :: "crypto \<Rightarrow> (string \<Rightarrow> bytes) \<Rightarrow> master_key_pair res" where
  "master_new C to_seed = master_from_mnemonic C to_seed None"

declare master_new_def [simp]

definition master_to_bytes :: "master_key_pair \<Rightarrow> 32 arr" where
  "master_to_bytes m = m_private_key m"

definition user_verify :: "crypto \<Rightarrow> user_id \<Rightarrow> bytes \<Rightarrow> 64 arr \<Rightarrow> bool" where
  "user_verify C u bs sig = ed_verify C (user_public_key u) bs sig"

definition user_of :: "master_key_pair \<Rightarrow> user_id" where
  "user_of m = UserID (m_public_key m)"

text \<open>Every constructor makes the public key that belongs to the private one.\<close>

definition master_ok :: "crypto \<Rightarrow> master_key_pair \<Rightarrow> bool" where
  "master_ok C m \<longleftrightarrow> m_public_key m = ed_pub C (m_private_key m)"

lemma from_signing_key_bytes_ok [simp]: "master_ok C (from_signing_key_bytes C sk)"
  by (simp add: master_ok_def from_signing_key_bytes_def)

lemma master_to_bytes_roundtrip: "master_ok C m \<Longrightarrow> from_signing_key_bytes C (master_to_bytes m) = m"
  by (cases m) (simp add: master_ok_def from_signing_key_bytes_def master_to_bytes_def)

lemma user_verify_sign:
  "ed_ok C \<Longrightarrow> master_ok C m \<Longrightarrow> user_verify C (user_of m) bs (master_sign C m bs)"
  by (simp add: user_verify_def user_of_def master_sign_def master_ok_def ed_ok_def)

section \<open>certificates.rs\<close>

record device_cert =
  device_ed25519_pubkey :: "32 arr"
  device_x25519_pubkey :: "32 arr"
  cert_signature :: "64 arr"

definition cert_signed_data :: "32 arr \<Rightarrow> 32 arr \<Rightarrow> bytes" where
  "cert_signed_data ed x = bytes_of ed @ bytes_of x"

definition cert_new :: "crypto \<Rightarrow> master_key_pair \<Rightarrow> 32 arr \<Rightarrow> 32 arr \<Rightarrow> device_cert" where
  "cert_new C m ed x =
     \<lparr>device_ed25519_pubkey = ed, device_x25519_pubkey = x,
      cert_signature = master_sign C m (cert_signed_data ed x)\<rparr>"

definition cert_verify :: "crypto \<Rightarrow> device_cert \<Rightarrow> user_id \<Rightarrow> bool" where
  "cert_verify C c u =
     user_verify C u (cert_signed_data (device_ed25519_pubkey c) (device_x25519_pubkey c)) (cert_signature c)"

definition cert_serialize :: "device_cert \<Rightarrow> bytes" where
  "cert_serialize c =
     bytes_of (device_ed25519_pubkey c) @ bytes_of (device_x25519_pubkey c) @ bytes_of (cert_signature c)"

text \<open>\<open>drain\<close> panics on a short buffer before any of the \<open>map_err\<close> is reached.\<close>

definition cert_from_serialized :: "crypto \<Rightarrow> bytes \<Rightarrow> device_cert res" where
  "cert_from_serialized C bs =
     and_then (drain 32 bs) (\<lambda>(d, bs).
     and_then (ok_or (try_arr d) (Msg ''Failed to parse device certificate verifying key'')) (\<lambda>ed.
     and_then (ok_or (if ed_valid C ed then Some ed else None) (Msg ''Failed to create VerifyingKey object'')) (\<lambda>ed.
     and_then (drain 32 bs) (\<lambda>(d, bs).
     and_then (ok_or (try_arr d) (Msg ''Failed to parse device certificate public key'')) (\<lambda>x.
     and_then (drain 64 bs) (\<lambda>(d, bs).
     and_then (ok_or (try_arr d) (Msg ''Failed to parse sender identity key'')) (\<lambda>sig.
       Ok \<lparr>device_ed25519_pubkey = ed, device_x25519_pubkey = x, cert_signature = sig\<rparr>)))))))"

definition cert_ok :: "crypto \<Rightarrow> device_cert \<Rightarrow> bool" where
  "cert_ok C c \<longleftrightarrow> ed_valid C (device_ed25519_pubkey c)"

lemma length_cert_serialize [simp]: "length (cert_serialize c) = 128"
  by (simp add: cert_serialize_def)

text \<open>Every input, in closed form.\<close>

lemma cert_from_serialized_eq:
  "cert_from_serialized C bs =
     (if length bs < 32 then Panic
      else if \<not> ed_valid C (arr_of (take 32 bs)) then Err (Msg ''Failed to create VerifyingKey object'')
      else if length bs < 128 then Panic
      else Ok \<lparr>device_ed25519_pubkey = arr_of (take 32 bs), device_x25519_pubkey = arr_of (take 32 (drop 32 bs)),
               cert_signature = arr_of (take 64 (drop 64 bs))\<rparr>)"
proof -
  consider "length bs < 32" | "32 \<le> length bs" "length bs < 64" | "64 \<le> length bs" "length bs < 128" | "128 \<le> length bs"
    by linarith
  then show ?thesis by cases (simp_all add: cert_from_serialized_def)
qed

lemma cert_read_write:
  assumes "cert_ok C c"
  shows "cert_from_serialized C (cert_serialize c @ junk) = Ok c"
  using assms by (cases c) (simp add: cert_from_serialized_def cert_serialize_def cert_ok_def)

interpretation cert: codec cert_serialize "cert_from_serialized C" "cert_ok C" for C
proof
  show "cert_from_serialized C (cert_serialize c) = Ok c" if "cert_ok C c" for c
    using cert_read_write [OF that, of "[]"] by simp
qed

lemma cert_new_verifies:
  "ed_ok C \<Longrightarrow> master_ok C m \<Longrightarrow> cert_verify C (cert_new C m ed x) (user_of m)"
  by (simp add: cert_verify_def cert_new_def user_verify_sign)

section \<open>devices.rs\<close>

definition MAX_DEVICES :: nat where "MAX_DEVICES = 5"

record device_list =
  sequence :: u64
  devices :: "device_cert list"
  list_signature :: "64 arr"

definition contains_active :: "device_list \<Rightarrow> 32 arr \<Rightarrow> bool" where
  "contains_active l pk = list_ex (\<lambda>d. device_ed25519_pubkey d = pk) (devices l)"

definition list_signed_data :: "u64 \<Rightarrow> device_cert list \<Rightarrow> bytes" where
  "list_signed_data sq ds = be_bytes 8 sq @ concat (map cert_serialize ds)"

definition list_sign_data :: "crypto \<Rightarrow> u64 \<Rightarrow> device_cert list \<Rightarrow> master_key_pair \<Rightarrow> 64 arr" where
  "list_sign_data C sq ds m = master_sign C m (list_signed_data sq ds)"

definition list_verify :: "crypto \<Rightarrow> device_list \<Rightarrow> user_id \<Rightarrow> bool" where
  "list_verify C l u = user_verify C u (list_signed_data (sequence l) (devices l)) (list_signature l)"

definition list_serialize :: "device_list \<Rightarrow> bytes" where
  "list_serialize l = be_bytes 8 (sequence l) @ bytes_of (list_signature l) @ concat (map cert_serialize (devices l))"

definition read_cert :: "crypto \<Rightarrow> bytes \<Rightarrow> (device_cert \<times> bytes) res" where
  "read_cert C bs =
     and_then (drain 128 bs) (\<lambda>(device_bytes, bs).
     and_then (map_err (\<lambda>_. Msg ''Failed to parse individual device'') (cert_from_serialized C device_bytes)) (\<lambda>device.
       Ok (device, bs)))"

definition list_from_serialized :: "crypto \<Rightarrow> bytes \<Rightarrow> device_list res" where
  "list_from_serialized C bs =
     (if length bs < 8 + 64 then Err (Msg ''Couldn't parse devices list'')
      else
        and_then (drain 8 bs) (\<lambda>(d, bs).
        and_then (ok_or (try_arr d) (Msg ''Failed to parse device certificate's sequence'')) (\<lambda>sq :: 8 arr.
        and_then (drain 64 bs) (\<lambda>(d, bs).
        and_then (ok_or (try_arr d) (Msg ''Failed to parse device certificate's master signature'')) (\<lambda>sig.
        let remaining_len = length bs in
        if remaining_len mod 128 \<noteq> 0 then Err (Msg ''Invalid device list length: not a multiple of 128 bytes'')
        else if remaining_len div 128 > MAX_DEVICES then Err (Msg ''Too many devices'')
        else and_then (read_many (read_cert C) (remaining_len div 128) bs) (\<lambda>(ds, bs).
          Ok \<lparr>sequence = from_be (bytes_of sq), devices = ds, list_signature = sig\<rparr>))))))"

definition list_new :: "crypto \<Rightarrow> master_key_pair \<Rightarrow> device_list" where
  "list_new C m = \<lparr>sequence = 0, devices = [], list_signature = list_sign_data C 0 [] m\<rparr>"

text \<open>The changes of a list: the new list, or the error; the sequence number panics at its maximum.\<close>

definition add_device :: "crypto \<Rightarrow> master_key_pair \<Rightarrow> device_cert \<Rightarrow> device_list \<Rightarrow> device_list res" where
  "add_device C m cert l =
     (if length (devices l) \<ge> MAX_DEVICES then Err (Msg ''Device limit reached'')
      else and_then (add_or_panic (sequence l) 1) (\<lambda>sq.
        let ds = devices l @ [cert]
        in Ok \<lparr>sequence = sq, devices = ds, list_signature = list_sign_data C sq ds m\<rparr>))"

definition remove_device :: "crypto \<Rightarrow> master_key_pair \<Rightarrow> 32 arr \<Rightarrow> device_list \<Rightarrow> device_list res" where
  "remove_device C m pk l =
     and_then (ok_or (position (\<lambda>d. device_ed25519_pubkey d = pk) (devices l)) (Msg ''Unknown certificate'')) (\<lambda>i.
     and_then (add_or_panic (sequence l) 1) (\<lambda>sq.
       let ds = remove_at i (devices l)
       in Ok \<lparr>sequence = sq, devices = ds, list_signature = list_sign_data C sq ds m\<rparr>))"

definition list_ok :: "crypto \<Rightarrow> device_list \<Rightarrow> bool" where
  "list_ok C l \<longleftrightarrow> length (devices l) \<le> MAX_DEVICES \<and> (\<forall>d \<in> set (devices l). cert_ok C d)"

subsection \<open>The format\<close>

interpretation cert_stream: tight_codec cert_serialize "read_cert C" "cert_ok C" for C
proof
  show "read_cert C (cert_serialize c @ r) = Ok (c, r)" if "cert_ok C c" for c r
    using cert.dec_enc [OF that] by (simp add: read_cert_def)
  show "cert_ok C c \<and> bs = cert_serialize c @ r" if "read_cert C bs = Ok (c, r)" for bs c r
  proof -
    from that have l: "128 \<le> length bs" and r: "r = drop 128 bs" and c: "cert_from_serialized C (take 128 bs) = Ok c"
      by (auto simp: read_cert_def res_simps drain_def split: if_splits)
    from c l have "cert_ok C c" "cert_serialize c = take 32 bs @ take 32 (drop 32 bs) @ take 64 (drop 64 bs)"
      by (auto simp: cert_from_serialized_eq cert_ok_def cert_serialize_def min_def drop_take split: if_splits)
    moreover have "take 32 bs @ take 32 (drop 32 bs) @ take 64 (drop 64 bs) = take 128 bs"
      using take_add [of 32 32 bs] take_add [of 64 64 bs] by simp
    ultimately show ?thesis using r by simp
  qed
qed

lemma read_certs_not_Panic:
  "128 * n \<le> length bs \<Longrightarrow> read_many (read_cert C) n bs \<noteq> Panic"
proof (induction n arbitrary: bs)
  case (Suc n)
  have "read_cert C bs \<noteq> Panic" using Suc.prems
    by (simp add: read_cert_def res_simps cert_from_serialized_eq)
  moreover have "128 * n \<le> length r" if "read_cert C bs = Ok (c, r)" for c r
    using that Suc.prems by (simp add: cert_stream.read_iff)
  ultimately show ?case using Suc.IH by (fastforce simp: res_simps)
qed simp

lemma list_from_serialized_eq:
  "72 \<le> length bs \<Longrightarrow> list_from_serialized C bs =
     (if length (drop 72 bs) mod 128 \<noteq> 0 then Err (Msg ''Invalid device list length: not a multiple of 128 bytes'')
      else if length (drop 72 bs) div 128 > MAX_DEVICES then Err (Msg ''Too many devices'')
      else and_then (read_many (read_cert C) (length (drop 72 bs) div 128) (drop 72 bs)) (\<lambda>(ds, bs').
        Ok \<lparr>sequence = from_be (take 8 bs), devices = ds, list_signature = arr_of (take 64 (drop 8 bs))\<rparr>))"
  by (simp add: list_from_serialized_def Let_def)

lemma list_from_serialized_not_Panic: "list_from_serialized C bs \<noteq> Panic"
proof (cases "72 \<le> length bs")
  case True
  have "read_many (read_cert C) (length (drop 72 bs) div 128) (drop 72 bs) \<noteq> Panic"
    by (rule read_certs_not_Panic) (rule times_div_less_eq_dividend)
  then show ?thesis unfolding list_from_serialized_eq [OF True] by (auto simp: res_simps)
qed (simp add: list_from_serialized_def)

lemma list_roundtrip:
  assumes "list_ok C l"
  shows "list_from_serialized C (list_serialize l) = Ok l"
proof -
  let ?t = "concat (map cert_serialize (devices l))"
  have len: "length ?t = 128 * length (devices l)"
    by (simp add: length_concat comp_def sum_list_triv)
  have d: "drop 72 (list_serialize l) = ?t" "take 8 (list_serialize l) = be_bytes 8 (sequence l)"
    "take 64 (drop 8 (list_serialize l)) = bytes_of (list_signature l)"
    by (simp_all add: list_serialize_def)
  have "read_many (read_cert C) (length (devices l)) ?t = Ok (devices l, [])"
    using cert_stream.read_many_write [of "devices l" C "[]"] assms by (simp add: list_ok_def)
  moreover have "72 \<le> length (list_serialize l)" by (simp add: list_serialize_def)
  ultimately show ?thesis
    using assms by (simp add: list_from_serialized_eq d len list_ok_def from_be_be_bytes)
qed

interpretation dev_list: codec list_serialize "list_from_serialized C" "list_ok C" for C
  by unfold_locales (rule list_roundtrip)

lemma list_from_serialized_exact:
  assumes "list_from_serialized C bs = Ok l"
  shows "list_ok C l \<and> bs = list_serialize l"
proof -
  have len: "72 \<le> length bs" using assms by (auto simp: list_from_serialized_def not_less split: if_splits)
  from assms obtain r where m: "length (drop 72 bs) mod 128 = 0" "length (drop 72 bs) div 128 \<le> MAX_DEVICES"
    and r: "read_many (read_cert C) (length (drop 72 bs) div 128) (drop 72 bs) = Ok (devices l, r)"
    and l: "sequence l = from_be (take 8 bs)" "list_signature l = arr_of (take 64 (drop 8 bs))"
    unfolding list_from_serialized_eq [OF len] by (auto simp: res_simps not_less split: if_splits)
  note x = r [unfolded cert_stream.read_many_iff]
  have n: "length (devices l) = length (drop 72 bs) div 128"
    and app: "drop 72 bs = concat (map cert_serialize (devices l)) @ r" using x by blast+
  have "length (concat (map cert_serialize (devices l))) = 128 * length (devices l)"
    by (simp add: length_concat comp_def sum_list_triv)
  also have "\<dots> = length (drop 72 bs)" unfolding n using m(1) by (metis mult_div_mod_eq add_0_right)
  finally have "length (concat (map cert_serialize (devices l))) = length (drop 72 bs)" .
  moreover have "length (drop 72 bs) = length (concat (map cert_serialize (devices l))) + length r"
    unfolding app by (rule length_append)
  ultimately have "length r = 0" by linarith
  then have t: "concat (map cert_serialize (devices l)) = drop 72 bs" using app by simp
  have "take 72 bs = take 8 bs @ take 64 (drop 8 bs)" using take_add [of 8 64 bs] by simp
  then have "bs = take 8 bs @ take 64 (drop 8 bs) @ drop 72 bs" by (metis append.assoc append_take_drop_id)
  also have "\<dots> = list_serialize l"
    unfolding list_serialize_def t l using len by (simp add: be_bytes_from_be)
  finally have "bs = list_serialize l" .
  moreover have "list_ok C l" using m(2) x by (simp only: list_ok_def) blast
  ultimately show ?thesis by blast
qed

subsection \<open>The list as a state machine\<close>

lemma list_new_verifies: "ed_ok C \<Longrightarrow> master_ok C m \<Longrightarrow> list_verify C (list_new C m) (user_of m)"
  by (simp add: list_verify_def list_new_def list_sign_data_def user_verify_sign)

lemma add_device_Ok:
  "add_device C m cert l = Ok l' \<longleftrightarrow> length (devices l) < MAX_DEVICES \<and>
     unat (sequence l') = unat (sequence l) + 1 \<and> devices l' = devices l @ [cert] \<and>
     list_signature l' = list_sign_data C (sequence l') (devices l') m"
  by (cases l') (auto simp: add_device_def add_one_Ok and_then_eq_Ok ok_or_eq Let_def)

lemma remove_device_Ok:
  "remove_device C m pk l = Ok l' \<longleftrightarrow>
     unat (sequence l') = unat (sequence l) + 1 \<and>
     (\<exists>i. position (\<lambda>d. device_ed25519_pubkey d = pk) (devices l) = Some i \<and> devices l' = remove_at i (devices l)) \<and>
     list_signature l' = list_sign_data C (sequence l') (devices l') m"
  by (cases l') (auto simp: remove_device_def add_one_Ok and_then_eq_Ok ok_or_eq Let_def)

text \<open>
  The changes made under one master key: a device is added or removed, or the list gets the next sequence number
  without being signed, as \<open>add_device\<close> and \<open>revoke_device\<close> of api.rs do. The state has the history of the list.
\<close>

datatype list_change = Add device_cert | Remove "32 arr" | Renumber

fun apply_change :: "crypto \<Rightarrow> master_key_pair \<Rightarrow> list_change \<Rightarrow> device_list \<Rightarrow> device_list res" where
  "apply_change C m (Add cert) l = add_device C m cert l"
| "apply_change C m (Remove pk) l = remove_device C m pk l"
| "apply_change C m Renumber l = map_res (\<lambda>sq. l\<lparr>sequence := sq\<rparr>) (add_or_panic (sequence l) 1)"

fun change_ok :: "crypto \<Rightarrow> list_change \<Rightarrow> bool" where
  "change_ok C (Add cert) = cert_ok C cert"
| "change_ok C _ = True"

inductive list_step :: "crypto \<Rightarrow> master_key_pair \<Rightarrow> list_change list \<times> device_list \<Rightarrow> list_change list \<times> device_list \<Rightarrow> bool"
  for C m where
  step_change: "change_ok C h \<Longrightarrow> apply_change C m h l = Ok l' \<Longrightarrow> list_step C m (hs, l) (hs @ [h], l')"

inductive_cases list_stepE: "list_step C m (hs, l) s'"

text \<open>The devices that a history leaves, and how many of its changes the signature covers.\<close>

fun replay :: "list_change \<Rightarrow> device_cert list \<Rightarrow> device_cert list" where
  "replay (Add cert) ds = ds @ [cert]"
| "replay (Remove pk) ds = (case position (\<lambda>d. device_ed25519_pubkey d = pk) ds of None \<Rightarrow> ds | Some i \<Rightarrow> remove_at i ds)"
| "replay Renumber ds = ds"

definition signed_upto :: "list_change list \<Rightarrow> nat" where
  "signed_upto hs = length (dropWhile (\<lambda>h. h = Renumber) (rev hs))"

lemma signed_upto_snoc: "signed_upto (hs @ [h]) = (if h = Renumber then signed_upto hs else Suc (length hs))"
  by (simp add: signed_upto_def)

fun list_inv :: "crypto \<Rightarrow> master_key_pair \<Rightarrow> list_change list \<times> device_list \<Rightarrow> bool" where
  "list_inv C m (hs, l) \<longleftrightarrow> list_ok C l \<and> unat (sequence l) = length hs \<and> devices l = fold replay hs [] \<and>
     list_signature l = list_sign_data C (of_nat (signed_upto hs)) (devices l) m"

lemma sequence_number: "unat (w :: u64) = n \<Longrightarrow> w = of_nat n"
  by auto

lemma apply_change_inv:
  assumes "list_inv C m (hs, l)" and "change_ok C h" and "apply_change C m h l = Ok l'"
  shows "list_inv C m (hs @ [h], l')"
proof (cases h)
  case (Add cert)
  then have "sequence l' = of_nat (Suc (length hs))"
    using assms by (intro sequence_number) (simp add: add_device_Ok)
  then show ?thesis using assms Add by (auto simp: list_ok_def add_device_Ok signed_upto_snoc)
next
  case (Remove pk)
  then obtain i where i: "position (\<lambda>d. device_ed25519_pubkey d = pk) (devices l) = Some i" "devices l' = remove_at i (devices l)"
    "unat (sequence l') = length hs + 1" "list_signature l' = list_sign_data C (sequence l') (devices l') m"
    using assms by (auto simp: remove_device_Ok)
  have "sequence l' = of_nat (Suc (length hs))" using i(3) by (intro sequence_number) simp
  moreover have "set (devices l') \<subseteq> set (devices l)" "length (devices l') \<le> length (devices l)"
    unfolding i(2) using position_SomeD [OF i(1)] set_remove_at_subset by simp_all
  ultimately show ?thesis using assms(1) i Remove by (auto simp: list_ok_def signed_upto_snoc)
next
  case Renumber
  then show ?thesis using assms by (auto simp: list_ok_def signed_upto_snoc add_one_Ok map_res_eq)
qed

interpretation dev_machine: machine "\<lambda>s. s = ([], list_new C m)" "list_step C m" "list_inv C m" for C m
proof
  show "list_inv C m s" if "s = ([], list_new C m)" for s
    using that by (simp add: list_ok_def list_new_def MAX_DEVICES_def signed_upto_def)
  show "list_inv C m s'" if "list_inv C m s" and "list_step C m s s'" for s s'
    using that by (cases s) (auto elim!: list_stepE simp del: list_inv.simps intro: apply_change_inv)
qed

text \<open>
  C37. The device list under one master key, after any history of additions, removals and renumberings: its sequence
  number counts the changes, its devices are what the additions and removals leave, at most \<open>MAX_DEVICES\<close>, and
  it reads back from its bytes. It carries the master key's signature for the number that it had
  at its last addition or removal: it verifies if it was not renumbered since.
\<close>

theorem device_list_invariant:
  assumes "ed_ok C" and "master_ok C m" and "reach (\<lambda>s. s = ([], list_new C m)) (list_step C m) (hs, l)"
  shows "unat (sequence l) = length hs \<and> devices l = fold replay hs [] \<and> length (devices l) \<le> MAX_DEVICES \<and>
    list_from_serialized C (list_serialize l) = Ok l \<and>
    user_verify C (user_of m) (list_signed_data (of_nat (signed_upto hs)) (devices l)) (list_signature l) \<and>
    (hs = [] \<or> last hs \<noteq> Renumber \<longrightarrow> list_verify C l (user_of m))"
proof -
  have inv: "list_inv C m (hs, l)" by (rule dev_machine.reach_inv [OF assms(3)])
  then have s: "user_verify C (user_of m) (list_signed_data (of_nat (signed_upto hs)) (devices l)) (list_signature l)"
    using user_verify_sign [OF assms(1,2)] by (simp add: list_sign_data_def)
  have "list_verify C l (user_of m)" if "hs = [] \<or> last hs \<noteq> Renumber"
  proof -
    have "signed_upto hs = length hs" using that by (cases hs rule: rev_cases) (simp_all add: signed_upto_def)
    moreover have "sequence l = of_nat (length hs)" using inv by (intro sequence_number) simp
    ultimately show ?thesis using s by (simp add: list_verify_def)
  qed
  moreover have "list_ok C l" using inv by simp
  then have "length (devices l) \<le> MAX_DEVICES" "list_from_serialized C (list_serialize l) = Ok l"
    by (simp_all add: dev_list.dec_enc list_ok_def)
  ultimately show ?thesis using inv s by simp
qed

definition demo_master :: master_key_pair where
  "demo_master = from_signing_key_bytes demo_crypto zero_arr"

theorem device_list_invariant_witness:
  "\<exists>l cert. list_step demo_crypto demo_master ([], list_new demo_crypto demo_master) ([Add cert], l) \<and>
     list_verify demo_crypto l (user_of demo_master) \<and> devices l = [cert] \<and>
     list_step demo_crypto demo_master ([Add cert], l) ([Add cert, Renumber], l\<lparr>sequence := 2\<rparr>) \<and>
     user_verify demo_crypto (user_of demo_master) (list_signed_data 1 [cert]) (list_signature (l\<lparr>sequence := 2\<rparr>))"
proof -
  have C: "ed_ok demo_crypto" "master_ok demo_crypto demo_master"
    using demo_crypto_ok by (simp_all add: crypto_ok_def demo_master_def)
  let ?cert = "cert_new demo_crypto demo_master zero_arr zero_arr"
  have cert: "change_ok demo_crypto (Add ?cert)" by (simp add: cert_ok_def cert_new_def demo_crypto_def)
  obtain l where l: "apply_change demo_crypto demo_master (Add ?cert) (list_new demo_crypto demo_master) = Ok l" "sequence l = 1"
    by (simp add: add_device_def list_new_def MAX_DEVICES_def add_or_panic_def Let_def)
  have 1: "list_step demo_crypto demo_master ([], list_new demo_crypto demo_master) ([] @ [Add ?cert], l)"
    using cert l(1) by (rule step_change)
  have 2: "list_step demo_crypto demo_master ([Add ?cert], l) ([Add ?cert] @ [Renumber], l\<lparr>sequence := 2\<rparr>)"
    by (rule step_change) (simp_all add: l(2) add_or_panic_def)
  have "reach (\<lambda>s. s = ([], list_new demo_crypto demo_master)) (list_step demo_crypto demo_master) ([], list_new demo_crypto demo_master)"
    by (rule reach_init) simp
  then have r1: "reach (\<lambda>s. s = ([], list_new demo_crypto demo_master)) (list_step demo_crypto demo_master) ([] @ [Add ?cert], l)"
    using 1 by (rule reach_step)
  then have r2: "reach (\<lambda>s. s = ([], list_new demo_crypto demo_master)) (list_step demo_crypto demo_master)
      ([Add ?cert] @ [Renumber], l\<lparr>sequence := 2\<rparr>)"
    using 2 unfolding append_Nil by (rule reach_step)
  from device_list_invariant [OF C r1] device_list_invariant [OF C r2] 1 2 show ?thesis
    by (intro exI [of _ l] exI [of _ ?cert]) (simp add: signed_upto_def)
qed

text \<open>
  Parsing a device list accepts exactly the bytes of well-formed lists and never panics,
  although a certificate parsed alone panics on a short buffer.
\<close>

theorem device_list_parse_exact:
  "(list_from_serialized C bs = Ok l \<longleftrightarrow> list_ok C l \<and> bs = list_serialize l) \<and>
   list_from_serialized C bs \<noteq> Panic \<and>
   (cert_from_serialized C bs = Panic \<longleftrightarrow>
      length bs < 32 \<or> length bs < 128 \<and> ed_valid C (arr_of (take 32 bs)))"
  using list_from_serialized_exact list_roundtrip list_from_serialized_not_Panic
  by (auto simp: cert_from_serialized_eq)

section \<open>keychain.rs\<close>

record keychain =
  has_password :: bool
  k_ed25519_pub :: "32 arr"
  k_ed25519_priv :: "32 arr"
  k_x25519_pub :: "32 arr"
  k_x25519_priv :: "32 arr"

definition keychain_from_mnemonic :: "crypto \<Rightarrow> (string \<Rightarrow> bytes) \<Rightarrow> string option \<Rightarrow> keychain res" where
  "keychain_from_mnemonic C to_seed password =
     (let seed_64 = to_seed (case password of None \<Rightarrow> [] | Some p \<Rightarrow> p) in
      case derive_key C seed_64 None (ascii ''keychain-ed25519'') of
        Ok ed \<Rightarrow>
          (case derive_key C seed_64 None (ascii ''keychain-x25519'') of
             Ok x \<Rightarrow> Ok \<lparr>has_password = (password \<noteq> None), k_ed25519_pub = ed_pub C ed, k_ed25519_priv = ed,
                        k_x25519_pub = x_pub C x, k_x25519_priv = x\<rparr>
           | _ \<Rightarrow> Panic)
      | _ \<Rightarrow> Panic)"

text \<open>Failing to encrypt panics; \<open>salt\<close> and \<open>rnd\<close> are the random bytes of the encryption.\<close>

definition keychain_serialize :: "crypto \<Rightarrow> 32 arr \<Rightarrow> 12 arr \<Rightarrow> bytes option \<Rightarrow> keychain \<Rightarrow> bytes res" where
  "keychain_serialize C salt rnd password k =
     (let privkeys = bytes_of (k_ed25519_priv k) @ bytes_of (k_x25519_priv k) in
      case password of
        Some pw \<Rightarrow>
          (case encrypt_with_password C salt rnd privkeys pw of
             Ok encrypted \<Rightarrow> Ok (1 # encrypted)
           | _ \<Rightarrow> Panic)
      | None \<Rightarrow> Ok (0 # privkeys))"

definition keychain_from_serialized :: "crypto \<Rightarrow> bytes \<Rightarrow> bytes option \<Rightarrow> keychain res" where
  "keychain_from_serialized C bs password =
     (if bs = [] then Err (Msg ''empty keychain data'')
      else and_then (index bs 0) (\<lambda>b.
        let has = (b \<noteq> 0) in
        and_then
          (if has then
             and_then (ok_or password (Msg ''keychain is encrypted but no password provided'')) (\<lambda>pw.
             and_then (sub_from bs 1) (\<lambda>e. decrypt_with_password C e pw))
           else if length bs < 1 + 64 then Err (Msg ''truncated keychain data'')
           else sub_bytes bs 1 65)
          (\<lambda>privkeys.
             if length privkeys < 64 then Err (Msg ''invalid keychain data'')
             else
               and_then (sub_arr privkeys 0 32) (\<lambda>ed.
               and_then (sub_arr privkeys 32 64) (\<lambda>x.
                 Ok \<lparr>has_password = has, k_ed25519_pub = ed_pub C ed, k_ed25519_priv = ed,
                    k_x25519_pub = x_pub C x, k_x25519_priv = x\<rparr>)))))"

definition keychain_ok :: "crypto \<Rightarrow> keychain \<Rightarrow> bool" where
  "keychain_ok C k \<longleftrightarrow> k_ed25519_pub k = ed_pub C (k_ed25519_priv k) \<and> k_x25519_pub k = x_pub C (k_x25519_priv k)"

lemma keychain_from_mnemonic_ok: "keychain_from_mnemonic C to_seed password = Ok k \<Longrightarrow> keychain_ok C k"
  by (auto simp: keychain_from_mnemonic_def keychain_ok_def Let_def split: res.splits)

lemma keychain_roundtrip:
  assumes C: "aead_ok C" and k: "keychain_ok C k" and s: "keychain_serialize C salt rnd password k = Ok bs"
  shows "keychain_from_serialized C bs password = Ok (k\<lparr>has_password := (password \<noteq> None)\<rparr>)"
proof -
  let ?priv = "bytes_of (k_ed25519_priv k) @ bytes_of (k_x25519_priv k)"
  have len: "length ?priv = 64" by simp
  show ?thesis
  proof (cases password)
    case None
    then have "bs = 0 # ?priv" using s by (simp add: keychain_serialize_def)
    then show ?thesis using None k by (cases k) (simp add: keychain_from_serialized_def keychain_ok_def Let_def)
  next
    case (Some pw)
    then obtain e where e: "encrypt_with_password C salt rnd ?priv pw = Ok e" "bs = 1 # e"
      using s by (auto simp: keychain_serialize_def Let_def split: res.splits)
    then show ?thesis using Some k password_roundtrip [OF C e(1)]
      by (cases k) (simp add: keychain_from_serialized_def keychain_ok_def Let_def)
  qed
qed

lemma keychain_from_serialized_not_Panic: "keychain_from_serialized C bs password \<noteq> Panic"
proof -
  have "and_then (sub_from bs 1) (\<lambda>e. decrypt_with_password C e pw) \<noteq> Panic" if "bs \<noteq> []" for pw
    using that by (cases bs) (simp_all add: sub_from_def)
  then show ?thesis
    by (auto simp: keychain_from_serialized_def res_simps Let_def index_def split: if_splits)
qed

text \<open>
  A saved keychain loads with the password it was saved with, or without one if it had none,
  and the public keys are those of the private ones; a damaged file, or a missing password, is an
  error and never a panic.
\<close>

theorem keychain_save_load:
  assumes "aead_ok C" and "keychain_ok C k" and "keychain_serialize C salt rnd password k = Ok bs"
  shows "keychain_from_serialized C bs password = Ok (k\<lparr>has_password := (password \<noteq> None)\<rparr>) \<and>
    (password \<noteq> None \<longrightarrow>
       keychain_from_serialized C bs None = Err (Msg ''keychain is encrypted but no password provided'')) \<and>
    keychain_from_serialized C bs' password' \<noteq> Panic"
proof -
  have "keychain_from_serialized C bs None = Err (Msg ''keychain is encrypted but no password provided'')" if "password \<noteq> None"
    using that assms(3)
    by (auto simp: keychain_serialize_def keychain_from_serialized_def Let_def split: res.splits)
  then show ?thesis using keychain_roundtrip [OF assms] keychain_from_serialized_not_Panic by blast
qed

theorem keychain_save_load_witness:
  "\<exists>bs. keychain_serialize demo_crypto zero_arr zero_arr None
      \<lparr>has_password = False, k_ed25519_pub = zero_arr, k_ed25519_priv = zero_arr,
       k_x25519_pub = zero_arr, k_x25519_priv = zero_arr\<rparr> = Ok bs \<and>
     is_ok (keychain_from_serialized demo_crypto bs None)"
proof -
  let ?k = "\<lparr>has_password = False, k_ed25519_pub = zero_arr, k_ed25519_priv = zero_arr,
       k_x25519_pub = zero_arr, k_x25519_priv = zero_arr\<rparr>"
  obtain bs where bs: "keychain_serialize demo_crypto zero_arr zero_arr None ?k = Ok bs"
    by (simp add: keychain_serialize_def)
  have "aead_ok demo_crypto" using demo_crypto_ok by (simp add: crypto_ok_def)
  moreover have "keychain_ok demo_crypto ?k" by (simp add: keychain_ok_def demo_crypto_def)
  ultimately show ?thesis using keychain_save_load [OF _ _ bs] bs by auto
qed

end
