(* ===== verification/Reliable.thy ===== *)
theory Reliable
  imports Fragments Crypto
begin

text \<open>
  transport/reliable.rs: acknowledgement, retransmission and deduplication over UDP, as a state
  machine: the application's \<open>send\<close> and \<open>confirm\<close>, the receive thread's datagram and its
  time-out. Lemmas: the invariant (at most 1024 remembered ids, at most 5 retries), the bound on
  retransmissions, which acks clear an entry, exactly when the receive thread panics.
\<close>

definition MAX_RETRIES :: u8 where "MAX_RETRIES = 5"

definition RETRY_DELAY :: nat where "RETRY_DELAY = from_secs 2"

definition DEDUP_TTL :: nat where "DEDUP_TTL = from_secs 300"

definition MAX_SEEN :: nat where "MAX_SEEN = 1024"

record pending_entry =
  serialized :: bytes
  dest :: socket_addr
  retries :: u8
  last_sent :: instant

type_synonym pending_map = "(u128, pending_entry) hash_map"
type_synonym key_map = "(socket_addr, 32 arr) hash_map"

text \<open>
  The transport, its receive thread's locals (\<open>t_seen\<close>, \<open>t_reasm\<close>), the keys it shares with the
  runtime, the datagrams it has sent and the channel to the application.
\<close>

record transport =
  t_pending :: pending_map
  t_reasm :: reassembler
  t_seen :: "(u128, instant) hash_map"
  t_peer_keys :: key_map
  t_signing_key :: "32 arr option"
  t_sent :: "(bytes \<times> socket_addr) list"
  t_inbox :: "(packet \<times> socket_addr) list"

definition transport_bind :: "32 arr option \<Rightarrow> key_map \<Rightarrow> transport" where
  "transport_bind key keys =
     \<lparr>t_pending = [], t_reasm = reassembler_new, t_seen = [], t_peer_keys = keys, t_signing_key = key,
      t_sent = [], t_inbox = []\<rparr>"

section \<open>Sending\<close>

definition with_ack_required :: "packet \<Rightarrow> packet" where
  "with_ack_required frag =
     frag\<lparr>header := (header frag)\<lparr>hflags :=
        flags_from_int (flags_to_int (hflags (header frag)) OR flag_to_int AckRequired)\<rparr>\<rparr>"

text \<open>\<open>io\<close> says whether \<open>send_to\<close> succeeds on a datagram: the first failure ends the loop.\<close>

fun send_loop :: "(bytes \<Rightarrow> bool) \<Rightarrow> instant \<Rightarrow> socket_addr \<Rightarrow> packet list \<Rightarrow> transport \<Rightarrow> transport \<times> unit res" where
  "send_loop io now dst [] t = (t, Ok ())"
| "send_loop io now dst (frag # fs) t =
     (let frag = with_ack_required frag; bs = packet_serialize frag in
      if io bs then
        send_loop io now dst fs
          (t\<lparr>t_sent := t_sent t @ [(bs, dst)],
             t_pending := AList.update (pid (header frag))
               \<lparr>serialized = bs, dest = dst, retries = 0, last_sent = now\<rparr> (t_pending t)\<rparr>)
      else (t, Err (Msg ''send failed'')))"

definition transport_send ::
    "(bytes \<Rightarrow> bool) \<Rightarrow> (nat \<Rightarrow> u128) \<Rightarrow> instant \<Rightarrow> packet \<Rightarrow> socket_addr \<Rightarrow> transport \<Rightarrow> transport \<times> unit res" where
  "transport_send io rnd now pkt dst t =
     (case split_packet rnd pkt of
        Ok frags \<Rightarrow> send_loop io now dst frags t
      | Err e \<Rightarrow> (t, Err e)
      | Panic \<Rightarrow> (t, Panic))"

definition ack_packet :: "crypto \<Rightarrow> 32 arr \<Rightarrow> u128 \<Rightarrow> packet" where
  "ack_packet C key i =
     packet_new (flags_to_int (flags_from_int (flag_to_int Ack))) i
       (payload_new KeepAlive (bytes_of (ed_pub C key) @ bytes_of (ed_sign C key (be_bytes 16 i))))"

definition transport_confirm :: "crypto \<Rightarrow> u128 \<Rightarrow> socket_addr \<Rightarrow> transport \<Rightarrow> transport" where
  "transport_confirm C i dst t =
     (case t_signing_key t of
        None \<Rightarrow> t
      | Some key \<Rightarrow> t\<lparr>t_sent := t_sent t @ [(packet_serialize (ack_packet C key i), dst)]\<rparr>)"

section \<open>Acks\<close>

definition verify_ack ::
    "crypto \<Rightarrow> packet \<Rightarrow> pending_map \<Rightarrow> key_map \<Rightarrow> socket_addr \<Rightarrow> (key_map \<times> bool) res" where
  "verify_ack C pkt pend keys sender =
     (case map_of pend (pid (header pkt)) of
        None \<Rightarrow> Ok (keys, False)
      | Some e \<Rightarrow>
          if dest e \<noteq> sender then Ok (keys, False)
          else
            and_then (sub_bytes (data (payload pkt)) 0 32) (\<lambda>b.
            case try_arr b of None \<Rightarrow> Ok (keys, False) | Some pubkey_bytes \<Rightarrow>
            and_then (sub_bytes (data (payload pkt)) 32 96) (\<lambda>b.
            case try_arr b of None \<Rightarrow> Ok (keys, False) | Some sig \<Rightarrow>
              if \<not> ed_valid C pubkey_bytes then Ok (keys, False)
              else
                (case map_of keys sender of
                   Some expected \<Rightarrow> Ok (keys, ed_verify C expected (be_bytes 16 (pid (header pkt))) sig)
                 | None \<Rightarrow> Ok (AList.update sender pubkey_bytes keys, True)))))"

section \<open>The receive thread\<close>

text \<open>Removing the oldest entry of a map: the smallest stamp.\<close>

definition evict_oldest :: "('v \<Rightarrow> 't::linorder) \<Rightarrow> ('k, 'v) hash_map \<Rightarrow> ('k, 'v) hash_map" where
  "evict_oldest stamp m =
     (case min_by_key (\<lambda>(_, v). stamp v) m of None \<Rightarrow> m | Some (k, _) \<Rightarrow> AList.delete k m)"

definition remember :: "instant \<Rightarrow> u128 \<Rightarrow> (u128, instant) hash_map \<Rightarrow> (u128, instant) hash_map" where
  "remember now i seen =
     (let seen = (if length seen \<ge> MAX_SEEN then retain (\<lambda>_ ts. duration_since now ts < DEDUP_TTL) seen else seen);
          seen = (if length seen \<ge> MAX_SEEN then evict_oldest (\<lambda>ts. ts) seen else seen)
      in AList.update i now seen)"

definition is_duplicate :: "instant \<Rightarrow> u128 \<Rightarrow> (u128, instant) hash_map \<Rightarrow> bool" where
  "is_duplicate now i seen =
     (case map_of seen i of None \<Rightarrow> False | Some first_seen \<Rightarrow> duration_since now first_seen < DEDUP_TTL)"

text \<open>A whole packet, after reassembly: an ack, a duplicate, or one for the application.\<close>

definition accept_packet :: "crypto \<Rightarrow> instant \<Rightarrow> packet \<Rightarrow> socket_addr \<Rightarrow> transport \<Rightarrow> transport res" where
  "accept_packet C now pkt sender t =
     (if flags_contains (hflags (header pkt)) Ack then
        and_then (verify_ack C pkt (t_pending t) (t_peer_keys t) sender) (\<lambda>(keys, should_remove).
          Ok (t\<lparr>t_peer_keys := keys,
                t_pending := if should_remove then AList.delete (pid (header pkt)) (t_pending t) else t_pending t\<rparr>))
      else if is_duplicate now (pid (header pkt)) (t_seen t) then Ok t
      else Ok (t\<lparr>t_seen := remember now (pid (header pkt)) (t_seen t),
                 t_inbox := t_inbox t @ [(pkt, sender)]\<rparr>))"

definition on_datagram :: "crypto \<Rightarrow> instant \<Rightarrow> bytes \<Rightarrow> socket_addr \<Rightarrow> transport \<Rightarrow> transport res" where
  "on_datagram C now buf sender t =
     (case packet_from_serialized buf of
        Err _ \<Rightarrow> Ok t
      | Panic \<Rightarrow> Panic
      | Ok pkt \<Rightarrow>
          if fragment_id (payload pkt) \<noteq> 0 then
            and_then (feed now pkt sender (t_reasm t)) (\<lambda>(r, whole).
              let t = t\<lparr>t_reasm := r\<rparr> in
              case whole of None \<Rightarrow> Ok t | Some pkt \<Rightarrow> accept_packet C now pkt sender t)
          else accept_packet C now pkt sender t)"

text \<open>The retransmission pass over the pending map, with the datagrams it sends.\<close>

fun retransmit :: "instant \<Rightarrow> pending_map \<Rightarrow> pending_map \<times> (bytes \<times> socket_addr) list" where
  "retransmit now [] = ([], [])"
| "retransmit now ((i, e) # m) =
     (let (m', out) = retransmit now m in
      if retries e \<ge> MAX_RETRIES then (m', out)
      else if duration_since now (last_sent e) > RETRY_DELAY then
        ((i, e\<lparr>last_sent := now, retries := retries e + 1\<rparr>) # m', (serialized e, dest e) # out)
      else ((i, e) # m', out))"

definition on_timeout :: "instant \<Rightarrow> transport \<Rightarrow> transport" where
  "on_timeout now t =
     (let (pend, out) = retransmit now (t_pending t) in
      t\<lparr>t_pending := pend, t_sent := t_sent t @ out, t_reasm := reasm_evict_stale now (t_reasm t)\<rparr>)"

section \<open>The invariant\<close>

definition transport_ok :: "transport \<Rightarrow> bool" where
  "transport_ok t \<longleftrightarrow>
     hm_ok (t_pending t) \<and> hm_ok (t_seen t) \<and> hm_ok (t_peer_keys t) \<and> reassembler_ok (t_reasm t) \<and>
     length (t_seen t) \<le> MAX_SEEN \<and>
     (\<forall>i e. map_of (t_pending t) i = Some e \<longrightarrow> retries e \<le> MAX_RETRIES)"

lemma evict_oldest_ok [simp, intro]: "hm_ok m \<Longrightarrow> hm_ok (evict_oldest stamp m)"
  by (auto simp: evict_oldest_def split: option.splits)

text \<open>One entry goes, and none that stays is older.\<close>

lemma evict_oldest_spec:
  assumes "hm_ok m" and "m \<noteq> []"
  shows "\<exists>k v. map_of m k = Some v \<and> evict_oldest stamp m = AList.delete k m \<and>
    length (evict_oldest stamp m) = length m - 1 \<and> (\<forall>k' v'. map_of m k' = Some v' \<longrightarrow> stamp v \<le> stamp v')"
proof -
  obtain k v where m: "min_by_key (\<lambda>(_, v). stamp v) m = Some (k, v)"
    using assms(2) by (metis min_by_key_None option.exhaust prod.exhaust)
  note s = min_by_key_SomeD [OF m]
  then have "map_of m k = Some v" using assms(1) by (simp add: hm_ok_def map_of_is_SomeI)
  moreover have "\<forall>k' v'. map_of m k' = Some v' \<longrightarrow> stamp v \<le> stamp v'"
    using s by (auto dest: map_of_SomeD)
  ultimately show ?thesis using length_delete [OF assms(1), of k] by (auto simp: evict_oldest_def m)
qed

lemma remember_ok: "hm_ok seen \<Longrightarrow> hm_ok (remember now i seen)"
  by (simp add: remember_def Let_def)

lemma evict_below_cap:
  assumes "hm_ok m" and "length m \<le> cap" and "0 < cap"
  shows "length (if length m \<ge> cap then evict_oldest stamp m else m) < cap"
proof (cases "length m \<ge> cap")
  case True
  then have ne: "m \<noteq> []" and pos: "0 < length m" using assms(3) by auto
  have "length (evict_oldest stamp m) = length m - 1"
    using evict_oldest_spec [OF assms(1) ne, of stamp] by blast
  then show ?thesis using True pos assms(2) by simp
qed simp

lemma remember_length:
  assumes "hm_ok seen" and "length seen \<le> MAX_SEEN"
  shows "length (remember now i seen) \<le> MAX_SEEN"
proof -
  define s where "s = (if length seen \<ge> MAX_SEEN then retain (\<lambda>_ ts. duration_since now ts < DEDUP_TTL) seen else seen)"
  have "length s \<le> length seen" by (simp add: s_def)
  then have "length s \<le> MAX_SEEN" using assms(2) by (rule le_trans)
  moreover have "hm_ok s" using assms(1) by (simp add: s_def)
  moreover have "0 < MAX_SEEN" by (simp add: MAX_SEEN_def)
  ultimately have "length (if length s \<ge> MAX_SEEN then evict_oldest (\<lambda>ts. ts) s else s) < MAX_SEEN"
    by (intro evict_below_cap)
  then show ?thesis by (simp add: remember_def s_def [symmetric] length_update)
qed

lemma remember_self [simp]: "map_of (remember now i seen) i = Some now"
  by (simp add: remember_def Let_def)

text \<open>The ack check in closed form.\<close>

lemma verify_ack_eq:
  "verify_ack C pkt pend keys sender =
     (case map_of pend (pid (header pkt)) of
        None \<Rightarrow> Ok (keys, False)
      | Some e \<Rightarrow>
          if dest e \<noteq> sender then Ok (keys, False)
          else if length (data (payload pkt)) < 96 then Panic
          else if \<not> ed_valid C (arr_of (take 32 (data (payload pkt)))) then Ok (keys, False)
          else (case map_of keys sender of
              Some expected \<Rightarrow> Ok (keys, ed_verify C expected (be_bytes 16 (pid (header pkt)))
                                (arr_of (take 64 (drop 32 (data (payload pkt))))))
            | None \<Rightarrow> Ok (AList.update sender (arr_of (take 32 (data (payload pkt)))) keys, True)))"
proof -
  let ?d = "data (payload pkt)"
  consider "length ?d < 32" | "32 \<le> length ?d" "length ?d < 96" | "96 \<le> length ?d" by linarith
  then show ?thesis
    by cases (simp_all add: verify_ack_def sub_bytes_def split: option.split)
qed

lemma verify_ack_keys: "verify_ack C pkt pend keys s = Ok (keys', b) \<Longrightarrow> hm_ok keys \<Longrightarrow> hm_ok keys'"
  by (auto simp: verify_ack_eq split: option.splits if_splits)

lemma retransmit_fst: "fst ` set (fst (retransmit now m)) \<subseteq> fst ` set m"
proof (induction m)
  case (Cons p m)
  then show ?case by (cases p) (auto simp: case_prod_beta Let_def split: if_splits)
qed simp

lemma retransmit_ok: "hm_ok m \<Longrightarrow> hm_ok (fst (retransmit now m))"
proof (induction m)
  case (Cons p m)
  obtain i e where p: "p = (i, e)" by (cases p)
  have "i \<notin> fst ` set (fst (retransmit now m))"
    using retransmit_fst [of now m] Cons.prems p by (auto simp: hm_ok_def)
  then show ?case using Cons p by (auto simp: hm_ok_def case_prod_beta Let_def)
qed simp

lemma map_of_retransmit:
  assumes "hm_ok m"
  shows "map_of (fst (retransmit now m)) i =
    (case map_of m i of
       None \<Rightarrow> None
     | Some e \<Rightarrow>
         if retries e \<ge> MAX_RETRIES then None
         else if duration_since now (last_sent e) > RETRY_DELAY
              then Some (e\<lparr>last_sent := now, retries := retries e + 1\<rparr>) else Some e)"
  using assms
proof (induction m)
  case (Cons p m)
  obtain j e where p: "p = (j, e)" by (cases p)
  have ok: "hm_ok m" and j: "j \<notin> fst ` set m" using Cons.prems p by (auto simp: hm_ok_def)
  have "j \<notin> fst ` set (fst (retransmit now m))" using retransmit_fst [of now m] j by blast
  then have "map_of (fst (retransmit now m)) j = None" "map_of m j = None"
    using j by (simp_all add: map_of_eq_None_iff)
  then show ?case using Cons.IH [OF ok] p by (auto simp: case_prod_beta Let_def)
qed simp

lemma retries_Suc: "\<not> retries e \<ge> MAX_RETRIES \<Longrightarrow> unat (retries e + 1) = Suc (unat (retries e))"
  by (simp add: MAX_RETRIES_def word_le_nat_alt unat_word_ariths(1))

lemma send_loop_ok: "transport_ok t \<Longrightarrow> transport_ok (fst (send_loop io now dst fs t))"
proof (induction io now dst fs t rule: send_loop.induct)
  case (2 io now dst frag fs t)
  have "transport_ok (t\<lparr>t_sent := x, t_pending := AList.update i
      \<lparr>serialized = bs, dest = dst, retries = 0, last_sent = now\<rparr> (t_pending t)\<rparr>)" for x i bs
    using 2(2) by (auto simp: transport_ok_def MAX_RETRIES_def)
  then show ?case using 2 by (auto simp: Let_def)
qed simp

lemma transport_send_ok: "transport_ok t \<Longrightarrow> transport_ok (fst (transport_send io rnd now pkt dst t))"
  by (auto simp: transport_send_def send_loop_ok split: res.splits)

lemma transport_confirm_ok: "transport_ok t \<Longrightarrow> transport_ok (transport_confirm C i dst t)"
  by (auto simp: transport_confirm_def transport_ok_def split: option.splits)

lemma accept_packet_ok: "transport_ok t \<Longrightarrow> accept_packet C now pkt s t = Ok t' \<Longrightarrow> transport_ok t'"
  by (auto simp: accept_packet_def transport_ok_def res_simps remember_ok remember_length
      dest: verify_ack_keys split: if_splits)

lemma on_datagram_ok:
  assumes t: "transport_ok t" and d: "on_datagram C now buf s t = Ok t'"
  shows "transport_ok t'"
proof -
  have r: "transport_ok (t\<lparr>t_reasm := r\<rparr>)" if "feed now pkt s (t_reasm t) = Ok (r, out)" for r pkt out
    using feed_preserves [OF _ that] t by (auto simp: transport_ok_def)
  show ?thesis
    using d t by (auto simp: on_datagram_def res_simps Let_def split: res.splits if_splits option.splits
        intro: accept_packet_ok r accept_packet_ok [OF r])
qed

lemma on_timeout_ok: "transport_ok t \<Longrightarrow> transport_ok (on_timeout now t)"
proof -
  assume t: "transport_ok t"
  then have ok: "hm_ok (t_pending t)" by (simp add: transport_ok_def)
  have "retries e \<le> MAX_RETRIES" if m: "map_of (fst (retransmit now (t_pending t))) i = Some e" for i e
    using m t unfolding map_of_retransmit [OF ok]
    by (auto simp: transport_ok_def MAX_RETRIES_def word_le_nat_alt unat_word_ariths(1) split: option.splits if_splits)
  then show ?thesis using t ok
    by (simp add: on_timeout_def transport_ok_def case_prod_beta retransmit_ok reassembler_ok_evict)
qed

inductive transport_step :: "crypto \<Rightarrow> transport \<Rightarrow> transport \<Rightarrow> bool" for C where
  step_send: "transport_step C t (fst (transport_send io rnd now pkt dst t))"
| step_confirm: "transport_step C t (transport_confirm C i dst t)"
| step_datagram: "on_datagram C now buf sender t = Ok t' \<Longrightarrow> transport_step C t t'"
| step_timeout: "transport_step C t (on_timeout now t)"

inductive_cases transport_stepE: "transport_step C t t'"

lemma transport_bind_ok: "hm_ok keys \<Longrightarrow> transport_ok (transport_bind key keys)"
  by (simp add: transport_ok_def transport_bind_def reassembler_ok_new MAX_SEEN_def)

interpretation transport: machine "\<lambda>t. \<exists>key keys. hm_ok keys \<and> t = transport_bind key keys" "transport_step C" transport_ok for C
proof
  show "transport_ok t" if "\<exists>key keys. hm_ok keys \<and> t = transport_bind key keys" for t
    using that transport_bind_ok by blast
  show "transport_ok t'" if "transport_ok t" "transport_step C t t'" for t t'
    using that by (auto elim!: transport_stepE intro: transport_send_ok transport_confirm_ok on_datagram_ok on_timeout_ok)
qed

text \<open>
  The invariant of the transport, in every state that sends, confirmations, datagrams from
  anyone and time-outs can lead to: at most 1024 packet ids are remembered, no pending entry has
  been retried more than 5 times, every reassembly has one slot per announced fragment, and no map
  has a key twice.
\<close>

theorem transport_invariant:
  assumes "reach (\<lambda>t. \<exists>key keys. hm_ok keys \<and> t = transport_bind key keys) (transport_step C) t"
  shows "length (t_seen t) \<le> 1024 \<and>
    (\<forall>i e. map_of (t_pending t) i = Some e \<longrightarrow> unat (retries e) \<le> 5) \<and>
    (\<forall>k pr. map_of (t_reasm t) k = Some pr \<longrightarrow> length (pr_chunks pr) = unat (pr_total pr)) \<and>
    distinct (map fst (t_pending t)) \<and> distinct (map fst (t_seen t)) \<and> distinct (map fst (t_reasm t))"
  using transport.reach_inv [OF assms]
  by (auto simp: transport_ok_def MAX_SEEN_def MAX_RETRIES_def word_le_nat_alt reassembler_ok_def hm_ok_def)

theorem transport_invariant_witness:
  "length (t_seen (on_timeout (Instant 3) (transport_bind None []))) \<le> 1024"
proof -
  have "reach (\<lambda>t. \<exists>key keys. hm_ok keys \<and> t = transport_bind key keys) (transport_step demo_crypto)
      (on_timeout (Instant 3) (transport_bind None []))"
    by (blast intro: step_timeout hm_ok_empty)
  from transport_invariant [OF this] show ?thesis by blast
qed

section \<open>What makes the receive thread panic\<close>

definition short_ack :: "transport \<Rightarrow> socket_addr \<Rightarrow> packet \<Rightarrow> bool" where
  "short_ack t sender pkt \<longleftrightarrow> flags_contains (hflags (header pkt)) Ack \<and> length (data (payload pkt)) < 96 \<and>
     (\<exists>e. map_of (t_pending t) (pid (header pkt)) = Some e \<and> dest e = sender)"

lemma accept_packet_Panic: "accept_packet C now pkt sender t = Panic \<longleftrightarrow> short_ack t sender pkt"
  by (auto simp: accept_packet_def short_ack_def res_simps verify_ack_eq split: option.splits if_splits)

text \<open>
  C34. Which datagrams kill the receive thread, all of them: a fragment whose index is not below its
  total, and an ack shorter than 96 bytes from the address of the packet it acknowledges, either
  directly or reassembled from fragments.
\<close>

theorem on_datagram_panics_iff:
  assumes "transport_ok t"
  shows "on_datagram C now buf sender t = Panic \<longleftrightarrow>
    (\<exists>pkt. buf = packet_serialize pkt \<and>
      (if fragment_id (payload pkt) = 0 then short_ack t sender pkt
       else fragment_total (payload pkt) \<le> fragment_index (payload pkt) \<or>
         (\<exists>r whole. feed now pkt sender (t_reasm t) = Ok (r, Some whole) \<and> short_ack t sender whole)))"
proof (cases "packet_from_serialized buf")
  case (Ok pkt)
  then have buf: "buf = packet_serialize q \<longleftrightarrow> q = pkt" for q
    using packet_from_serialized_iff [of buf] by (metis res.inject(1))
  have s: "short_ack (t\<lparr>t_reasm := r\<rparr>) sender w = short_ack t sender w" for r w
    by (simp add: short_ack_def)
  have f: "feed now pkt sender (t_reasm t) = Panic \<longleftrightarrow>
      fragment_id (payload pkt) \<noteq> 0 \<and> fragment_total (payload pkt) \<le> fragment_index (payload pkt)"
    by (rule feed_Panic) (use assms in \<open>simp add: transport_ok_def\<close>)
  show ?thesis
  proof (cases "fragment_id (payload pkt) = 0")
    case True
    then show ?thesis by (simp add: on_datagram_def Ok buf accept_packet_Panic)
  next
    case False
    then have "on_datagram C now buf sender t = Panic \<longleftrightarrow> feed now pkt sender (t_reasm t) = Panic \<or>
        (\<exists>r whole. feed now pkt sender (t_reasm t) = Ok (r, Some whole) \<and> short_ack t sender whole)"
      by (auto simp: on_datagram_def Ok res_simps Let_def accept_packet_Panic s split: option.splits)
    then show ?thesis using False f buf by auto
  qed
next
  case (Err e)
  then have "buf \<noteq> packet_serialize q" for q using packet_from_serialized_iff [of buf q] by auto
  then show ?thesis by (simp add: on_datagram_def Err)
qed (simp add: packet_from_serialized_not_Panic)

theorem on_datagram_panics_iff_witness:
  "on_datagram demo_crypto (Instant 0) (packet_serialize (packet_new 4 7 (payload_new_fragment KeepAlive [] 9 2 2)))
     (V4 (arr_of [10, 0, 0, 1]) 4000) (transport_bind None []) = Panic"
proof -
  have "transport_ok (transport_bind None [])" by (simp add: transport_bind_ok)
  note p = on_datagram_panics_iff [OF this]
  have "fragment_id (payload (packet_new 4 7 (payload_new_fragment KeepAlive [] 9 2 2))) \<noteq> 0"
    "fragment_total (payload (packet_new 4 7 (payload_new_fragment KeepAlive [] 9 2 2))) \<le>
     fragment_index (payload (packet_new 4 7 (payload_new_fragment KeepAlive [] 9 2 2)))"
    by (simp_all add: payload_new_fragment_def)
  then show ?thesis using p by metis
qed

section \<open>Retransmission\<close>

fun run_timeouts :: "instant list \<Rightarrow> pending_map \<Rightarrow> pending_map \<times> (bytes \<times> socket_addr) list" where
  "run_timeouts [] m = (m, [])"
| "run_timeouts (now # ts) m =
     (let (m, out) = retransmit now m; (m, outs) = run_timeouts ts m in (m, out @ outs))"

text \<open>How often the entries of a map can still be sent.\<close>

definition budget :: "pending_map \<Rightarrow> nat" where
  "budget m = sum_list (map (\<lambda>(_, e). 5 - unat (retries e)) m)"

lemma budget_simps [simp]:
  "budget [] = 0" "budget ((i, e) # m) = 5 - unat (retries e) + budget m"
  by (simp_all add: budget_def)

lemma retry_cases:
  "retries e \<ge> MAX_RETRIES \<longleftrightarrow> 5 \<le> unat (retries e)"
  by (simp add: MAX_RETRIES_def word_le_nat_alt)

lemma retransmit_budget: "length (snd (retransmit now m)) + budget (fst (retransmit now m)) \<le> budget m"
proof (induction m)
  case (Cons p m)
  obtain i e where p: "p = (i, e)" by (cases p)
  show ?case using Cons.IH p retries_Suc [of e] by (auto simp: Let_def case_prod_beta retry_cases)
qed simp

lemma run_timeouts_budget: "length (snd (run_timeouts ts m)) + budget (fst (run_timeouts ts m)) \<le> budget m"
proof (induction ts arbitrary: m)
  case (Cons now ts)
  have eqs: "length (snd (run_timeouts (now # ts) m)) = length (snd (retransmit now m)) +
      length (snd (run_timeouts ts (fst (retransmit now m))))"
    "fst (run_timeouts (now # ts) m) = fst (run_timeouts ts (fst (retransmit now m)))"
    by (simp_all add: Let_def case_prod_beta)
  show ?case unfolding eqs using Cons.IH [of "fst (retransmit now m)"] retransmit_budget [of now m] by linarith
qed simp

text \<open>Time-outs that are each more than the retry delay after the one before.\<close>

fun spaced :: "instant \<Rightarrow> instant list \<Rightarrow> bool" where
  "spaced t [] = True"
| "spaced t (u # us) = (nanos t + RETRY_DELAY < nanos u \<and> spaced u us)"

definition due :: "nat \<Rightarrow> instant \<Rightarrow> pending_map \<Rightarrow> bool" where
  "due k t m \<longleftrightarrow> (\<forall>(_, e) \<in> set m. k \<le> unat (retries e) \<and> last_sent e \<le> t)"

lemma retransmit_due:
  assumes "due k t m" and "nanos t + RETRY_DELAY < nanos now"
  shows "due (Suc k) now (fst (retransmit now m)) \<and>
    length (snd (retransmit now m)) + budget (fst (retransmit now m)) = budget m \<and>
    (5 \<le> k \<longrightarrow> fst (retransmit now m) = [])"
  using assms(1)
proof (induction m)
  case (Cons p m)
  obtain i e where p: "p = (i, e)" by (cases p)
  have "due k t m" and e: "k \<le> unat (retries e)" "nanos (last_sent e) \<le> nanos t"
    using Cons.prems p by (auto simp: due_def less_eq_instant_def)
  note IH = Cons.IH [OF this(1)]
  have "duration_since now (last_sent e) > RETRY_DELAY" using e(2) assms(2) by (simp add: duration_since_def)
  then show ?case using IH p e retries_Suc [of e]
    by (auto simp: Let_def case_prod_beta retry_cases due_def)
qed (simp add: due_def)

lemma run_timeouts_due:
  assumes "due k t m" and "spaced t ts" and "length ts = 6 - k" and "k \<le> 6"
  shows "length (snd (run_timeouts ts m)) = budget m \<and> (k \<le> 5 \<longrightarrow> fst (run_timeouts ts m) = [])"
  using assms
proof (induction ts arbitrary: k t m)
  case Nil
  then have "budget m = 0" by (induction m) (auto simp: due_def)
  then show ?case using Nil by simp
next
  case (Cons now ts)
  let ?r = "retransmit now m"
  have k: "k \<le> 5" using Cons.prems by (cases "k = 6") auto
  have d: "due (Suc k) now (fst ?r)" "length (snd ?r) + budget (fst ?r) = budget m" "5 \<le> k \<longrightarrow> fst ?r = []"
    using retransmit_due [OF Cons.prems(1)] Cons.prems(2) by auto
  have IH: "length (snd (run_timeouts ts (fst ?r))) = budget (fst ?r) \<and>
      (Suc k \<le> 5 \<longrightarrow> fst (run_timeouts ts (fst ?r)) = [])"
    using Cons.IH [OF d(1)] Cons.prems k by simp
  moreover have "fst (run_timeouts ts (fst ?r)) = []" if "k = 5"
    using that d(3) Cons.prems(3) by simp
  ultimately show ?case using d(2) k by (auto simp: Let_def case_prod_beta)
qed

text \<open>
  C32. Retransmission is bounded: over any time-outs, no more datagrams are sent again than 5 for
  each pending entry; and when nothing is acknowledged, six time-outs more than the retry delay
  apart send each fresh entry exactly 5 times and then give up on all of them.
\<close>

theorem retransmission_bound:
  "length (snd (run_timeouts ts m)) \<le> 5 * length m \<and>
   (spaced t ts \<and> length ts = 6 \<and> (\<forall>(_, e) \<in> set m. retries e = 0 \<and> last_sent e \<le> t) \<longrightarrow>
      fst (run_timeouts ts m) = [] \<and> length (snd (run_timeouts ts m)) = 5 * length m)"
proof -
  have "budget m \<le> 5 * length m" by (induction m) auto
  then have "length (snd (run_timeouts ts m)) \<le> 5 * length m" using run_timeouts_budget [of ts m] by linarith
  moreover have "fst (run_timeouts ts m) = [] \<and> length (snd (run_timeouts ts m)) = 5 * length m"
    if "spaced t ts" "length ts = 6" and z: "\<forall>(_, e) \<in> set m. retries e = 0 \<and> last_sent e \<le> t"
  proof -
    have "due 0 t m" using z by (auto simp: due_def)
    moreover have "budget m = 5 * length m" using z by (induction m) auto
    ultimately show ?thesis using run_timeouts_due [of 0 t m ts] that by simp
  qed
  ultimately show ?thesis by blast
qed

theorem retransmission_bound_witness:
  "fst (run_timeouts (map (\<lambda>k. Instant (k * 3000000000)) [1, 2, 3, 4, 5, 6])
      [(7, \<lparr>serialized = [1], dest = V4 (arr_of [10, 0, 0, 1]) 4000, retries = 0, last_sent = Instant 0\<rparr>)]) = []"
  using retransmission_bound [of "map (\<lambda>k. Instant (k * 3000000000)) [1, 2, 3, 4, 5, 6]"
      "[(7, \<lparr>serialized = [1], dest = V4 (arr_of [10, 0, 0, 1]) 4000, retries = 0, last_sent = Instant 0\<rparr>)]" "Instant 0"]
  by (simp add: RETRY_DELAY_def from_secs_def)

section \<open>Acknowledgement\<close>

lemma ack_packet_simps [simp]:
  "pid (header (ack_packet C key i)) = i"
  "flags_contains (hflags (header (ack_packet C key i))) Ack"
  "fragment_id (payload (ack_packet C key i)) = 0"
  "data (payload (ack_packet C key i)) = bytes_of (ed_pub C key) @ bytes_of (ed_sign C key (be_bytes 16 i))"
proof -
  have "flags (hflags (header (ack_packet C key i))) = 2"
    by (simp add: ack_packet_def flags_to_int_def flags_from_int_def)
  then show "flags_contains (hflags (header (ack_packet C key i))) Ack" by (simp add: flags_contains_def)
qed (simp_all add: ack_packet_def)

text \<open>
  An ack does its job: the datagram that \<open>confirm\<close> sends, arriving from the address the packet
  was sent to, removes that packet's entry and no other, provided the address is known under the
  confirming key or not known at all; in the latter case the key is pinned to the address.
\<close>

theorem confirm_clears_pending:
  assumes "ed_ok C" and "t_signing_key peer = Some key"
    and "t_sent (transport_confirm C i ret peer) = t_sent peer @ [(buf, ret)]"
    and "map_of (t_pending t) i = Some e" and "dest e = s"
    and "map_of (t_peer_keys t) s \<in> {None, Some (ed_pub C key)}"
  shows "\<exists>t'. on_datagram C now buf s t = Ok t' \<and>
    t_pending t' = AList.delete i (t_pending t) \<and> map_of (t_peer_keys t') s = Some (ed_pub C key) \<and>
    t_inbox t' = t_inbox t"
proof -
  have buf: "buf = packet_serialize (ack_packet C key i)"
    using assms(2,3) by (simp add: transport_confirm_def)
  have ed: "ed_valid C (ed_pub C key)" "ed_verify C (ed_pub C key) m (ed_sign C key m)" for m
    using assms(1) by (simp_all add: ed_ok_def)
  then show ?thesis using assms(4-6)
    by (auto simp: on_datagram_def buf accept_packet_def verify_ack_eq)
qed

definition demo_peer :: socket_addr where
  "demo_peer = V4 (arr_of [10, 0, 0, 2]) 4000"

definition demo_entry :: pending_entry where
  "demo_entry = \<lparr>serialized = [1], dest = demo_peer, retries = 0, last_sent = Instant 0\<rparr>"

definition demo_sender :: transport where
  "demo_sender = (transport_bind None [])\<lparr>t_pending := [(7, demo_entry)]\<rparr>"

theorem confirm_clears_pending_witness:
  "\<exists>t'. on_datagram demo_crypto (Instant 1) (packet_serialize (ack_packet demo_crypto zero_arr 7)) demo_peer demo_sender = Ok t' \<and>
     t_pending t' = []"
proof -
  have "ed_ok demo_crypto" using demo_crypto_ok by (simp add: crypto_ok_def)
  then have "\<exists>t'. on_datagram demo_crypto (Instant 1) (packet_serialize (ack_packet demo_crypto zero_arr 7)) demo_peer demo_sender = Ok t' \<and>
      t_pending t' = AList.delete 7 (t_pending demo_sender) \<and>
      map_of (t_peer_keys t') demo_peer = Some (ed_pub demo_crypto zero_arr) \<and> t_inbox t' = t_inbox demo_sender"
    by (rule confirm_clears_pending [where peer = "transport_bind (Some zero_arr) []" and ret = demo_peer and e = demo_entry])
      (simp_all add: transport_confirm_def transport_bind_def demo_sender_def demo_entry_def)
  then show ?thesis by (auto simp: demo_sender_def)
qed

text \<open>
  Trust on first use checks no signature: while an address is unknown, any 96 bytes that start
  with a valid key, sent from there, acknowledge a packet and pin that key, whatever the signature.
\<close>

theorem first_ack_unverified:
  assumes "map_of (t_pending t) (pid (header pkt)) = Some e" and "dest e = s"
    and "map_of (t_peer_keys t) s = None"
    and "flags_contains (hflags (header pkt)) Ack"
    and "data (payload pkt) = bytes_of pk @ bytes_of (sig :: 64 arr) @ junk" and "ed_valid C pk"
  shows "\<exists>t'. accept_packet C now pkt s t = Ok t' \<and>
    map_of (t_pending t') (pid (header pkt)) = None \<and> map_of (t_peer_keys t') s = Some pk"
  using assms by (auto simp: accept_packet_def verify_ack_eq)

theorem first_ack_unverified_witness:
  "\<not> ed_verify demo_crypto zero_arr (be_bytes 16 (7 :: u128)) (arr_of (replicate 64 1)) \<and>
   (\<exists>t'. accept_packet demo_crypto (Instant 1)
       (packet_new 2 7 (payload_new KeepAlive (bytes_of (zero_arr :: 32 arr) @ bytes_of (arr_of (replicate 64 1) :: 64 arr) @ [])))
       demo_peer demo_sender = Ok t' \<and> map_of (t_pending t') 7 = None)"
proof -
  let ?p = "packet_new 2 7 (payload_new KeepAlive (bytes_of (zero_arr :: 32 arr) @ bytes_of (arr_of (replicate 64 1) :: 64 arr) @ []))"
  have "\<exists>t'. accept_packet demo_crypto (Instant 1) ?p demo_peer demo_sender = Ok t' \<and>
      map_of (t_pending t') (pid (header ?p)) = None \<and> map_of (t_peer_keys t') demo_peer = Some zero_arr"
    by (rule first_ack_unverified [where e = demo_entry and sig = "arr_of (replicate 64 1)" and junk = "[]"])
      (simp_all add: demo_sender_def demo_entry_def transport_bind_def flags_contains_def demo_crypto_def)
  moreover have "\<not> ed_verify demo_crypto zero_arr (be_bytes 16 (7 :: u128)) (arr_of (replicate 64 1))"
    by code_simp
  ultimately show ?thesis by auto
qed

section \<open>Delivery\<close>

text \<open>
  Delivery of a packet that is neither a fragment nor an ack: the application gets it once;
  the same datagram again within the deduplication time changes nothing.
\<close>

theorem delivered_once:
  assumes "fragment_id (payload pkt) = 0" and "\<not> flags_contains (hflags (header pkt)) Ack"
    and "\<not> is_duplicate now (pid (header pkt)) (t_seen t)"
  shows "\<exists>t'. on_datagram C now (packet_serialize pkt) s t = Ok t' \<and>
    t_inbox t' = t_inbox t @ [(pkt, s)] \<and> t_pending t' = t_pending t \<and>
    (\<forall>now' s'. duration_since now' now < DEDUP_TTL \<longrightarrow> on_datagram C now' (packet_serialize pkt) s' t' = Ok t')"
  using assms by (auto simp: on_datagram_def accept_packet_def is_duplicate_def)

theorem delivered_once_witness:
  "\<exists>t'. on_datagram demo_crypto (Instant 0) (packet_serialize (packet_new 0 7 (payload_new KeepAlive []))) demo_peer (transport_bind None []) = Ok t' \<and>
     t_inbox t' = [(packet_new 0 7 (payload_new KeepAlive []), demo_peer)]"
  using delivered_once [of "packet_new 0 7 (payload_new KeepAlive [])" "Instant 0" "transport_bind None []" demo_crypto demo_peer]
  by (auto simp: transport_bind_def is_duplicate_def flags_contains_def)

fun on_datagrams :: "crypto \<Rightarrow> socket_addr \<Rightarrow> (instant \<times> bytes) list \<Rightarrow> transport \<Rightarrow> transport res" where
  "on_datagrams C s [] t = Ok t"
| "on_datagrams C s ((now, buf) # ds) t = and_then (on_datagram C now buf s t) (on_datagrams C s ds)"

text \<open>The datagram of a fragment, as \<open>send\<close> puts it on the wire.\<close>

definition fragment_datagram :: "(nat \<Rightarrow> u128) \<Rightarrow> packet \<Rightarrow> nat \<Rightarrow> bytes" where
  "fragment_datagram rnd pkt i = packet_serialize (with_ack_required (fragment rnd pkt i))"

lemma payload_with_ack [simp]: "payload (with_ack_required p) = payload p" "pid (header (with_ack_required p)) = pid (header p)"
  by (simp_all add: with_ack_required_def)

lemma feed_payload:
  "fragment_id (payload p) \<noteq> 0 \<Longrightarrow> payload q = payload p \<Longrightarrow> feed now q s r = feed now p s r"
  by (simp add: feed_def Let_def)

lemma on_fragment:
  assumes "n_chunks pkt \<le> 255" and id: "pid (header pkt) \<noteq> 0"
    and "holds_parts pkt s S (t_reasm t)" and "i < n_chunks pkt"
  shows "\<exists>r. holds_parts pkt s (insert i S) r \<and>
    on_datagram C now (fragment_datagram rnd pkt i) s t =
      (if {..<n_chunks pkt} \<subseteq> insert i S then accept_packet C now pkt s (t\<lparr>t_reasm := r\<rparr>)
       else Ok (t\<lparr>t_reasm := r\<rparr>))"
proof -
  obtain r where r: "feed now (fragment rnd pkt i) s (t_reasm t) =
      Ok (r, if {..<n_chunks pkt} \<subseteq> insert i S then Some pkt else None)" "holds_parts pkt s (insert i S) r"
    using feed_fragment [OF assms] by blast
  have "feed now (with_ack_required (fragment rnd pkt i)) s (t_reasm t) = feed now (fragment rnd pkt i) s (t_reasm t)"
    by (rule feed_payload) (simp_all add: id)
  then show ?thesis
    using r id by (intro exI [of _ r]) (simp add: on_datagram_def fragment_datagram_def)
qed

lemma fragments_after_delivery:
  assumes n: "n_chunks pkt \<le> 255" "pid (header pkt) \<noteq> 0" and ack: "\<not> flags_contains (hflags (header pkt)) Ack"
  shows "holds_parts pkt s S (t_reasm t) \<Longrightarrow> {..<n_chunks pkt} \<subseteq> S \<Longrightarrow>
    map_of (t_seen t) (pid (header pkt)) = Some t0 \<Longrightarrow>
    \<forall>(now, i) \<in> set evs. i < n_chunks pkt \<and> duration_since now t0 < DEDUP_TTL \<Longrightarrow>
    \<exists>t'. on_datagrams C s (map (\<lambda>(now, i). (now, fragment_datagram rnd pkt i)) evs) t = Ok t' \<and>
      t_inbox t' = t_inbox t \<and> t_peer_keys t' = t_peer_keys t"
proof (induction evs arbitrary: S t)
  case (Cons ev evs)
  obtain now i where ev: "ev = (now, i)" by (cases ev)
  from Cons.prems ev have i: "i < n_chunks pkt" and d: "duration_since now t0 < DEDUP_TTL" by auto
  obtain r where r: "holds_parts pkt s (insert i S) r"
    "on_datagram C now (fragment_datagram rnd pkt i) s t =
      (if {..<n_chunks pkt} \<subseteq> insert i S then accept_packet C now pkt s (t\<lparr>t_reasm := r\<rparr>)
       else Ok (t\<lparr>t_reasm := r\<rparr>))"
    using on_fragment [OF n Cons.prems(1) i] by blast
  have "{..<n_chunks pkt} \<subseteq> insert i S" using Cons.prems(2) by blast
  then have "on_datagram C now (fragment_datagram rnd pkt i) s t = Ok (t\<lparr>t_reasm := r\<rparr>)"
    using r(2) ack d Cons.prems(3) by (simp add: accept_packet_def is_duplicate_def)
  then show ?case
    using Cons.IH [of "insert i S" "t\<lparr>t_reasm := r\<rparr>"] Cons.prems r(1) ev by auto
qed simp

lemma fragments_deliver:
  assumes n: "n_chunks pkt \<le> 255" "pid (header pkt) \<noteq> 0" and ack: "\<not> flags_contains (hflags (header pkt)) Ack"
  shows "holds_parts pkt s S (t_reasm t) \<Longrightarrow> \<not> {..<n_chunks pkt} \<subseteq> S \<Longrightarrow>
    map_of (t_seen t) (pid (header pkt)) = None \<Longrightarrow>
    \<forall>(now, i) \<in> set evs. i < n_chunks pkt \<and> (\<forall>(now', _) \<in> set evs. duration_since now' now < DEDUP_TTL) \<Longrightarrow>
    \<exists>t'. on_datagrams C s (map (\<lambda>(now, i). (now, fragment_datagram rnd pkt i)) evs) t = Ok t' \<and>
      t_inbox t' = t_inbox t @ (if {..<n_chunks pkt} \<subseteq> S \<union> snd ` set evs then [(pkt, s)] else []) \<and>
      t_peer_keys t' = t_peer_keys t"
proof (induction evs arbitrary: S t)
  case (Cons ev evs)
  obtain now i where ev: "ev = (now, i)" by (cases ev)
  from Cons.prems ev have i: "i < n_chunks pkt" by auto
  obtain r where r: "holds_parts pkt s (insert i S) r"
    "on_datagram C now (fragment_datagram rnd pkt i) s t =
      (if {..<n_chunks pkt} \<subseteq> insert i S then accept_packet C now pkt s (t\<lparr>t_reasm := r\<rparr>)
       else Ok (t\<lparr>t_reasm := r\<rparr>))"
    using on_fragment [OF n Cons.prems(1) i] by blast
  show ?case
  proof (cases "{..<n_chunks pkt} \<subseteq> insert i S")
    case True
    let ?t = "t\<lparr>t_reasm := r, t_seen := remember now (pid (header pkt)) (t_seen t), t_inbox := t_inbox t @ [(pkt, s)]\<rparr>"
    have "on_datagram C now (fragment_datagram rnd pkt i) s t = Ok ?t"
      using r(2) True ack Cons.prems(3) by (simp add: accept_packet_def is_duplicate_def)
    moreover have "\<exists>t'. on_datagrams C s (map (\<lambda>(now, i). (now, fragment_datagram rnd pkt i)) evs) ?t = Ok t' \<and>
        t_inbox t' = t_inbox ?t \<and> t_peer_keys t' = t_peer_keys ?t"
      by (rule fragments_after_delivery [OF n ack, where S = "insert i S" and ?t0.0 = now])
        (use r(1) True Cons.prems(4) ev in \<open>auto split: prod.splits\<close>)
    ultimately show ?thesis using True ev by auto
  next
    case False
    then have "on_datagram C now (fragment_datagram rnd pkt i) s t = Ok (t\<lparr>t_reasm := r\<rparr>)"
      using r(2) by simp
    moreover have "\<forall>(now, i) \<in> set evs. i < n_chunks pkt \<and> (\<forall>(now', _) \<in> set evs. duration_since now' now < DEDUP_TTL)"
      using Cons.prems(4) by fastforce
    moreover have "S \<union> snd ` set (ev # evs) = insert i S \<union> snd ` set evs" using ev by auto
    ultimately show ?thesis
      using Cons.IH [of "insert i S" "t\<lparr>t_reasm := r\<rparr>"] Cons.prems(3) r(1) ev False by simp
  qed
qed simp

text \<open>
  C12. Delivery of a fragmented packet, end to end: when the datagrams of its fragments arrive from
  one sender in any order and with any repetition, within the deduplication time, the application
  gets the original packet exactly once if every fragment is among them, and nothing otherwise.
\<close>

theorem fragments_delivered_once:
  assumes "split_packet rnd pkt = Ok frags" and "2 \<le> length frags" and "pid (header pkt) \<noteq> 0"
    and "\<not> flags_contains (hflags (header pkt)) Ack"
    and "map_of (t_reasm t) (pid (header pkt), s) = None" and "map_of (t_seen t) (pid (header pkt)) = None"
    and "\<forall>(now, i) \<in> set evs. i < length frags \<and> (\<forall>(now', _) \<in> set evs. duration_since now' now < DEDUP_TTL)"
  shows "\<exists>t'. on_datagrams C s (map (\<lambda>(now, i). (now, packet_serialize (with_ack_required (frags ! i)))) evs) t = Ok t' \<and>
    t_inbox t' = t_inbox t @ (if {..<length frags} \<subseteq> snd ` set evs then [(pkt, s)] else [])"
proof -
  have n: "n_chunks pkt \<le> 255" and frags: "frags = map (fragment rnd pkt) [0..<n_chunks pkt]"
    using assms(1,2) by (auto simp: split_packet_eq split: if_splits)
  then have len: "length frags = n_chunks pkt" by simp
  have m: "map (\<lambda>(now, i). (now, packet_serialize (with_ack_required (frags ! i)))) evs =
      map (\<lambda>(now, i). (now, fragment_datagram rnd pkt i)) evs"
    using assms(7) by (auto simp: fragment_datagram_def frags)
  have "holds_parts pkt s {} (t_reasm t)" using assms(5) by (simp add: holds_parts_def)
  moreover have "0 \<in> {..<n_chunks pkt}" using assms(2) len by simp
  then have "\<not> {..<n_chunks pkt} \<subseteq> {}" by blast
  ultimately show ?thesis
    unfolding m len using fragments_deliver [OF n assms(3,4), of s "{}" t evs C rnd] assms(6,7) len by (simp split del: if_split) blast
qed

theorem fragments_delivered_once_witness:
  "\<exists>frags t'. split_packet (\<lambda>i. of_nat (100 + i)) demo_big = Ok frags \<and>
     on_datagrams demo_crypto demo_peer
       (map (\<lambda>(now, i). (now, packet_serialize (with_ack_required (frags ! i)))) [(Instant 2, 1), (Instant 3, 0), (Instant 4, 1)])
       (transport_bind None []) = Ok t' \<and>
     t_inbox t' = [(demo_big, demo_peer)]"
proof -
  let ?evs = "[(Instant 2, 1), (Instant 3, 0), (Instant 4, 1)]"
  let ?frags = "map (fragment (\<lambda>i. of_nat (100 + i)) demo_big) [0..<2]"
  have all: "{..<length ?frags} \<subseteq> snd ` set ?evs" by auto
  have "pid (header demo_big) \<noteq> 0" "\<not> flags_contains (hflags (header demo_big)) Ack"
    by (simp_all add: demo_big_def flags_contains_def)
  moreover have "\<forall>(now, i) \<in> set ?evs. i < length ?frags \<and> (\<forall>(now', _) \<in> set ?evs. duration_since now' now < DEDUP_TTL)"
    by (simp add: duration_since_def DEDUP_TTL_def from_secs_def)
  moreover have "map_of (t_reasm (transport_bind None [])) (pid (header demo_big), demo_peer) = None"
    "map_of (t_seen (transport_bind None [])) (pid (header demo_big)) = None"
    by (simp_all add: transport_bind_def reassembler_new_def)
  ultimately obtain t' where "on_datagrams demo_crypto demo_peer
      (map (\<lambda>(now, i). (now, packet_serialize (with_ack_required (?frags ! i)))) ?evs) (transport_bind None []) = Ok t'"
    "t_inbox t' = t_inbox (transport_bind None []) @ (if {..<length ?frags} \<subseteq> snd ` set ?evs then [(demo_big, demo_peer)] else [])"
    using fragments_delivered_once [OF demo_big_split, of "transport_bind None []" demo_peer ?evs demo_crypto] by auto
  then show ?thesis using demo_big_split all by (auto simp: transport_bind_def)
qed

section \<open>Fragments are never acknowledged\<close>

lemma send_loop_pending:
  "fst ` set (t_pending (fst (send_loop io now dst fs t))) \<subseteq>
     fst ` set (t_pending t) \<union> (\<lambda>f. pid (header f)) ` set fs"
proof (induction io now dst fs t rule: send_loop.induct)
  case (2 io now dst frag fs t)
  then show ?case by (auto simp: Let_def dom_update [unfolded dom_map_of_conv_image_fst])
qed simp

text \<open>
  After a fragmented packet is sent, the pending entries carry the random ids of the fragments;
  the receiver gets the original packet, without \<open>AckRequired\<close> unless its caller had set it, and
  whoever confirms that packet's id clears nothing: every fragment runs through all its retries.
\<close>

theorem fragments_never_acknowledged:
  assumes "split_packet rnd pkt = Ok frags" and "2 \<le> length frags"
    and "pid (header pkt) \<notin> rnd ` {..<length frags}"
    and "map_of (t_pending t) (pid (header pkt)) = None"
    and "transport_send io rnd now pkt dst t = (t', Ok ())"
  shows "on_datagram C now' (packet_serialize (ack_packet C key (pid (header pkt)))) s t' = Ok t'"
proof -
  have frags: "frags = map (fragment rnd pkt) [0..<n_chunks pkt]" and len: "length frags = n_chunks pkt"
    using assms(1,2) by (auto simp: split_packet_eq split: if_splits)
  have "t' = fst (send_loop io now dst frags t)" using assms(1,5) by (simp add: transport_send_def)
  then have "fst ` set (t_pending t') \<subseteq> fst ` set (t_pending t) \<union> (\<lambda>f. pid (header f)) ` set frags"
    using send_loop_pending by metis
  moreover have "(\<lambda>f. pid (header f)) ` set frags = rnd ` {..<n_chunks pkt}"
    by (simp add: frags image_image atLeast0LessThan)
  ultimately have "map_of (t_pending t') (pid (header pkt)) = None"
    using assms(3,4) len by (auto simp: map_of_eq_None_iff)
  then show ?thesis by (simp add: on_datagram_def accept_packet_def verify_ack_eq)
qed

theorem fragments_never_acknowledged_witness:
  "\<exists>t'. transport_send (\<lambda>_. True) (\<lambda>i. of_nat (100 + i)) (Instant 1) demo_big demo_peer (transport_bind None []) = (t', Ok ()) \<and>
     length (t_pending t') = 2 \<and>
     on_datagram demo_crypto (Instant 2) (packet_serialize (ack_packet demo_crypto zero_arr 7)) demo_peer t' = Ok t'"
proof -
  let ?rnd = "\<lambda>i. of_nat (100 + i) :: u128"
  let ?t = "fst (transport_send (\<lambda>_. True) ?rnd (Instant 1) demo_big demo_peer (transport_bind None []))"
  have u: "[0..<2] = [0, Suc 0]" by (simp add: upt_rec)
  have t: "transport_send (\<lambda>_. True) ?rnd (Instant 1) demo_big demo_peer (transport_bind None []) = (?t, Ok ())"
    unfolding transport_send_def demo_big_split u by (simp add: Let_def)
  have l: "length (t_pending ?t) = 2"
    unfolding transport_send_def demo_big_split u by (simp add: Let_def transport_bind_def)
  have "pid (header demo_big) = 7" by (simp add: demo_big_def)
  moreover have "{..<2} = {0, 1 :: nat}" by auto
  then have "7 \<notin> ?rnd ` {..<2}" by simp
  ultimately have "on_datagram demo_crypto (Instant 2) (packet_serialize (ack_packet demo_crypto zero_arr 7)) demo_peer ?t = Ok ?t"
    using fragments_never_acknowledged [OF demo_big_split _ _ _ t, of demo_crypto "Instant 2" zero_arr demo_peer]
    by (simp add: transport_bind_def)
  with t l show ?thesis by blast
qed

end
