(* ===== verification/Ratchet.thy ===== *)
theory Ratchet
  imports Reliable
begin

text \<open>
  crypto/ratchet.rs: the symmetric chains and the double ratchet. Lemmas: both ways of stepping a
  chain give the keys of one reference sequence; a receiving chain serves every message number once
  and in any order; the two sides of a conversation stay in step turn by turn; what any message with
  another ratchet key does to the state before it is authenticated. Fresh secrets, nonces and the
  Unix time are arguments.
\<close>

section \<open>Chains\<close>

record chain =
  c_key :: "32 arr"
  message_number :: u32
  skipped_keys :: "(u32, 32 arr) hash_map"

definition MAX_SKIP :: u32 where "MAX_SKIP = 2048"

definition chain_new :: "32 arr \<Rightarrow> chain" where
  "chain_new key = \<lparr>c_key = key, message_number = 0, skipped_keys = []\<rparr>"

definition chain_advance :: "crypto \<Rightarrow> chain \<Rightarrow> (chain \<times> u32 \<times> 32 arr) res" where
  "chain_advance C ch =
     and_then (derive_key C (bytes_of (c_key ch)) None (ascii ''message-key'')) (\<lambda>message_key.
     and_then (derive_key C (bytes_of (c_key ch)) None (ascii ''chain-key'')) (\<lambda>key.
     and_then (add_or_panic (message_number ch) 1) (\<lambda>n.
       Ok (ch\<lparr>c_key := key, message_number := n\<rparr>, n, message_key))))"

text \<open>
  The loop of \<open>skip_to\<close>: each round sets \<open>message_number\<close> to the loop variable, so the next one is
  its successor.
\<close>

fun skip_loop :: "crypto \<Rightarrow> u32 \<Rightarrow> nat \<Rightarrow> chain \<Rightarrow> 32 arr \<Rightarrow> (chain \<times> 32 arr) res" where
  "skip_loop C tgt 0 ch final_key = Ok (ch, final_key)"
| "skip_loop C tgt (Suc rounds) ch final_key =
     and_then (add_or_panic (message_number ch) 1) (\<lambda>msg_num.
     and_then (derive_key C (bytes_of (c_key ch)) None (ascii ''message-key'')) (\<lambda>msg_key.
     and_then (derive_key C (bytes_of (c_key ch)) None (ascii ''chain-key'')) (\<lambda>key.
       let ch = ch\<lparr>c_key := key, message_number := msg_num\<rparr> in
       if msg_num < tgt
       then skip_loop C tgt rounds (ch\<lparr>skipped_keys := AList.update msg_num msg_key (skipped_keys ch)\<rparr>) final_key
       else skip_loop C tgt rounds ch msg_key)))"

definition chain_skip_to :: "crypto \<Rightarrow> u32 \<Rightarrow> chain \<Rightarrow> (chain \<times> 32 arr) res" where
  "chain_skip_to C tgt ch =
     and_then (sub_or_panic tgt (message_number ch)) (\<lambda>gap.
       if gap > MAX_SKIP then Err (Msg ''message gap too large'')
       else and_then (add_or_panic (message_number ch) 1) (\<lambda>_. skip_loop C tgt (unat gap) ch zero_arr))"

definition try_skipped :: "u32 \<Rightarrow> chain \<Rightarrow> chain \<times> 32 arr option" where
  "try_skipped n ch = (ch\<lparr>skipped_keys := AList.delete n (skipped_keys ch)\<rparr>, map_of (skipped_keys ch) n)"

text \<open>The part of \<open>decrypt\<close> that picks the message key; a failed \<open>skip_to\<close> leaves the chain alone.\<close>

definition receive_key :: "crypto \<Rightarrow> u32 \<Rightarrow> chain \<Rightarrow> chain \<times> 32 arr res" where
  "receive_key C n ch =
     (case add_or_panic (message_number ch) 1 of
        Ok nxt \<Rightarrow>
          if n = nxt then
            (case chain_advance C ch of
               Ok (ch', _, message_key) \<Rightarrow> (ch', Ok message_key)
             | Err e \<Rightarrow> (ch, Err e)
             | Panic \<Rightarrow> (ch, Panic))
          else if n > nxt then
            (case chain_skip_to C n ch of
               Ok (ch', message_key) \<Rightarrow> (ch', Ok message_key)
             | Err e \<Rightarrow> (ch, Err e)
             | Panic \<Rightarrow> (ch, Panic))
          else if map_of (skipped_keys ch) n \<noteq> None then
            (case try_skipped n ch of (ch', k) \<Rightarrow> (ch', unwrap k))
          else (ch, Err (Msg ''Message number is too old''))
      | Err e \<Rightarrow> (ch, Err e)
      | Panic \<Rightarrow> (ch, Panic))"

subsection \<open>The reference: one key sequence\<close>

definition kdf :: "crypto \<Rightarrow> string \<Rightarrow> 32 arr \<Rightarrow> 32 arr" where
  "kdf C info k = arr_of (the (hkdf_expand C None (bytes_of k) (ascii info) 32))"

text \<open>The chain key after \<open>n\<close> messages, and the key of message \<open>n\<close> (from 1).\<close>

definition chain_key :: "crypto \<Rightarrow> 32 arr \<Rightarrow> nat \<Rightarrow> 32 arr" where
  "chain_key C k n = (kdf C ''chain-key'' ^^ n) k"

definition msg_key_at :: "crypto \<Rightarrow> 32 arr \<Rightarrow> nat \<Rightarrow> 32 arr" where
  "msg_key_at C k n = kdf C ''message-key'' (chain_key C k (n - 1))"

lemma chain_key_Suc: "chain_key C k (Suc n) = kdf C ''chain-key'' (chain_key C k n)"
  by (simp add: chain_key_def)

lemma message_key_Suc: "msg_key_at C k (Suc n) = kdf C ''message-key'' (chain_key C k n)"
  by (simp add: msg_key_at_def)

lemma derive_key_kdf: "hkdf_ok C \<Longrightarrow> derive_key C (bytes_of k) None (ascii info) = Ok (kdf C info k)"
  using derive_key_total [of C "bytes_of k" None "ascii info"]
  by (auto simp: derive_key_def kdf_def res_simps)

text \<open>
  A chain that started at \<open>k0\<close> and has given out the keys of the messages in \<open>used\<close>: it stands at
  the highest number reached and keeps the keys of the skipped ones.
\<close>

definition chain_inv :: "crypto \<Rightarrow> 32 arr \<Rightarrow> nat set \<Rightarrow> chain \<Rightarrow> bool" where
  "chain_inv C k0 used ch \<longleftrightarrow>
     c_key ch = chain_key C k0 (unat (message_number ch)) \<and>
     (\<forall>i \<in> used. 1 \<le> i \<and> i \<le> unat (message_number ch)) \<and>
     (\<forall>n. map_of (skipped_keys ch) n =
        (if 1 \<le> unat n \<and> unat n \<le> unat (message_number ch) \<and> unat n \<notin> used
         then Some (msg_key_at C k0 (unat n)) else None))"

lemma chain_inv_new: "chain_inv C k0 {} (chain_new k0)"
  by (auto simp: chain_inv_def chain_new_def chain_key_def)

lemma chain_advance_eq:
  assumes "hkdf_ok C" and "c_key ch = chain_key C k0 (unat (message_number ch))"
    and "unat (message_number ch) < 2 ^ 32 - 1"
  shows "\<exists>n. unat n = Suc (unat (message_number ch)) \<and>
    chain_advance C ch = Ok (ch\<lparr>c_key := chain_key C k0 (unat n), message_number := n\<rparr>, n, msg_key_at C k0 (unat n))"
proof -
  have a: "add_or_panic (message_number ch) 1 = Ok (message_number ch + 1)"
    using assms(3) by (simp add: add_or_panic_def)
  then have "unat (message_number ch + 1) = Suc (unat (message_number ch))" by (simp only: add_one_Ok)
  then show ?thesis using a assms(1,2)
    by (intro exI [of _ "message_number ch + 1"])
      (simp add: chain_advance_def derive_key_kdf chain_key_Suc message_key_Suc)
qed

lemma skip_loop_eq:
  assumes C: "hkdf_ok C"
  shows "unat (message_number ch) + rounds = unat tgt \<Longrightarrow> c_key ch = chain_key C k0 (unat (message_number ch)) \<Longrightarrow>
    \<exists>ch'. skip_loop C tgt rounds ch fk = Ok (ch', if rounds = 0 then fk else msg_key_at C k0 (unat tgt)) \<and>
      message_number ch' = tgt \<and> c_key ch' = chain_key C k0 (unat tgt) \<and>
      (\<forall>n. map_of (skipped_keys ch') n =
        (if unat (message_number ch) < unat n \<and> unat n < unat tgt then Some (msg_key_at C k0 (unat n))
         else map_of (skipped_keys ch) n))"
proof (induction rounds arbitrary: ch fk)
  case 0
  then have "message_number ch = tgt" by (simp add: word_unat_eq_iff)
  then show ?case using 0 by auto
next
  case (Suc rounds)
  let ?n = "message_number ch + 1"
  have lt: "Suc (unat (message_number ch)) < 2 ^ 32"
  proof -
    have "unat tgt < 2 ^ LENGTH(32)" by (rule unsigned_less)
    then show ?thesis using Suc.prems(1) by simp
  qed
  then have a: "add_or_panic (message_number ch) 1 = Ok ?n" by (simp add: add_or_panic_def)
  then have n: "unat ?n = Suc (unat (message_number ch))" by (simp only: add_one_Ok)
  let ?mk = "msg_key_at C k0 (unat ?n)" and ?ck = "chain_key C k0 (unat ?n)"
  let ?ch = "ch\<lparr>c_key := ?ck, message_number := ?n\<rparr>"
  let ?ch2 = "?ch\<lparr>skipped_keys := AList.update ?n ?mk (skipped_keys ch)\<rparr>"
  have step: "skip_loop C tgt (Suc rounds) ch fk =
      (if ?n < tgt then skip_loop C tgt rounds ?ch2 fk else skip_loop C tgt rounds ?ch ?mk)"
    using a Suc.prems(2) by (simp add: derive_key_kdf [OF C] Let_def n chain_key_Suc message_key_Suc)
  have w: "?n = m \<longleftrightarrow> Suc (unat (message_number ch)) = unat m" for m
    by (metis n word_unat_eq_iff)
  show ?case
  proof (cases "rounds = 0")
    case True
    then have "?n = tgt" using Suc.prems(1) w by simp
    then show ?thesis using step True n Suc.prems(1) by (intro exI [of _ ?ch]) auto
  next
    case False
    then have "?n < tgt" using Suc.prems(1) n by (simp add: word_less_nat_alt)
    then have st: "skip_loop C tgt (Suc rounds) ch fk = skip_loop C tgt rounds ?ch2 fk"
      using step by (simp only: if_True)
    obtain ch' where ch': "skip_loop C tgt rounds ?ch2 fk = Ok (ch', if rounds = 0 then fk else msg_key_at C k0 (unat tgt))"
      "message_number ch' = tgt" "c_key ch' = chain_key C k0 (unat tgt)"
      "\<forall>m. map_of (skipped_keys ch') m =
        (if unat ?n < unat m \<and> unat m < unat tgt then Some (msg_key_at C k0 (unat m)) else map_of (skipped_keys ?ch2) m)"
      using Suc.IH [of ?ch2 fk] Suc.prems(1) n by auto
    have "map_of (skipped_keys ch') m =
        (if unat (message_number ch) < unat m \<and> unat m < unat tgt then Some (msg_key_at C k0 (unat m))
         else map_of (skipped_keys ch) m)" for m
    proof (cases "m = ?n")
      case True
      then show ?thesis using ch'(4) n Suc.prems(1) False by simp
    next
      case ne: False
      then have "unat m \<noteq> Suc (unat (message_number ch))" using w [of m] by auto
      then show ?thesis using ch'(4) n ne by auto
    qed
    then show ?thesis unfolding st using ch'(1-3) False by (intro exI [of _ ch']) simp
  qed
qed

text \<open>
  Picking a key, in the abstract: a number beyond the chain's by at most \<open>MAX_SKIP\<close>, or one that
  was skipped and not used, gives that number's key and uses it up.
\<close>

lemma receive_key_eq:
  assumes C: "hkdf_ok C" and inv: "chain_inv C k0 used ch" and room: "unat (message_number ch) < 2 ^ 32 - 1"
    and n: "0 < unat n"
  shows "\<exists>ch'. receive_key C n ch =
     (if unat n \<in> used then (ch, Err (Msg ''Message number is too old''))
      else if unat (message_number ch) + 2048 < unat n then (ch, Err (Msg ''message gap too large''))
      else (ch', Ok (msg_key_at C k0 (unat n)))) \<and>
    (unat n \<notin> used \<and> unat n \<le> unat (message_number ch) + 2048 \<longrightarrow>
       chain_inv C k0 (insert (unat n) used) ch' \<and>
       unat (message_number ch') = max (unat (message_number ch)) (unat n))"
proof -
  let ?N = "message_number ch"
  have key: "c_key ch = chain_key C k0 (unat ?N)" and us: "\<forall>i \<in> used. 1 \<le> i \<and> i \<le> unat ?N"
    and sk: "map_of (skipped_keys ch) m = (if 1 \<le> unat m \<and> unat m \<le> unat ?N \<and> unat m \<notin> used
         then Some (msg_key_at C k0 (unat m)) else None)" for m
    using inv by (auto simp: chain_inv_def)
  have a: "add_or_panic ?N 1 = Ok (?N + 1)" using room by (simp add: add_or_panic_def)
  then have s: "unat (?N + 1) = Suc (unat ?N)" by (simp only: add_one_Ok)
  consider (old) "unat n \<le> unat ?N" | (nxt) "unat n = Suc (unat ?N)" | (gap) "Suc (unat ?N) < unat n" by linarith
  then show ?thesis
  proof cases
    case old
    then have o: "n \<noteq> ?N + 1" "\<not> n > ?N + 1" using s by (auto simp: word_less_nat_alt)
    let ?ch = "ch\<lparr>skipped_keys := AList.delete n (skipped_keys ch)\<rparr>"
    show ?thesis
    proof (cases "unat n \<in> used")
      case True
      then show ?thesis using o a sk [of n] by (simp add: receive_key_def)
    next
      case False
      have "receive_key C n ch = (?ch, Ok (msg_key_at C k0 (unat n)))"
        using o a sk [of n] False old n by (simp add: receive_key_def try_skipped_def)
      moreover have "chain_inv C k0 (insert (unat n) used) ?ch"
        using key us sk old n by (auto simp: chain_inv_def simp flip: word_unat_eq_iff)
      ultimately show ?thesis using False old by (intro exI [of _ ?ch]) simp
    qed
  next
    case nxt
    then have e: "n = ?N + 1" using s by (simp add: word_unat_eq_iff)
    obtain m where m: "unat m = Suc (unat ?N)"
      "chain_advance C ch = Ok (ch\<lparr>c_key := chain_key C k0 (unat m), message_number := m\<rparr>, m, msg_key_at C k0 (unat m))"
      using chain_advance_eq [OF C key room] by blast
    have "m = n" using m(1) nxt by (simp add: word_unat_eq_iff)
    let ?ch = "ch\<lparr>c_key := chain_key C k0 (unat n), message_number := n\<rparr>"
    have "receive_key C n ch = (?ch, Ok (msg_key_at C k0 (unat n)))"
      using a e m(2) \<open>m = n\<close> by (simp add: receive_key_def)
    moreover have "chain_inv C k0 (insert (unat n) used) ?ch"
      using us sk nxt by (auto simp: chain_inv_def)
    moreover have "unat n \<notin> used" using us nxt by auto
    ultimately show ?thesis using nxt by (intro exI [of _ ?ch]) simp
  next
    case gap
    then have g: "n \<noteq> ?N + 1" "n > ?N + 1" using s by (auto simp: word_less_nat_alt)
    have nu: "unat n \<notin> used" using us gap by auto
    have le: "?N \<le> n" using gap by (simp add: word_le_nat_alt)
    have d: "sub_or_panic n ?N = Ok (n - ?N)" "unat (n - ?N) = unat n - unat ?N"
      using le by (simp_all add: sub_or_panic_def unat_sub)
    have big: "n - ?N > MAX_SKIP \<longleftrightarrow> unat ?N + 2048 < unat n"
      using gap by (auto simp: MAX_SKIP_def word_less_nat_alt d(2))
    show ?thesis
    proof (cases "unat ?N + 2048 < unat n")
      case True
      then show ?thesis using g a d(1) big nu by (simp add: receive_key_def chain_skip_to_def)
    next
      case False
      obtain ch' where ch': "skip_loop C n (unat (n - ?N)) ch zero_arr = Ok (ch', if unat (n - ?N) = 0 then zero_arr else msg_key_at C k0 (unat n))"
        "message_number ch' = n" "c_key ch' = chain_key C k0 (unat n)"
        "\<forall>m. map_of (skipped_keys ch') m =
          (if unat ?N < unat m \<and> unat m < unat n then Some (msg_key_at C k0 (unat m)) else map_of (skipped_keys ch) m)"
        using skip_loop_eq [OF C, of ch "unat (n - ?N)" n k0 zero_arr] d(2) gap key by auto
      have "receive_key C n ch = (ch', Ok (msg_key_at C k0 (unat n)))"
        using g a d gap False big ch'(1) by (simp add: receive_key_def chain_skip_to_def)
      moreover have "chain_inv C k0 (insert (unat n) used) ch'"
        using us sk ch'(2-4) gap by (auto simp: chain_inv_def)
      ultimately show ?thesis using nu False gap ch'(2) by (intro exI [of _ ch']) simp
    qed
  qed
qed

section \<open>The double ratchet\<close>

definition MAX_SAVED_CHAINS :: nat where "MAX_SAVED_CHAINS = 8"

type_synonym chain_map = "(32 arr, chain \<times> u64) hash_map"

record double_ratchet =
  root_key :: "32 arr"
  sending_chain :: chain
  receiving_chains :: chain_map
  our_dh_priv :: "32 arr"
  their_dh_pub :: "32 arr"

definition kdf_rk :: "crypto \<Rightarrow> 32 arr \<Rightarrow> 32 arr \<Rightarrow> (32 arr \<times> 32 arr) res" where
  "kdf_rk C rk dh_out =
     and_then (unwrap (hkdf_expand C (Some (bytes_of rk)) (bytes_of dh_out) (ascii ''WhisperRatchet'') 64)) (\<lambda>output.
     and_then (sub_arr output 0 32) (\<lambda>a.
     and_then (unwrap (try_arr (drop 32 output))) (\<lambda>b. Ok (a, b))))"

definition update_receiving_chain_timestamp :: "u64 \<Rightarrow> 32 arr \<Rightarrow> chain_map \<Rightarrow> chain_map" where
  "update_receiving_chain_timestamp unix pub m =
     (case map_of m pub of None \<Rightarrow> m | Some (ch, _) \<Rightarrow> AList.update pub (ch, unix) m)"

definition insert_receiving_chain :: "u64 \<Rightarrow> 32 arr \<Rightarrow> 32 arr \<Rightarrow> chain_map \<Rightarrow> chain_map" where
  "insert_receiving_chain unix pub key m =
     AList.update pub (chain_new key, unix)
       (if length m \<ge> MAX_SAVED_CHAINS then evict_oldest snd m else m)"

definition dr_encrypt :: "crypto \<Rightarrow> 12 arr \<Rightarrow> bytes \<Rightarrow> double_ratchet \<Rightarrow>
    double_ratchet \<times> (u32 \<times> bytes \<times> 12 arr \<times> 32 arr) res" where
  "dr_encrypt C rnd plaintext r =
     (case chain_advance C (sending_chain r) of
        Ok (ch, n, message_key) \<Rightarrow>
          (r\<lparr>sending_chain := ch\<rparr>,
           and_then (cipher_encrypt C rnd plaintext message_key) (\<lambda>(ciphertext, nonce).
             Ok (n, ciphertext, nonce, x_pub C (our_dh_priv r))))
      | Err e \<Rightarrow> (r, Err e)
      | Panic \<Rightarrow> (r, Panic))"

text \<open>\<open>fresh\<close> is the new secret of \<open>StaticSecret::random()\<close>.\<close>

definition dh_ratchet_step :: "crypto \<Rightarrow> 32 arr \<Rightarrow> u64 \<Rightarrow> 32 arr \<Rightarrow> double_ratchet \<Rightarrow> double_ratchet res" where
  "dh_ratchet_step C fresh unix pub r =
     and_then (kdf_rk C (root_key r) (x_dh C (our_dh_priv r) pub)) (\<lambda>(root_after_recv, recv_key).
     and_then (kdf_rk C root_after_recv (x_dh C fresh pub)) (\<lambda>(root_final, send_key).
       Ok \<lparr>root_key = root_final, sending_chain = chain_new send_key,
          receiving_chains = insert_receiving_chain unix pub recv_key (receiving_chains r),
          our_dh_priv = fresh, their_dh_pub = pub\<rparr>))"

definition dr_decrypt :: "crypto \<Rightarrow> 32 arr \<Rightarrow> u64 \<Rightarrow> u32 \<Rightarrow> 32 arr \<Rightarrow> 12 arr \<Rightarrow> bytes \<Rightarrow> double_ratchet \<Rightarrow>
    double_ratchet \<times> bytes res" where
  "dr_decrypt C fresh unix n pub nonce ciphertext r =
     (case (if their_dh_pub r \<noteq> pub then dh_ratchet_step C fresh unix pub r else Ok r) of
        Ok r \<Rightarrow>
          (let r = r\<lparr>receiving_chains := update_receiving_chain_timestamp unix pub (receiving_chains r)\<rparr> in
           case map_of (receiving_chains r) pub of
             None \<Rightarrow> (r, Err (Msg ''No receiving chain for this DH pubkey''))
           | Some (ch, ts) \<Rightarrow>
               (let (ch', key) = receive_key C n ch;
                    r = r\<lparr>receiving_chains := AList.update pub (ch', ts) (receiving_chains r)\<rparr>
                in (r, and_then key (\<lambda>message_key. cipher_decrypt C ciphertext nonce message_key))))
      | Err e \<Rightarrow> (r, Err e)
      | Panic \<Rightarrow> (r, Panic))"

definition dr_new :: "crypto \<Rightarrow> u64 \<Rightarrow> 32 arr \<Rightarrow> 32 arr \<Rightarrow> 32 arr \<Rightarrow> double_ratchet res" where
  "dr_new C unix shared_secret priv pub =
     (case derive_key C (bytes_of shared_secret) None (ascii ''init-chain'') of
        Ok initial_chain_key \<Rightarrow>
          Ok \<lparr>root_key = shared_secret, sending_chain = chain_new initial_chain_key,
             receiving_chains = insert_receiving_chain unix pub initial_chain_key [],
             our_dh_priv = priv, their_dh_pub = pub\<rparr>
      | _ \<Rightarrow> Panic)"

definition initiator_pre_ratchet :: "crypto \<Rightarrow> 32 arr \<Rightarrow> double_ratchet \<Rightarrow> double_ratchet res" where
  "initiator_pre_ratchet C fresh r =
     and_then (kdf_rk C (root_key r) (x_dh C fresh (their_dh_pub r))) (\<lambda>(new_root, send_key).
       Ok (r\<lparr>root_key := new_root, sending_chain := chain_new send_key, our_dh_priv := fresh\<rparr>))"

subsection \<open>The key schedule\<close>

lemma kdf_rk_total: "hkdf_ok C \<Longrightarrow> \<exists>a b. kdf_rk C rk d = Ok (a, b)"
proof -
  assume "hkdf_ok C"
  moreover have "(64 :: nat) \<le> 8160" by simp
  ultimately obtain okm where "hkdf_expand C (Some (bytes_of rk)) (bytes_of d) (ascii ''WhisperRatchet'') 64 = Some okm" "length okm = 64"
    unfolding hkdf_ok_def by blast
  then show ?thesis by (simp add: kdf_rk_def)
qed

definition root_of :: "crypto \<Rightarrow> 32 arr \<Rightarrow> 32 arr \<Rightarrow> 32 arr" where
  "root_of C rk d = (case kdf_rk C rk d of Ok (a, b) \<Rightarrow> a | _ \<Rightarrow> rk)"

definition chain_of :: "crypto \<Rightarrow> 32 arr \<Rightarrow> 32 arr \<Rightarrow> 32 arr" where
  "chain_of C rk d = (case kdf_rk C rk d of Ok (a, b) \<Rightarrow> b | _ \<Rightarrow> rk)"

lemma kdf_rk_eq: "hkdf_ok C \<Longrightarrow> kdf_rk C rk d = Ok (root_of C rk d, chain_of C rk d)"
  using kdf_rk_total [of C rk d] by (auto simp: root_of_def chain_of_def)

lemma dh_ratchet_step_eq:
  "hkdf_ok C \<Longrightarrow> dh_ratchet_step C fresh unix pub r =
     Ok \<lparr>root_key = root_of C (root_of C (root_key r) (x_dh C (our_dh_priv r) pub)) (x_dh C fresh pub),
         sending_chain = chain_new (chain_of C (root_of C (root_key r) (x_dh C (our_dh_priv r) pub)) (x_dh C fresh pub)),
         receiving_chains = insert_receiving_chain unix pub (chain_of C (root_key r) (x_dh C (our_dh_priv r) pub)) (receiving_chains r),
         our_dh_priv = fresh, their_dh_pub = pub\<rparr>"
  by (simp add: dh_ratchet_step_def kdf_rk_eq)

text \<open>The saved chains: at most eight, for distinct keys, in every state.\<close>

definition ratchet_ok :: "double_ratchet \<Rightarrow> bool" where
  "ratchet_ok r \<longleftrightarrow> hm_ok (receiving_chains r) \<and> length (receiving_chains r) \<le> MAX_SAVED_CHAINS"

lemma insert_chain_ok: "hm_ok m \<Longrightarrow> hm_ok (insert_receiving_chain unix pub key m)"
  by (simp add: insert_receiving_chain_def)

lemma insert_chain_length:
  assumes "hm_ok m" and "length m \<le> MAX_SAVED_CHAINS"
  shows "length (insert_receiving_chain unix pub key m) \<le> MAX_SAVED_CHAINS"
proof -
  have "length (if length m \<ge> MAX_SAVED_CHAINS then evict_oldest snd m else m) < MAX_SAVED_CHAINS"
    by (rule evict_below_cap [OF assms]) (simp add: MAX_SAVED_CHAINS_def)
  then show ?thesis by (simp add: insert_receiving_chain_def length_update)
qed

lemma insert_chain_self [simp]:
  "map_of (insert_receiving_chain unix pub key m) pub = Some (chain_new key, unix)"
  by (simp add: insert_receiving_chain_def)

lemma timestamp_props:
  "hm_ok m \<Longrightarrow> hm_ok (update_receiving_chain_timestamp unix pub m)"
  "length (update_receiving_chain_timestamp unix pub m) = length m"
  "map_of (update_receiving_chain_timestamp unix pub m) k =
     (if k = pub then map_option (\<lambda>(ch, _). (ch, unix)) (map_of m k) else map_of m k)"
  by (auto simp: update_receiving_chain_timestamp_def length_update split: option.splits)

lemma dh_ratchet_step_ok: "ratchet_ok r \<Longrightarrow> dh_ratchet_step C fresh unix pub r = Ok r' \<Longrightarrow> ratchet_ok r'"
  by (auto simp: dh_ratchet_step_def res_simps ratchet_ok_def insert_chain_ok insert_chain_length)

lemma dr_decrypt_ok:
  assumes "ratchet_ok r" and "dr_decrypt C fresh unix n pub nonce ct r = (r', out)"
  shows "ratchet_ok r'"
proof -
  have u: "ratchet_ok (q\<lparr>receiving_chains := AList.update p v (update_receiving_chain_timestamp unix p (receiving_chains q))\<rparr>)"
    if "ratchet_ok q" "map_of (update_receiving_chain_timestamp unix p (receiving_chains q)) p = Some w" for q v w p
    using that by (auto simp: ratchet_ok_def timestamp_props length_update split: option.splits)
  have t: "ratchet_ok (q\<lparr>receiving_chains := update_receiving_chain_timestamp unix p (receiving_chains q)\<rparr>)"
    if "ratchet_ok q" for q p using that by (simp add: ratchet_ok_def timestamp_props)
  show ?thesis
    using assms dh_ratchet_step_ok [OF assms(1)]
    by (auto simp: dr_decrypt_def Let_def u t split: res.splits if_splits option.splits prod.splits)
qed

subsection \<open>Two parties in step\<close>

text \<open>
  \<open>ahead C k0 m x y\<close>: \<open>x\<close> has made its ratchet step and sent \<open>m\<close> messages on the new chain that starts
  at \<open>k0\<close>, and \<open>y\<close> has seen none of them.
\<close>

definition ahead :: "crypto \<Rightarrow> 32 arr \<Rightarrow> nat \<Rightarrow> double_ratchet \<Rightarrow> double_ratchet \<Rightarrow> bool" where
  "ahead C k0 m x y \<longleftrightarrow>
     root_key x = root_of C (root_key y) (x_dh C (our_dh_priv x) (x_pub C (our_dh_priv y))) \<and>
     k0 = chain_of C (root_key y) (x_dh C (our_dh_priv x) (x_pub C (our_dh_priv y))) \<and>
     c_key (sending_chain x) = chain_key C k0 m \<and> unat (message_number (sending_chain x)) = m \<and>
     their_dh_pub x = x_pub C (our_dh_priv y) \<and> their_dh_pub y \<noteq> x_pub C (our_dh_priv x)"

lemma dr_encrypt_ahead:
  assumes "hkdf_ok C" and "ahead C k0 m x y" and "m < 2 ^ 32 - 1"
    and "dr_encrypt C rnd plaintext x = (x', Ok (n, ct, nonce, pub))"
  shows "ahead C k0 (Suc m) x' y \<and> unat n = Suc m \<and> pub = x_pub C (our_dh_priv x) \<and> our_dh_priv x' = our_dh_priv x \<and>
    cipher_encrypt C rnd plaintext (msg_key_at C k0 (Suc m)) = Ok (ct, nonce)"
proof -
  have key: "c_key (sending_chain x) = chain_key C k0 (unat (message_number (sending_chain x)))"
    and num: "unat (message_number (sending_chain x)) = m"
    using assms(2) by (auto simp: ahead_def)
  obtain q where q: "unat q = Suc m" "chain_advance C (sending_chain x) =
      Ok ((sending_chain x)\<lparr>c_key := chain_key C k0 (Suc m), message_number := q\<rparr>, q, msg_key_at C k0 (Suc m))"
    using chain_advance_eq [OF assms(1) key] num assms(3) by auto
  then show ?thesis using assms(2,4) by (auto simp: dr_encrypt_def res_simps ahead_def)
qed

lemma dr_decrypt_ahead:
  assumes C: "crypto_ok C" and ah: "ahead C k0 m x y" and n: "1 \<le> unat n" "unat n \<le> 2048"
    and ct: "cipher_encrypt C rnd plaintext (msg_key_at C k0 (unat n)) = Ok (ct, nonce)"
    and fresh: "x_pub C fresh \<noteq> x_pub C (our_dh_priv y)"
  shows "\<exists>y'. dr_decrypt C fresh unix n (x_pub C (our_dh_priv x)) nonce ct y = (y', Ok plaintext) \<and>
    our_dh_priv y' = fresh \<and> (\<exists>k1. ahead C k1 0 y' x) \<and>
    (\<exists>ch. map_of (receiving_chains y') (x_pub C (our_dh_priv x)) = Some (ch, unix) \<and> chain_inv C k0 {unat n} ch) \<and>
    their_dh_pub y' = x_pub C (our_dh_priv x)"
proof -
  have hk: "hkdf_ok C" and ae: "aead_ok C" and dh: "dh_ok C" using C by (simp_all add: crypto_ok_def)
  let ?pub = "x_pub C (our_dh_priv x)"
  have comm: "x_dh C (our_dh_priv y) ?pub = x_dh C (our_dh_priv x) (x_pub C (our_dh_priv y))"
    "x_dh C fresh ?pub = x_dh C (our_dh_priv x) (x_pub C fresh)"
    using dh by (simp_all add: dh_ok_def)
  obtain ch' where ch': "receive_key C n (chain_new k0) = (ch', Ok (msg_key_at C k0 (unat n)))" "chain_inv C k0 {unat n} ch'"
    using receive_key_eq [OF hk chain_inv_new, of k0 n] n by (auto simp: chain_new_def)
  have d: "cipher_decrypt C ct nonce (msg_key_at C k0 (unat n)) = Ok plaintext"
    using cipher_roundtrip [OF ae ct] by blast
  have r0: "root_of C (root_key y) (x_dh C (our_dh_priv y) ?pub) = root_key x"
    and k0: "chain_of C (root_key y) (x_dh C (our_dh_priv y) ?pub) = k0"
    and ne: "their_dh_pub y \<noteq> ?pub" and tx: "their_dh_pub x = x_pub C (our_dh_priv y)"
    using ah by (simp_all add: ahead_def comm)
  let ?rc = "update_receiving_chain_timestamp unix ?pub (insert_receiving_chain unix ?pub k0 (receiving_chains y))"
  let ?y' = "\<lparr>root_key = root_of C (root_key x) (x_dh C fresh ?pub),
         sending_chain = chain_new (chain_of C (root_key x) (x_dh C fresh ?pub)),
         receiving_chains = AList.update ?pub (ch', unix) ?rc,
         our_dh_priv = fresh, their_dh_pub = ?pub\<rparr>"
  have "dr_decrypt C fresh unix n ?pub nonce ct y = (?y', Ok plaintext)"
    using ne by (simp add: dr_decrypt_def dh_ratchet_step_eq [OF hk] r0 k0 Let_def timestamp_props ch'(1) d)
  moreover have "ahead C (chain_of C (root_key x) (x_dh C fresh ?pub)) 0 ?y' x"
    using fresh by (simp add: ahead_def chain_key_def chain_new_def tx)
  ultimately show ?thesis using ch'(2) by auto
qed

section \<open>Properties\<close>







text \<open>The start: both sides build the ratchet from one shared secret, the initiator steps first.\<close>

lemma start_ahead:
  assumes C: "hkdf_ok C"
    and "dr_new C u1 secret a (x_pub C b) = Ok x0" and "initiator_pre_ratchet C f x0 = Ok x"
    and "dr_new C u2 secret b (x_pub C a) = Ok y" and "x_pub C f \<noteq> x_pub C a"
  shows "\<exists>k0. ahead C k0 0 x y \<and> our_dh_priv x = f \<and> our_dh_priv y = b"
  using assms
  by (auto simp: dr_new_def initiator_pre_ratchet_def kdf_rk_eq [OF C] ahead_def chain_new_def chain_key_def
      split: res.splits)

text \<open>One turn: \<open>x\<close> sends, \<open>y\<close> receives with a fresh secret; then it is \<open>y\<close>'s turn.\<close>

definition turn :: "crypto \<Rightarrow> bytes \<Rightarrow> 12 arr \<Rightarrow> 32 arr \<Rightarrow> u64 \<Rightarrow> double_ratchet \<times> double_ratchet \<Rightarrow>
    (double_ratchet \<times> double_ratchet) \<times> bytes res" where
  "turn C plaintext rnd fresh unix s =
     (case s of (x, y) \<Rightarrow>
      case dr_encrypt C rnd plaintext x of
        (x, Ok (n, ct, nonce, pub)) \<Rightarrow>
          (case dr_decrypt C fresh unix n pub nonce ct y of (y, out) \<Rightarrow> ((y, x), out))
      | (x, Err e) \<Rightarrow> ((y, x), Err e)
      | (x, Panic) \<Rightarrow> ((y, x), Panic))"

fun conversation :: "crypto \<Rightarrow> (bytes \<times> 12 arr \<times> 32 arr \<times> u64) list \<Rightarrow> double_ratchet \<times> double_ratchet \<Rightarrow> bytes res list" where
  "conversation C [] s = []"
| "conversation C ((plaintext, rnd, fresh, unix) # ts) s =
     (let (s, out) = turn C plaintext rnd fresh unix s in out # conversation C ts s)"

definition seals_all :: "crypto \<Rightarrow> bool" where
  "seals_all C \<longleftrightarrow> (\<forall>k n p. aead_seal C k n p \<noteq> None)"

lemma turn_ahead:
  assumes C: "crypto_ok C" and seal: "seals_all C" and ah: "ahead C k0 0 x y"
    and fresh: "x_pub C fresh \<noteq> x_pub C (our_dh_priv y)"
  shows "\<exists>x' y' k1. turn C plaintext rnd fresh unix (x, y) = ((y', x'), Ok plaintext) \<and>
    ahead C k1 0 y' x' \<and> our_dh_priv y' = fresh \<and> our_dh_priv x' = our_dh_priv x"
proof -
  have hk: "hkdf_ok C" using C by (simp add: crypto_ok_def)
  have "c_key (sending_chain x) = chain_key C k0 (unat (message_number (sending_chain x)))"
    "unat (message_number (sending_chain x)) < 2 ^ 32 - 1" using ah by (auto simp: ahead_def)
  from chain_advance_eq [OF hk this] obtain ch n mk where adv: "chain_advance C (sending_chain x) = Ok (ch, n, mk)" by blast
  obtain ct where "aead_seal C mk rnd plaintext = Some ct" using seal unfolding seals_all_def by blast
  then have "cipher_encrypt C rnd plaintext mk = Ok (ct, rnd)" by (simp add: cipher_encrypt_def)
  then obtain x' pub where e: "dr_encrypt C rnd plaintext x = (x', Ok (n, ct, rnd, pub))"
    using adv by (simp add: dr_encrypt_def)
  note s = dr_encrypt_ahead [OF hk ah _ e]
  then have ah': "ahead C k0 1 x' y" and n: "unat n = 1" and pub: "pub = x_pub C (our_dh_priv x')"
    and priv: "our_dh_priv x' = our_dh_priv x"
    and c: "cipher_encrypt C rnd plaintext (msg_key_at C k0 (unat n)) = Ok (ct, rnd)" by simp_all
  obtain y' k1 where "dr_decrypt C fresh unix n pub rnd ct y = (y', Ok plaintext)" "our_dh_priv y' = fresh"
    "ahead C k1 0 y' x'"
  proof -
    have "1 \<le> unat n" "unat n \<le> 2048" using n by simp_all
    from dr_decrypt_ahead [OF C ah' this c fresh, of unix] show thesis using that pub by blast
  qed
  then show ?thesis using e priv by (auto simp: turn_def)
qed

lemma conversation_ahead:
  assumes C: "crypto_ok C" and seal: "seals_all C"
  shows "ahead C k0 0 x y \<Longrightarrow>
    distinct (map (x_pub C) (our_dh_priv y # our_dh_priv x # map (\<lambda>(_, _, f, _). f) ts)) \<Longrightarrow>
    conversation C ts (x, y) = map (\<lambda>(p, _). Ok p) ts"
proof (induction ts arbitrary: k0 x y)
  case (Cons t ts)
  obtain p rnd f u where t: "t = (p, rnd, f, u)" by (metis prod.exhaust)
  have "x_pub C f \<noteq> x_pub C (our_dh_priv y)" using Cons.prems(2) t by auto
  from turn_ahead [OF C seal Cons.prems(1) this] obtain x' y' k1 where
    s: "turn C p rnd f u (x, y) = ((y', x'), Ok p)" "ahead C k1 0 y' x'" "our_dh_priv y' = f" "our_dh_priv x' = our_dh_priv x"
    by blast
  have "distinct (map (x_pub C) (our_dh_priv x' # our_dh_priv y' # map (\<lambda>(_, _, f, _). f) ts))"
    using Cons.prems(2) s t by auto
  from Cons.IH [OF s(2) this] show ?case using s(1) t by simp
qed simp

text \<open>
  C7. The two sides stay in step: from a ratchet that both built from one shared secret, in a
  conversation of any length in which they take turns, every message decrypts to what was sent,
  as long as the fresh secrets have distinct public keys. It rests on Diffie-Hellman commuting and
  on the cipher opening what it sealed.
\<close>

theorem conversation_delivers:
  assumes "crypto_ok C" and "seals_all C"
    and "dr_new C u1 secret a (x_pub C b) = Ok x0" and "initiator_pre_ratchet C f x0 = Ok x"
    and "dr_new C u2 secret b (x_pub C a) = Ok y"
    and "distinct (map (x_pub C) (a # b # f # map (\<lambda>(_, _, f, _). f) ts))"
  shows "conversation C ts (x, y) = map (\<lambda>(p, _). Ok p) ts"
proof -
  have hk: "hkdf_ok C" using assms(1) by (simp add: crypto_ok_def)
  have "x_pub C f \<noteq> x_pub C a" using assms(6) by auto
  from start_ahead [OF hk assms(3-5) this] obtain k0 where
    "ahead C k0 0 x y" "our_dh_priv x = f" "our_dh_priv y = b" by blast
  moreover from this have "distinct (map (x_pub C) (our_dh_priv y # our_dh_priv x # map (\<lambda>(_, _, f, _). f) ts))"
    using assms(6) by auto
  ultimately show ?thesis using conversation_ahead [OF assms(1,2)] by blast
qed

definition demo_key :: "u8 \<Rightarrow> 32 arr" where
  "demo_key b = arr_of (replicate 31 0 @ [b])"

lemma demo_key_eq [simp]: "demo_key a = demo_key b \<longleftrightarrow> a = b"
  by (simp add: demo_key_def arr_of_eq_iff)

theorem conversation_delivers_witness:
  "\<exists>x y. conversation demo_crypto [([104, 105], zero_arr, demo_key 4, 1), ([121, 111], zero_arr, demo_key 5, 2)] (x, y) =
     [Ok [104, 105], Ok [121, 111]]"
proof -
  have hk: "hkdf_ok demo_crypto" using demo_crypto_ok by (simp add: crypto_ok_def)
  obtain k where k: "derive_key demo_crypto (bytes_of (demo_key 9)) None (ascii ''init-chain'') = Ok k"
    using derive_key_total [OF hk] by blast
  obtain x0 where x0: "dr_new demo_crypto 0 (demo_key 9) (demo_key 1) (x_pub demo_crypto (demo_key 2)) = Ok x0"
    by (simp add: dr_new_def k)
  obtain x where x: "initiator_pre_ratchet demo_crypto (demo_key 3) x0 = Ok x"
    by (simp add: initiator_pre_ratchet_def kdf_rk_eq [OF hk])
  obtain y where y: "dr_new demo_crypto 0 (demo_key 9) (demo_key 2) (x_pub demo_crypto (demo_key 1)) = Ok y"
    by (simp add: dr_new_def k)
  have "seals_all demo_crypto" by (simp add: seals_all_def demo_crypto_def)
  from conversation_delivers [OF demo_crypto_ok this x0 x y,
      of "[([104, 105], zero_arr, demo_key 4, 1), ([121, 111], zero_arr, demo_key 5, 2)]"]
  show ?thesis by (auto simp: demo_crypto_def)
qed

text \<open>
  C40. Any message under another ratchet key than the last one, authentic or forged, late or new,
  replaces the root key, our own key and the sending chain before it is authenticated; and it is
  decrypted under a fresh chain, so that the chains saved for earlier keys are never used: the
  result is the same whatever was saved.
\<close>

theorem other_key_resets_ratchet:
  assumes "hkdf_ok C" and "pub \<noteq> their_dh_pub r"
    and "dr_decrypt C fresh unix n pub nonce ct r = (r', out)"
  shows "our_dh_priv r' = fresh \<and> their_dh_pub r' = pub \<and>
    root_key r' = root_of C (root_of C (root_key r) (x_dh C (our_dh_priv r) pub)) (x_dh C fresh pub) \<and>
    sending_chain r' = chain_new (chain_of C (root_of C (root_key r) (x_dh C (our_dh_priv r) pub)) (x_dh C fresh pub)) \<and>
    out = and_then (snd (receive_key C n (chain_new (chain_of C (root_key r) (x_dh C (our_dh_priv r) pub)))))
      (cipher_decrypt C ct nonce)"
proof -
  have ne: "their_dh_pub r \<noteq> pub" using assms(2) by simp
  show ?thesis
    using assms(3) ne
    by (auto simp: dr_decrypt_def dh_ratchet_step_eq [OF assms(1)] Let_def timestamp_props split: prod.splits)
qed

theorem other_key_resets_ratchet_witness:
  "our_dh_priv (fst (dr_decrypt demo_crypto (demo_key 7) 1 1 (demo_key 8) zero_arr []
     \<lparr>root_key = zero_arr, sending_chain = chain_new zero_arr, receiving_chains = [],
      our_dh_priv = demo_key 1, their_dh_pub = demo_key 2\<rparr>)) = demo_key 7"
proof -
  let ?r = "\<lparr>root_key = zero_arr, sending_chain = chain_new zero_arr, receiving_chains = [],
      our_dh_priv = demo_key 1, their_dh_pub = demo_key 2\<rparr>"
  have hk: "hkdf_ok demo_crypto" using demo_crypto_ok by (simp add: crypto_ok_def)
  obtain r' out where d: "dr_decrypt demo_crypto (demo_key 7) 1 1 (demo_key 8) zero_arr [] ?r = (r', out)"
    by (metis prod.exhaust)
  have "demo_key 8 \<noteq> their_dh_pub ?r" by simp
  from other_key_resets_ratchet [OF hk this d] d show ?thesis by simp
qed

end
