(* ===== verification/Session.thy ===== *)
theory Session
  imports Ratchet Identity Packets
begin

text \<open>
  crypto/handshake.rs and protocol/session.rs. The Noise\_IK state of the snow package is a type
  parameter \<open>'hs\<close> with its operations in \<open>noise\<close>; \<open>noise_ok\<close> states what an IK handshake gives.
  Lemmas: what a completed handshake has checked, what it has not, and that the two sides of one
  handshake end with the same connection id and with ratchets in step, so that messages arrive.
\<close>

section \<open>handshake.rs\<close>

text \<open>
  The calls into snow, into buffers of 1024 bytes: building the two sides from keys, writing a
  payload (with the ephemeral secret drawn for it), reading one, the handshake hash, whether the
  state can go to transport mode, and the remote static key then.
\<close>

record 'hs noise =
  n_initiator :: "bytes \<Rightarrow> bytes \<Rightarrow> 'hs option"
  n_responder :: "bytes \<Rightarrow> 'hs option"
  n_write :: "32 arr \<Rightarrow> 'hs \<Rightarrow> bytes \<Rightarrow> 'hs \<times> bytes option"
  n_read :: "'hs \<Rightarrow> bytes \<Rightarrow> 'hs \<times> bytes option"
  n_hash :: "'hs \<Rightarrow> 32 arr"
  n_finished :: "'hs \<Rightarrow> bool"
  n_remote_static :: "'hs \<Rightarrow> 32 arr option"

record 'hs party =
  handshake :: "'hs option"

record handshake_result =
  hr_hash :: "32 arr"
  hr_remote_static :: "32 arr"
  hr_peer_payload :: bytes

definition initiator_new :: "'hs noise \<Rightarrow> bytes \<Rightarrow> bytes \<Rightarrow> 'hs party res" where
  "initiator_new N priv peer = map_res (\<lambda>h. \<lparr>handshake = Some h\<rparr>)
     (ok_or (n_initiator N priv peer) (Msg ''failed to build initiator''))"

definition initiator_initiate :: "'hs noise \<Rightarrow> 32 arr \<Rightarrow> bytes \<Rightarrow> 'hs party \<Rightarrow> 'hs party \<times> bytes res" where
  "initiator_initiate N eph body p =
     (case handshake p of
        None \<Rightarrow> (p, Err (Msg ''handshake already completed''))
      | Some h \<Rightarrow>
          (let (h, outgoing) = n_write N eph h body
           in (p\<lparr>handshake := Some h\<rparr>, ok_or outgoing (Msg ''handshake initiation failed''))))"

text \<open>The common end of \<open>finish\<close> and \<open>reply\<close>.\<close>

definition into_result :: "'hs noise \<Rightarrow> 'hs \<Rightarrow> bytes \<Rightarrow> handshake_result res" where
  "into_result N h peer_payload =
     (if \<not> n_finished N h then Err (Msg ''transition to transport mode failed'')
      else and_then (ok_or (n_remote_static N h) (Msg ''remote static key not available after handshake'')) (\<lambda>rs.
        Ok \<lparr>hr_hash = n_hash N h, hr_remote_static = rs, hr_peer_payload = peer_payload\<rparr>))"

definition initiator_finish :: "'hs noise \<Rightarrow> bytes \<Rightarrow> 'hs party \<Rightarrow> handshake_result res" where
  "initiator_finish N response p =
     and_then (ok_or (handshake p) (Msg ''handshake already completed'')) (\<lambda>h.
       let (h, out) = n_read N h response in
       and_then (ok_or out (Msg ''handshake response failed'')) (into_result N h))"

definition responder_new :: "'hs noise \<Rightarrow> bytes \<Rightarrow> 'hs party res" where
  "responder_new N priv = map_res (\<lambda>h. \<lparr>handshake = Some h\<rparr>)
     (ok_or (n_responder N priv) (Msg ''failed to build responder''))"

definition responder_accept :: "'hs noise \<Rightarrow> bytes \<Rightarrow> 'hs party \<Rightarrow> 'hs party \<times> bytes res" where
  "responder_accept N incoming p =
     (case handshake p of
        None \<Rightarrow> (p, Err (Msg ''handshake already completed''))
      | Some h \<Rightarrow>
          (let (h, out) = n_read N h incoming
           in (p\<lparr>handshake := Some h\<rparr>, ok_or out (Msg ''handshake accept failed''))))"

definition responder_reply :: "'hs noise \<Rightarrow> 32 arr \<Rightarrow> bytes \<Rightarrow> 'hs party \<Rightarrow> (bytes \<times> handshake_result) res" where
  "responder_reply N eph body p =
     and_then (ok_or (handshake p) (Msg ''handshake already completed'')) (\<lambda>h.
       let (h, out) = n_write N eph h body in
       and_then (ok_or out (Msg ''handshake reply failed'')) (\<lambda>outgoing.
       and_then (into_result N h []) (\<lambda>r. Ok (outgoing, r))))"

section \<open>session.rs\<close>

record 'hs session =
  s_initiator :: "'hs party option"
  s_responder :: "'hs party option"
  s_ratchet :: "double_ratchet option"
  s_handshake_hash :: "32 arr option"
  s_remote_static :: "32 arr option"
  s_our_ratchet_dh_priv :: "32 arr option"
  s_their_ratchet_dh_pub :: "32 arr option"
  s_our_cert :: device_cert
  s_our_master_pubkey :: "32 arr option"
  s_peer_cert :: "device_cert option"
  s_peer_user_id :: "user_id option"
  s_peer_master_pubkey :: "32 arr option"
  s_peer_addr :: "socket_addr option"
  s_connection_id :: "16 arr option"

definition derive_connection_id :: "crypto \<Rightarrow> 32 arr \<Rightarrow> 16 arr res" where
  "derive_connection_id C h =
     map_res arr_of (unwrap (hkdf_expand C None (bytes_of h) (ascii ''connection-id'') 16))"

definition derive_root_key :: "crypto \<Rightarrow> 32 arr \<Rightarrow> 32 arr \<Rightarrow> 32 arr \<Rightarrow> 32 arr res" where
  "derive_root_key C h our_priv their_pub =
     map_res arr_of (unwrap (hkdf_expand C (Some (bytes_of h)) (bytes_of (x_dh C our_priv their_pub))
       (ascii ''insub-ratchet-root'') 32))"

definition new_initiator :: "'hs noise \<Rightarrow> 32 arr \<Rightarrow> 32 arr \<Rightarrow> device_cert \<Rightarrow> 32 arr \<Rightarrow> user_id \<Rightarrow> 'hs session res" where
  "new_initiator N priv peer_pub our_cert our_master peer_user =
     and_then (initiator_new N (bytes_of priv) (bytes_of peer_pub)) (\<lambda>i.
       Ok \<lparr>s_initiator = Some i, s_responder = None, s_ratchet = None, s_handshake_hash = None,
          s_remote_static = None, s_our_ratchet_dh_priv = None, s_their_ratchet_dh_pub = None,
          s_our_cert = our_cert, s_our_master_pubkey = Some our_master, s_peer_cert = None,
          s_peer_user_id = Some peer_user, s_peer_master_pubkey = None, s_peer_addr = None,
          s_connection_id = None\<rparr>)"

definition new_responder :: "'hs noise \<Rightarrow> 32 arr \<Rightarrow> device_cert \<Rightarrow> 32 arr \<Rightarrow> 'hs session res" where
  "new_responder N priv our_cert our_master =
     and_then (responder_new N (bytes_of priv)) (\<lambda>r.
       Ok \<lparr>s_initiator = None, s_responder = Some r, s_ratchet = None, s_handshake_hash = None,
          s_remote_static = None, s_our_ratchet_dh_priv = None, s_their_ratchet_dh_pub = None,
          s_our_cert = our_cert, s_our_master_pubkey = Some our_master, s_peer_cert = None,
          s_peer_user_id = None, s_peer_master_pubkey = None, s_peer_addr = None,
          s_connection_id = None\<rparr>)"

definition initiate_handshake ::
    "'hs noise \<Rightarrow> crypto \<Rightarrow> 32 arr \<Rightarrow> 32 arr \<Rightarrow> socket_addr \<Rightarrow> 'hs session \<Rightarrow> 'hs session \<times> bytes res" where
  "initiate_handshake N C secret eph our_addr s =
     (case s_our_master_pubkey s of
        None \<Rightarrow> (s, Err (Msg ''master pubkey not set''))
      | Some master \<Rightarrow>
          (let body = bytes_of (x_pub C secret) @ cert_serialize (s_our_cert s) @ bytes_of master @ write_address our_addr;
               s = s\<lparr>s_our_ratchet_dh_priv := Some secret\<rparr>
           in case s_initiator s of
                None \<Rightarrow> (s, Err (Msg ''Session is not an initiator''))
              | Some i \<Rightarrow>
                  (let (i, out) = initiator_initiate N eph body i in (s\<lparr>s_initiator := Some i\<rparr>, out))))"

text \<open>
  \<open>complete_handshake\<close> takes the initiator out first: whatever fails after that, the session is left
  without one. \<open>fresh\<close> is the secret of the initiator's first ratchet step.
\<close>

definition complete_handshake ::
    "'hs noise \<Rightarrow> crypto \<Rightarrow> 32 arr \<Rightarrow> u64 \<Rightarrow> bytes \<Rightarrow> 'hs session \<Rightarrow> 'hs session \<times> unit res" where
  "complete_handshake N C fresh unix response s =
     (case s_initiator s of
        None \<Rightarrow> (s, Err (Msg ''Session is not an initiator''))
      | Some i \<Rightarrow>
        (let s = s\<lparr>s_initiator := None\<rparr> in
         case
           and_then (initiator_finish N response i) (\<lambda>result.
             let pp = hr_peer_payload result in
             if length pp < 32 + 128 then Err (Msg ''handshake payload too short for certificate'')
             else
               and_then (sub_arr pp 0 32) (\<lambda>their_ratchet_pub.
               and_then (sub_from pp 32) (\<lambda>cert_bytes.
               and_then (map_err (Wrap ''bad peer device certificate: {e}'') (cert_from_serialized C cert_bytes)) (\<lambda>peer_cert.
                 if device_x25519_pubkey peer_cert \<noteq> hr_remote_static result
                 then Err (Msg ''peer certificate x25519 key doesn't match handshake'')
                 else if \<not> pred_option (cert_verify C peer_cert) (s_peer_user_id s)
                 then Err (Msg ''peer device certificate signature invalid'')
                 else Ok (result, their_ratchet_pub, peer_cert)))))
         of
           Err e \<Rightarrow> (s, Err e)
         | Panic \<Rightarrow> (s, Panic)
         | Ok (result, their_ratchet_pub, peer_cert) \<Rightarrow>
           (let s = s\<lparr>s_peer_cert := Some peer_cert\<rparr> in
            case
              and_then (unwrap (s_our_ratchet_dh_priv s)) (\<lambda>priv.
              and_then (derive_root_key C (hr_hash result) priv their_ratchet_pub) (\<lambda>root.
              and_then (dr_new C unix root priv their_ratchet_pub) (\<lambda>r.
              and_then (initiator_pre_ratchet C fresh r) (\<lambda>r.
              and_then (derive_connection_id C (hr_hash result)) (\<lambda>conn. Ok (r, conn))))))
            of
              Err e \<Rightarrow> (s, Err e)
            | Panic \<Rightarrow> (s, Panic)
            | Ok (r, conn) \<Rightarrow>
                (s\<lparr>s_ratchet := Some r, s_handshake_hash := Some (hr_hash result),
                   s_remote_static := Some (hr_remote_static result), s_connection_id := Some conn\<rparr>, Ok ()))))"

text \<open>The \<open>?\<close> of a method: an error or a panic leaves it with the state as it is then.\<close>

definition or_return :: "'s \<Rightarrow> 'a res \<Rightarrow> ('a \<Rightarrow> 's \<times> 'b res) \<Rightarrow> 's \<times> 'b res" where
  "or_return s m f = (case m of Err e \<Rightarrow> (s, Err e) | Panic \<Rightarrow> (s, Panic) | Ok x \<Rightarrow> f x)"

lemma or_return_simps [simp]:
  "or_return s (Ok x) f = f x" "or_return s (Err e) f = (s, Err e)" "or_return s Panic f = (s, Panic)"
  by (simp_all add: or_return_def)

text \<open>The address at the end of the payload of \<open>accept_handshake\<close>.\<close>

definition handshake_addr :: "bytes \<Rightarrow> socket_addr res" where
  "handshake_addr pp =
     and_then (index pp 192) (\<lambda>addr_kind.
       if addr_kind = 4 then
         if length pp < 192 + 7 then Err (Msg ''truncated addr'')
         else
           and_then (sub_arr pp 193 197) (\<lambda>octets.
           and_then (sub_arr pp 197 199) (\<lambda>p :: 2 arr. Ok (V4 octets (from_be (bytes_of p)))))
       else if addr_kind = 6 then
         if length pp < 192 + 19 then Err (Msg ''truncated addr'')
         else
           and_then (sub_arr pp 193 209) (\<lambda>octets.
           and_then (sub_arr pp 209 211) (\<lambda>p :: 2 arr. Ok (V6 octets (from_be (bytes_of p)) 0 0)))
       else Err (Msg ''unknown addr kind''))"

definition accept_handshake :: "'hs noise \<Rightarrow> crypto \<Rightarrow> bytes \<Rightarrow> 'hs session \<Rightarrow> 'hs session \<times> unit res" where
  "accept_handshake N C incoming s =
     (case s_responder s of
        None \<Rightarrow> (s, Err (Msg ''Session is not a responder''))
      | Some p \<Rightarrow>
        (let (p, out) = responder_accept N incoming p; s = s\<lparr>s_responder := Some p\<rparr> in
         or_return s out (\<lambda>pp.
           if length pp < 32 + 128 + 32 + 7 then (s, Err (Msg ''handshake payload too short''))
           else
             or_return s (and_then (sub_bytes pp 0 32) (\<lambda>b. ok_or (try_arr b) (Msg ''invalid ratchet pubkey length''))) (\<lambda>pubkey.
             let s = s\<lparr>s_their_ratchet_dh_pub := Some pubkey\<rparr> in
             or_return s (and_then (sub_bytes pp 32 160) (\<lambda>cert_bytes.
               map_err (Wrap ''bad peer device certificate: {e}'') (cert_from_serialized C cert_bytes))) (\<lambda>peer_cert.
             let s = s\<lparr>s_peer_cert := Some peer_cert\<rparr> in
             or_return s (and_then (sub_bytes pp 160 192) (\<lambda>b. ok_or (try_arr b) (Msg ''invalid master pubkey length''))) (\<lambda>master_pubkey.
             let s = s\<lparr>s_peer_master_pubkey := Some master_pubkey\<rparr> in
             or_return s (handshake_addr pp) (\<lambda>peer_addr. (s\<lparr>s_peer_addr := Some peer_addr\<rparr>, Ok ()))))))))"

text \<open>The length check covers every slice up to the address kind, and each kind's check its own.\<close>

lemma handshake_addr_eq:
  "199 \<le> length pp \<Longrightarrow> handshake_addr pp =
     (if pp ! 192 = 4 then Ok (V4 (arr_of (take 4 (drop 193 pp))) (from_be (take 2 (drop 197 pp))))
      else if pp ! 192 = 6 then
        if length pp < 211 then Err (Msg ''truncated addr'')
        else Ok (V6 (arr_of (take 16 (drop 193 pp))) (from_be (take 2 (drop 209 pp))) 0 0)
      else Err (Msg ''unknown addr kind''))"
  by (simp add: handshake_addr_def)

lemma accept_handshake_unfold:
  "accept_handshake N C incoming s =
     (case s_responder s of
        None \<Rightarrow> (s, Err (Msg ''Session is not a responder''))
      | Some p \<Rightarrow>
        (let (p, out) = responder_accept N incoming p; s = s\<lparr>s_responder := Some p\<rparr> in
         case out of
           Err e \<Rightarrow> (s, Err e)
         | Panic \<Rightarrow> (s, Panic)
         | Ok pp \<Rightarrow>
           if length pp < 199 then (s, Err (Msg ''handshake payload too short''))
           else
             (let s = s\<lparr>s_their_ratchet_dh_pub := Some (arr_of (take 32 pp))\<rparr> in
              case map_err (Wrap ''bad peer device certificate: {e}'') (cert_from_serialized C (take 128 (drop 32 pp))) of
                Err e \<Rightarrow> (s, Err e)
              | Panic \<Rightarrow> (s, Panic)
              | Ok peer_cert \<Rightarrow>
                (let s = s\<lparr>s_peer_cert := Some peer_cert, s_peer_master_pubkey := Some (arr_of (take 32 (drop 160 pp)))\<rparr>
                 in case handshake_addr pp of
                      Err e \<Rightarrow> (s, Err e)
                    | Panic \<Rightarrow> (s, Panic)
                    | Ok a \<Rightarrow> (s\<lparr>s_peer_addr := Some a\<rparr>, Ok ())))))"
  by (auto simp: accept_handshake_def or_return_def Let_def split: option.splits res.splits prod.splits)

definition reply_handshake ::
    "'hs noise \<Rightarrow> crypto \<Rightarrow> 32 arr \<Rightarrow> 32 arr \<Rightarrow> u64 \<Rightarrow> 'hs session \<Rightarrow> 'hs session \<times> bytes res" where
  "reply_handshake N C secret eph unix s =
     (let body = bytes_of (x_pub C secret) @ cert_serialize (s_our_cert s);
          s = s\<lparr>s_our_ratchet_dh_priv := Some secret\<rparr>
      in case s_responder s of
           None \<Rightarrow> (s, Err (Msg ''Session is not a responder''))
         | Some p \<Rightarrow>
           (let s = s\<lparr>s_responder := None\<rparr> in
            case
              and_then (responder_reply N eph body p) (\<lambda>(outgoing, result).
              and_then (unwrap (s_peer_cert s)) (\<lambda>peer_cert.
                if device_x25519_pubkey peer_cert \<noteq> hr_remote_static result
                then Err (Msg ''peer certificate x25519 key doesn't match handshake'')
                else
                  and_then (unwrap (s_their_ratchet_dh_pub s)) (\<lambda>their_pub.
                  and_then (derive_root_key C (hr_hash result) secret their_pub) (\<lambda>root.
                  and_then (dr_new C unix root secret their_pub) (\<lambda>r.
                  and_then (derive_connection_id C (hr_hash result)) (\<lambda>conn.
                    Ok (outgoing, result, r, conn)))))))
            of
              Err e \<Rightarrow> (s, Err e)
            | Panic \<Rightarrow> (s, Panic)
            | Ok (outgoing, result, r, conn) \<Rightarrow>
                (s\<lparr>s_ratchet := Some r, s_handshake_hash := Some (hr_hash result),
                   s_remote_static := Some (hr_remote_static result), s_connection_id := Some conn\<rparr>, Ok outgoing)))"

definition is_initiator :: "'hs session \<Rightarrow> bool" where
  "is_initiator s \<longleftrightarrow> s_initiator s \<noteq> None"

definition is_established :: "'hs session \<Rightarrow> bool" where
  "is_established s \<longleftrightarrow> s_ratchet s \<noteq> None"

definition verify_peer :: "crypto \<Rightarrow> user_id \<Rightarrow> 'hs session \<Rightarrow> bool" where
  "verify_peer C u s = (case s_peer_cert s of None \<Rightarrow> False | Some cert \<Rightarrow> cert_verify C cert u)"

definition session_send :: "crypto \<Rightarrow> 12 arr \<Rightarrow> u128 \<Rightarrow> bytes \<Rightarrow> 'hs session \<Rightarrow> 'hs session \<times> packet res" where
  "session_send C rnd packet_id bs s =
     (case s_our_master_pubkey s of
        None \<Rightarrow> (s, Err (Msg ''master pubkey not set''))
      | Some sender_pk \<Rightarrow>
        (case s_ratchet s of
           None \<Rightarrow> (s, Err (Msg ''Session not established''))
         | Some r \<Rightarrow>
           (let (r, out) = dr_encrypt C rnd (bytes_of sender_pk @ bs) r; s = s\<lparr>s_ratchet := Some r\<rparr> in
            (s, and_then out (\<lambda>(n, ciphertext, nonce, our_dh_pub).
                and_then (ok_or (s_connection_id s) (Msg ''connection ID not set'')) (\<lambda>conn_id.
                  Ok (packet_new 0 packet_id
                    ((payload_new Message (bytes_of nonce @ bytes_of our_dh_pub @ be_bytes 4 n @ ciphertext))
                       \<lparr>connection_id := conn_id\<rparr>))))))))"

definition session_receive ::
    "crypto \<Rightarrow> 32 arr \<Rightarrow> u64 \<Rightarrow> packet \<Rightarrow> 'hs session \<Rightarrow> 'hs session \<times> (bytes \<times> 32 arr) res" where
  "session_receive C fresh unix pkt s =
     (let d = data (payload pkt) in
      if tag (payload pkt) \<noteq> Message then (s, Err (Msg ''expected Message payload, got {:?}''))
      else if length d < 48 then (s, Err (Msg ''packet too short''))
      else
        or_return s (and_then (sub_bytes d 0 12) (\<lambda>b. ok_or (try_arr b) (Msg ''bad nonce''))) (\<lambda>nonce.
        or_return s (and_then (sub_bytes d 12 44) (\<lambda>b. ok_or (try_arr b) (Msg ''bad DH public key''))) (\<lambda>their_dh_pub.
        or_return s (and_then (sub_bytes d 44 48) (\<lambda>b. ok_or (try_arr b) (Msg ''bad message number''))) (\<lambda>n :: 4 arr.
        or_return s (sub_from d 48) (\<lambda>ciphertext.
          case s_ratchet s of
            None \<Rightarrow> (s, Err (Msg ''Session not established''))
          | Some r \<Rightarrow>
              (let (r, out) = dr_decrypt C fresh unix (from_be (bytes_of n)) their_dh_pub nonce ciphertext r;
                   s = s\<lparr>s_ratchet := Some r\<rparr>
               in or_return s (map_err (\<lambda>_. Msg ''Couldn't decrypt the message'') out) (\<lambda>plaintext.
                    if length plaintext < 32 then (s, Err (Msg ''plaintext too short for sender pk''))
                    else
                      (s, and_then (and_then (sub_bytes plaintext 0 32) (\<lambda>b. ok_or (try_arr b) (Msg ''bad sender pk''))) (\<lambda>sender_pk.
                          and_then (sub_from plaintext 32) (\<lambda>bs. Ok (bs, sender_pk)))))))))))"

lemma session_receive_unfold:
  "session_receive C fresh unix pkt s =
     (let d = data (payload pkt) in
      if tag (payload pkt) \<noteq> Message then (s, Err (Msg ''expected Message payload, got {:?}''))
      else if length d < 48 then (s, Err (Msg ''packet too short''))
      else
        (case s_ratchet s of
           None \<Rightarrow> (s, Err (Msg ''Session not established''))
         | Some r \<Rightarrow>
           (let (r, out) = dr_decrypt C fresh unix (from_be (take 4 (drop 44 d))) (arr_of (take 32 (drop 12 d)))
                  (arr_of (take 12 d)) (drop 48 d) r
            in (s\<lparr>s_ratchet := Some r\<rparr>,
                and_then (map_err (\<lambda>_. Msg ''Couldn't decrypt the message'') out) (\<lambda>plaintext.
                  if length plaintext < 32 then Err (Msg ''plaintext too short for sender pk'')
                  else Ok (drop 32 plaintext, arr_of (take 32 plaintext)))))))"
  by (auto simp: session_receive_def or_return_def Let_def split: option.splits res.splits prod.splits)

definition safety_number :: "crypto \<Rightarrow> 32 arr \<Rightarrow> 32 arr \<Rightarrow> 'hs session \<Rightarrow> 32 arr option" where
  "safety_number C ours peers s =
     (case s_handshake_hash s of
        None \<Rightarrow> None
      | Some h \<Rightarrow>
          (let (first, second) = (if ours < peers then (ours, peers) else (peers, ours))
           in Some (sha256 C (bytes_of h @ bytes_of first @ bytes_of second))))"


section \<open>The IK handshake\<close>

text \<open>
  What the Noise\_IK handshake of snow gives two honest sides \<open>a\<close> (initiator) and \<open>b\<close>, for payloads
  that fit the 1024-byte buffers: each message carries its payload over, both end with the same
  hash, and each learns the static key the other really holds.
\<close>

definition noise_ok :: "'hs noise \<Rightarrow> crypto \<Rightarrow> bool" where
  "noise_ok N C \<longleftrightarrow> (\<forall>a b e1 e2 p1 p2. length p1 \<le> 800 \<longrightarrow> length p2 \<le> 800 \<longrightarrow>
     (\<exists>i0 r0 i1 m1 r1 r2 m2 i2.
        n_initiator N (bytes_of a) (bytes_of (x_pub C b)) = Some i0 \<and> n_responder N (bytes_of b) = Some r0 \<and>
        n_write N e1 i0 p1 = (i1, Some m1) \<and> n_read N r0 m1 = (r1, Some p1) \<and>
        n_write N e2 r1 p2 = (r2, Some m2) \<and> n_read N i1 m2 = (i2, Some p2) \<and>
        n_finished N r2 \<and> n_finished N i2 \<and> n_hash N r2 = n_hash N i2 \<and>
        n_remote_static N i2 = Some (x_pub C b) \<and> n_remote_static N r2 = Some (x_pub C a)))"

text \<open>An instance that meets it: keys in the clear, whoever holds the initial message is believed.\<close>

type_synonym demo_noise_state = "bool \<times> 32 arr \<times> 32 arr"

definition demo_noise :: "demo_noise_state noise" where
  "demo_noise = \<lparr>
     n_initiator = \<lambda>own peer. Some (True, arr_of own, arr_of peer),
     n_responder = \<lambda>own. Some (False, arr_of own, zero_arr),
     n_write = \<lambda>_ (i, own, peer) p. ((i, own, peer), Some (if i then bytes_of own @ p else p)),
     n_read = \<lambda>(i, own, peer) m. if i then ((i, own, peer), Some m) else ((i, own, arr_of (take 32 m)), Some (drop 32 m)),
     n_hash = \<lambda>_. zero_arr,
     n_finished = \<lambda>_. True,
     n_remote_static = \<lambda>(_, _, peer). Some peer\<rparr>"

lemma demo_noise_ok: "noise_ok demo_noise demo_crypto"
proof -
  have "\<exists>i0 r0 i1 m1 r1 r2 m2 i2.
        n_initiator demo_noise (bytes_of a) (bytes_of b) = Some i0 \<and> n_responder demo_noise (bytes_of b) = Some r0 \<and>
        n_write demo_noise e1 i0 p1 = (i1, Some m1) \<and> n_read demo_noise r0 m1 = (r1, Some p1) \<and>
        n_write demo_noise e2 r1 p2 = (r2, Some m2) \<and> n_read demo_noise i1 m2 = (i2, Some p2) \<and>
        n_finished demo_noise r2 \<and> n_finished demo_noise i2 \<and> n_hash demo_noise r2 = n_hash demo_noise i2 \<and>
        n_remote_static demo_noise i2 = Some b \<and> n_remote_static demo_noise r2 = Some a" for a b e1 e2 p1 p2
    by (rule exI [of _ "(True, a, b)"], rule exI [of _ "(False, b, zero_arr)"], rule exI [of _ "(True, a, b)"],
        rule exI [of _ "bytes_of a @ p1"], rule exI [of _ "(False, b, a)"], rule exI [of _ "(False, b, a)"],
        rule exI [of _ p2], rule exI [of _ "(True, a, b)"]) (simp add: demo_noise_def)
  then show ?thesis by (simp add: noise_ok_def demo_crypto_def)
qed

section \<open>What each handler does\<close>

lemma derive_connection_id_total: "hkdf_ok C \<Longrightarrow> \<exists>c. derive_connection_id C h = Ok c"
proof -
  assume "hkdf_ok C"
  moreover have "(16 :: nat) \<le> 8160" by simp
  ultimately have "\<exists>okm. hkdf_expand C None (bytes_of h) (ascii ''connection-id'') 16 = Some okm"
    unfolding hkdf_ok_def by blast
  then show ?thesis by (auto simp: derive_connection_id_def)
qed

lemma derive_root_key_total: "hkdf_ok C \<Longrightarrow> \<exists>k. derive_root_key C h a p = Ok k"
proof -
  assume "hkdf_ok C"
  moreover have "(32 :: nat) \<le> 8160" by simp
  ultimately have "\<exists>okm. hkdf_expand C (Some (bytes_of h)) (bytes_of (x_dh C a p)) (ascii ''insub-ratchet-root'') 32 = Some okm"
    unfolding hkdf_ok_def by blast
  then show ?thesis by (auto simp: derive_root_key_def)
qed

lemma root_key_agrees: "dh_ok C \<Longrightarrow> derive_root_key C h a (x_pub C b) = derive_root_key C h b (x_pub C a)"
  by (simp add: derive_root_key_def dh_ok_def)

lemma complete_handshake_checks:
  assumes "complete_handshake N C fresh unix response s = (s', Ok ())"
  shows "\<exists>cert. s_peer_cert s' = Some cert \<and> s_remote_static s' = Some (device_x25519_pubkey cert) \<and>
    (\<forall>u. s_peer_user_id s = Some u \<longrightarrow> cert_verify C cert u) \<and>
    s_peer_user_id s' = s_peer_user_id s \<and> s_initiator s' = None \<and>
    s_ratchet s' \<noteq> None \<and> s_connection_id s' \<noteq> None"
  using assms
  by (cases "s_peer_user_id s") (auto simp: complete_handshake_def Let_def res_simps split: option.splits res.splits if_splits)


text \<open>The initiator's payload, taken apart by \<open>accept_handshake\<close>.\<close>

lemma accept_payload:
  fixes rp m :: "32 arr"
  assumes pp: "pp = bytes_of rp @ cert_serialize ca @ bytes_of m @ write_address addr"
  shows "32 + 128 + 32 + 7 \<le> length pp" "take 32 pp = bytes_of rp" "take 128 (drop 32 pp) = cert_serialize ca"
    "take 32 (drop 160 pp) = bytes_of m" "pp ! 192 = write_address addr ! 0" "drop 193 pp = drop 1 (write_address addr)"
    "length pp = 192 + length (write_address addr)"
    "drop 192 pp = write_address addr"
  by (cases addr; simp add: pp nth_append)+

lemma accept_handshake_eq:
  assumes p: "s_responder s = Some p" "handshake p = Some h" and r: "n_read N h msg = (h', Some pp)"
    and pp: "pp = bytes_of rp @ cert_serialize ca @ bytes_of m @ write_address addr" and ca: "cert_ok C ca"
  shows "accept_handshake N C msg s =
    (s\<lparr>s_responder := Some \<lparr>handshake = Some h'\<rparr>, s_their_ratchet_dh_pub := Some rp, s_peer_cert := Some ca,
       s_peer_master_pubkey := Some m, s_peer_addr := Some (canon_addr addr)\<rparr>, Ok ())"
proof -
  note a = accept_payload [OF pp]
  have d: "drop 197 pp = drop 5 (write_address addr)" "drop 209 pp = drop 17 (write_address addr)"
    by (simp_all flip: a(8))
  have p': "responder_accept N msg p = (\<lparr>handshake = Some h'\<rparr>, Ok pp)"
    using p(2) r by (cases p) (simp add: responder_accept_def)
  have c: "map_err e (cert_from_serialized C (cert_serialize ca)) = Ok ca" for e
    using cert.dec_enc [OF ca] by simp
  show ?thesis
  proof (cases addr)
    case (V4 ip port)
    then show ?thesis
      using a(1) by (simp add: accept_handshake_unfold handshake_addr_eq p(1) p' a(2-6) d c Let_def from_be_be_bytes)
  next
    case (V6 ip port f sc)
    then show ?thesis
      using a(1) by (simp add: accept_handshake_unfold handshake_addr_eq p(1) p' a(2-7) d c Let_def from_be_be_bytes)
  qed
qed


section \<open>Both sides of one handshake\<close>

text \<open>The four handlers in the order of the protocol, each given what the previous one sent.\<close>

definition establish ::
    "'hs noise \<Rightarrow> crypto \<Rightarrow> 32 arr \<times> 32 arr \<times> 32 arr \<Rightarrow> 32 arr \<times> 32 arr \<Rightarrow> socket_addr \<Rightarrow> u64 \<Rightarrow>
     'hs session \<times> 'hs session \<Rightarrow> ('hs session \<times> 'hs session) res" where
  "establish N C rnd_i rnd_r addr unix ss =
     (case (rnd_i, rnd_r, ss) of ((a, e1, f), (b, e2), (si, sr)) \<Rightarrow>
      case initiate_handshake N C a e1 addr si of (si, out) \<Rightarrow>
      and_then out (\<lambda>m1. case accept_handshake N C m1 sr of (sr, out) \<Rightarrow>
      and_then out (\<lambda>_. case reply_handshake N C b e2 unix sr of (sr, out) \<Rightarrow>
      and_then out (\<lambda>m2. case complete_handshake N C f unix m2 si of (si, out) \<Rightarrow>
      and_then out (\<lambda>_. Ok (si, sr))))))"

text \<open>Two established sessions in step: same connection, and the first may send.\<close>

definition paired :: "crypto \<Rightarrow> 'hs session \<Rightarrow> 'hs session \<Rightarrow> bool" where
  "paired C s t \<longleftrightarrow> (\<exists>x y k0. s_ratchet s = Some x \<and> s_ratchet t = Some y \<and> ahead C k0 0 x y) \<and>
     s_connection_id s \<noteq> None \<and> s_connection_id t = s_connection_id s \<and>
     s_our_master_pubkey s \<noteq> None \<and> s_our_master_pubkey t \<noteq> None"

lemma write_address_le: "length (write_address addr) \<le> 19"
  by (cases addr) simp_all

lemma establish_paired:
  fixes N :: "'hs noise"
  assumes noise: "noise_ok N C" and C: "crypto_ok C"
    and ca: "cert_ok C ca" "device_x25519_pubkey ca = x_pub C da"
    and cb: "cert_ok C cb" "device_x25519_pubkey cb = x_pub C db" "cert_verify C cb ub"
    and f: "x_pub C f \<noteq> x_pub C a"
  shows "\<exists>si0 sr0 si sr. new_initiator N da (x_pub C db) ca ma ub = Ok si0 \<and> new_responder N db cb mb = Ok sr0 \<and>
    establish N C (a, e1, f) (b, e2) addr unix (si0, sr0) = Ok (si, sr) \<and> paired C si sr \<and>
    map_option our_dh_priv (s_ratchet si) = Some f \<and> map_option our_dh_priv (s_ratchet sr) = Some b \<and>
    s_handshake_hash sr = s_handshake_hash si \<and> s_our_master_pubkey si = Some ma \<and> s_our_master_pubkey sr = Some mb \<and>
    s_peer_cert si = Some cb \<and> s_peer_cert sr = Some ca \<and> s_peer_master_pubkey sr = Some ma \<and>
    s_peer_addr sr = Some (canon_addr addr)"
proof -
  have hk: "hkdf_ok C" and dh: "dh_ok C" using C by (simp_all add: crypto_ok_def)
  let ?p1 = "bytes_of (x_pub C a) @ cert_serialize ca @ bytes_of ma @ write_address addr"
  let ?p2 = "bytes_of (x_pub C b) @ cert_serialize cb"
  have "length ?p1 \<le> 800" "length ?p2 \<le> 800" using write_address_le [of addr] by simp_all
  then obtain i0 r0 i1 m1 r1 r2 m2 i2 where
    n: "n_initiator N (bytes_of da) (bytes_of (x_pub C db)) = Some i0" "n_responder N (bytes_of db) = Some r0"
      "n_write N e1 i0 ?p1 = (i1, Some m1)" "n_read N r0 m1 = (r1, Some ?p1)"
      "n_write N e2 r1 ?p2 = (r2, Some m2)" "n_read N i1 m2 = (i2, Some ?p2)"
      "n_finished N r2" "n_finished N i2" "n_hash N r2 = n_hash N i2"
      "n_remote_static N i2 = Some (x_pub C db)" "n_remote_static N r2 = Some (x_pub C da)"
    using noise unfolding noise_ok_def by meson
  obtain conn where conn: "derive_connection_id C (n_hash N i2) = Ok conn" using derive_connection_id_total [OF hk] by blast
  obtain root where root: "derive_root_key C (n_hash N i2) a (x_pub C b) = Ok root" using derive_root_key_total [OF hk] by blast
  then have root': "derive_root_key C (n_hash N i2) b (x_pub C a) = Ok root" using root_key_agrees [OF dh] by metis
  obtain k where k: "derive_key C (bytes_of root) None (ascii ''init-chain'') = Ok k" using derive_key_total [OF hk] by blast
  obtain x0 where x0: "dr_new C unix root a (x_pub C b) = Ok x0" by (simp add: dr_new_def k)
  obtain x where x: "initiator_pre_ratchet C f x0 = Ok x" by (simp add: initiator_pre_ratchet_def kdf_rk_eq [OF hk])
  obtain y where y: "dr_new C unix root b (x_pub C a) = Ok y" by (simp add: dr_new_def k)
  obtain k0 where ah: "ahead C k0 0 x y" "our_dh_priv x = f" "our_dh_priv y = b"
    using start_ahead [OF hk x0 x y f] by blast
  obtain si0 where si0: "new_initiator N da (x_pub C db) ca ma ub = Ok si0"
      "s_initiator si0 = Some \<lparr>handshake = Some i0\<rparr>" "s_our_cert si0 = ca" "s_our_master_pubkey si0 = Some ma"
      "s_peer_user_id si0 = Some ub"
    by (simp add: new_initiator_def initiator_new_def n)
  obtain sr0 where sr0: "new_responder N db cb mb = Ok sr0"
      "s_responder sr0 = Some \<lparr>handshake = Some r0\<rparr>" "s_our_cert sr0 = cb" "s_our_master_pubkey sr0 = Some mb"
    by (simp add: new_responder_def responder_new_def n)
  let ?si1 = "si0\<lparr>s_our_ratchet_dh_priv := Some a, s_initiator := Some \<lparr>handshake = Some i1\<rparr>\<rparr>"
  have 1: "initiate_handshake N C a e1 addr si0 = (?si1, Ok m1)"
    by (simp add: initiate_handshake_def si0 initiator_initiate_def n)
  let ?sr1 = "sr0\<lparr>s_responder := Some \<lparr>handshake = Some r1\<rparr>, s_their_ratchet_dh_pub := Some (x_pub C a),
     s_peer_cert := Some ca, s_peer_master_pubkey := Some ma, s_peer_addr := Some (canon_addr addr)\<rparr>"
  have 2: "accept_handshake N C m1 sr0 = (?sr1, Ok ())"
    by (rule accept_handshake_eq [OF sr0(2) _ n(4) refl ca(1)]) simp
  obtain sr where 3: "reply_handshake N C b e2 unix ?sr1 = (sr, Ok m2)"
    and sr: "s_ratchet sr = Some y" "s_handshake_hash sr = Some (n_hash N i2)" "s_connection_id sr = Some conn"
      "s_our_master_pubkey sr = Some mb" "s_peer_cert sr = Some ca" "s_peer_master_pubkey sr = Some ma"
      "s_peer_addr sr = Some (canon_addr addr)"
    by (simp add: reply_handshake_def Let_def sr0 responder_reply_def n into_result_def ca(2) root' y conn)
  have c: "map_err e (cert_from_serialized C (cert_serialize cb)) = Ok cb" for e
    using cert.dec_enc [OF cb(1)] by simp
  obtain si where 4: "complete_handshake N C f unix m2 ?si1 = (si, Ok ())"
    and si: "s_ratchet si = Some x" "s_handshake_hash si = Some (n_hash N i2)" "s_connection_id si = Some conn"
      "s_our_master_pubkey si = Some ma" "s_peer_cert si = Some cb"
    by (simp add: complete_handshake_def Let_def si0 initiator_finish_def n into_result_def c cb root x0 x conn)
  have "establish N C (a, e1, f) (b, e2) addr unix (si0, sr0) = Ok (si, sr)"
    by (simp add: establish_def 1 2 3 4)
  moreover have "paired C si sr" using ah si sr by (auto simp: paired_def)
  ultimately show ?thesis using si0(1) sr0(1) si sr ah(2,3) by simp
qed


text \<open>One message over the wire: sent by the first session, serialized, parsed and received by the second.\<close>

definition session_turn :: "crypto \<Rightarrow> bytes \<Rightarrow> 12 arr \<Rightarrow> u128 \<Rightarrow> 32 arr \<Rightarrow> u64 \<Rightarrow> 'hs session \<times> 'hs session \<Rightarrow>
    ('hs session \<times> 'hs session) \<times> (bytes \<times> 32 arr) res" where
  "session_turn C bs rnd i fresh unix ss =
     (case ss of (s, t) \<Rightarrow>
      case session_send C rnd i bs s of (s, out) \<Rightarrow>
      case and_then out (\<lambda>pkt. packet_from_serialized (packet_serialize pkt)) of
        Ok pkt \<Rightarrow> (case session_receive C fresh unix pkt t of (t, out) \<Rightarrow> ((t, s), out))
      | Err e \<Rightarrow> ((t, s), Err e)
      | Panic \<Rightarrow> ((t, s), Panic))"

fun session_conversation :: "crypto \<Rightarrow> (bytes \<times> 12 arr \<times> u128 \<times> 32 arr \<times> u64) list \<Rightarrow>
    'hs session \<times> 'hs session \<Rightarrow> (bytes \<times> 32 arr) res list" where
  "session_conversation C [] ss = []"
| "session_conversation C ((bs, rnd, i, fresh, unix) # ts) ss =
     (let (ss, out) = session_turn C bs rnd i fresh unix ss in out # session_conversation C ts ss)"

lemma session_turn_paired:
  assumes C: "crypto_ok C" and seal: "seals_all C" and p: "paired C s t"
    and x: "s_ratchet s = Some x" and y: "s_ratchet t = Some y" and m: "s_our_master_pubkey s = Some m"
    and fresh: "x_pub C fresh \<noteq> x_pub C (our_dh_priv y)"
  shows "\<exists>s' t' x' y'. session_turn C bs rnd i fresh unix (s, t) = ((t', s'), Ok (bs, m)) \<and> paired C t' s' \<and>
    s_ratchet t' = Some y' \<and> s_ratchet s' = Some x' \<and> our_dh_priv y' = fresh \<and> our_dh_priv x' = our_dh_priv x \<and>
    s_our_master_pubkey t' = s_our_master_pubkey t \<and> s_our_master_pubkey s' = s_our_master_pubkey s"
proof -
  obtain k0 where ah: "ahead C k0 0 x y" using p x y by (auto simp: paired_def)
  obtain conn where conn: "s_connection_id s = Some conn" using p by (auto simp: paired_def)
  let ?pt = "bytes_of m @ bs"
  obtain x' y' k1 where t: "turn C ?pt rnd fresh unix (x, y) = ((y', x'), Ok ?pt)" "ahead C k1 0 y' x'"
      "our_dh_priv y' = fresh" "our_dh_priv x' = our_dh_priv x"
    using turn_ahead [OF C seal ah fresh] by blast
  then obtain n ct nonce pub where e: "dr_encrypt C rnd ?pt x = (x', Ok (n, ct, nonce, pub))"
      "dr_decrypt C fresh unix n pub nonce ct y = (y', Ok ?pt)"
    by (auto simp: turn_def split: prod.splits res.splits)
  let ?pkt = "packet_new 0 i ((payload_new Message (bytes_of nonce @ bytes_of pub @ be_bytes 4 n @ ct))\<lparr>connection_id := conn\<rparr>)"
  have "session_send C rnd i bs s = (s\<lparr>s_ratchet := Some x'\<rparr>, Ok ?pkt)"
    by (simp add: session_send_def m x e conn)
  moreover have "session_receive C fresh unix ?pkt t = (t\<lparr>s_ratchet := Some y'\<rparr>, Ok (bs, m))"
    by (simp add: session_receive_unfold y e Let_def from_be_be_bytes)
  ultimately have "session_turn C bs rnd i fresh unix (s, t) =
      ((t\<lparr>s_ratchet := Some y'\<rparr>, s\<lparr>s_ratchet := Some x'\<rparr>), Ok (bs, m))"
    by (simp add: session_turn_def)
  moreover have "paired C (t\<lparr>s_ratchet := Some y'\<rparr>) (s\<lparr>s_ratchet := Some x'\<rparr>)"
    using p t(2) by (auto simp: paired_def)
  ultimately show ?thesis using t(3,4) by auto
qed

text \<open>Who speaks in turn \<open>k\<close>, and the answers of a conversation without loss.\<close>

definition turns_of :: "32 arr \<Rightarrow> 32 arr \<Rightarrow> (bytes \<times> 'b) list \<Rightarrow> (bytes \<times> 32 arr) list" where
  "turns_of m m' ts = map (\<lambda>k. (fst (ts ! k), if even k then m else m')) [0..<length ts]"

lemma turns_of_Cons: "turns_of m m' (t # ts) = (fst t, m) # turns_of m' m ts"
  unfolding turns_of_def by (simp add: map_upt_Suc del: upt_Suc)

lemma session_conversation_delivers:
  assumes C: "crypto_ok C" and seal: "seals_all C"
  shows "paired C s t \<Longrightarrow> s_ratchet s = Some x \<Longrightarrow> s_ratchet t = Some y \<Longrightarrow>
    s_our_master_pubkey s = Some m \<Longrightarrow> s_our_master_pubkey t = Some m' \<Longrightarrow>
    distinct (map (x_pub C) (our_dh_priv y # our_dh_priv x # map (\<lambda>(_, _, _, f, _). f) ts)) \<Longrightarrow>
    session_conversation C ts (s, t) = map Ok (turns_of m m' ts)"
proof (induction ts arbitrary: s t x y m m')
  case Nil
  then show ?case by (simp add: turns_of_def)
next
  case (Cons z ts)
  obtain bs rnd i f u where z: "z = (bs, rnd, i, f, u)" by (metis prod.exhaust)
  have f: "x_pub C f \<noteq> x_pub C (our_dh_priv y)" using Cons.prems(6) z by auto
  obtain s' t' x' y' where step: "session_turn C bs rnd i f u (s, t) = ((t', s'), Ok (bs, m))" "paired C t' s'"
      "s_ratchet t' = Some y'" "s_ratchet s' = Some x'" "our_dh_priv y' = f" "our_dh_priv x' = our_dh_priv x"
      "s_our_master_pubkey t' = Some m'" "s_our_master_pubkey s' = Some m"
    using session_turn_paired [OF C seal Cons.prems(1-4) f] Cons.prems(4,5) by metis
  have "distinct (map (x_pub C) (our_dh_priv x' # our_dh_priv y' # map (\<lambda>(_, _, _, f, _). f) ts))"
    using Cons.prems(6) step(5,6) z by auto
  from Cons.IH [OF step(2,3,4,7,8) this] show ?case using step(1) z by (simp add: turns_of_Cons)
qed


section \<open>Properties\<close>

lemma accept_handshake_not_Panic: "snd (accept_handshake N C msg s) \<noteq> Panic"
proof -
  have "map_err e (cert_from_serialized C (take 128 (drop 32 pp))) \<noteq> Panic" if "160 \<le> length pp" for e pp
    using that by (simp add: cert_from_serialized_eq res_simps)
  moreover have "snd (responder_accept N msg p) \<noteq> Panic" for p
    by (simp add: responder_accept_def res_simps split: option.splits prod.splits)
  ultimately show ?thesis
    unfolding accept_handshake_unfold Let_def
    by (auto simp: handshake_addr_eq split: option.splits res.splits prod.splits if_splits) (metis snd_conv)+
qed

lemma accept_handshake_sets:
  "accept_handshake N C msg s = (s', Ok ()) \<Longrightarrow> s_peer_cert s' \<noteq> None \<and> s_their_ratchet_dh_pub s' \<noteq> None"
  by (auto simp: accept_handshake_unfold Let_def split: option.splits res.splits prod.splits if_splits)

lemma initiate_handshake_sets:
  "initiate_handshake N C secret eph addr s = (s', Ok m) \<Longrightarrow> s_our_ratchet_dh_priv s' \<noteq> None"
  by (auto simp: initiate_handshake_def Let_def split: option.splits prod.splits)

lemma handshake_parts_not_Panic:
  "initiator_finish N resp p \<noteq> Panic" "responder_reply N eph pl q \<noteq> Panic"
  by (simp_all add: initiator_finish_def responder_reply_def into_result_def res_simps split: prod.splits)

lemma session_parts_not_Panic:
  assumes "hkdf_ok C"
  shows "derive_root_key C h a p \<noteq> Panic" "derive_connection_id C h \<noteq> Panic"
    "dr_new C u k a p \<noteq> Panic" "initiator_pre_ratchet C f r \<noteq> Panic"
  using derive_root_key_total [OF assms, of h a p] derive_connection_id_total [OF assms, of h]
    derive_key_total [OF assms, of "bytes_of k" None "ascii ''init-chain''"]
  by (auto simp: dr_new_def initiator_pre_ratchet_def kdf_rk_eq [OF assms])

lemma cert_parse_not_Panic: "128 \<le> length bs \<Longrightarrow> map_err e (cert_from_serialized C bs) \<noteq> Panic"
  by (simp add: cert_from_serialized_eq res_simps)

lemmas no_panic = handshake_parts_not_Panic session_parts_not_Panic cert_parse_not_Panic and_then_eq_Panic

lemma reply_handshake_not_Panic:
  assumes C: "hkdf_ok C" and "s_peer_cert s \<noteq> None" and "s_their_ratchet_dh_pub s \<noteq> None"
  shows "snd (reply_handshake N C secret eph unix s) \<noteq> Panic"
proof -
  obtain cert pub where s: "s_peer_cert s = Some cert" "s_their_ratchet_dh_pub s = Some pub" using assms by blast
  show ?thesis
    unfolding reply_handshake_def Let_def
    by (simp add: s split: option.splits)
      (auto simp: no_panic C s split: res.splits prod.splits if_splits)
qed

lemma complete_handshake_not_Panic:
  assumes C: "hkdf_ok C" and "s_our_ratchet_dh_priv s \<noteq> None"
  shows "snd (complete_handshake N C f unix resp s) \<noteq> Panic"
proof -
  obtain priv where s: "s_our_ratchet_dh_priv s = Some priv" using assms by blast
  show ?thesis
    unfolding complete_handshake_def Let_def
    by (simp add: s split: option.splits)
      (auto simp: no_panic C s split: res.splits prod.splits if_splits)
qed


text \<open>
  C38. No message from a peer makes a handshake panic: \<open>accept_handshake\<close> never does, and nor do
  \<open>reply_handshake\<close> after an accept that succeeded and \<open>complete_handshake\<close> after an initiation that did.
\<close>

theorem handshake_never_panics:
  assumes "hkdf_ok C" and "initiate_handshake N C a e1 addr si = (si', Ok m1)"
    and "accept_handshake N C msg sr = (sr', Ok ())"
  shows "snd (accept_handshake N C msg' s) \<noteq> Panic \<and> snd (reply_handshake N C b e2 unix sr') \<noteq> Panic \<and>
    snd (complete_handshake N C f unix response si') \<noteq> Panic"
  using accept_handshake_not_Panic reply_handshake_not_Panic [OF assms(1)] complete_handshake_not_Panic [OF assms(1)]
    accept_handshake_sets [OF assms(3)] initiate_handshake_sets [OF assms(2)] by blast

text \<open>
  C5. When \<open>complete_handshake\<close> succeeds, the peer's certificate carries the key that the Noise
  handshake authenticated and is signed by the master key the initiator asked for; the session is
  established, has a connection id, and cannot be completed again.
\<close>

theorem initiator_authenticates_peer:
  assumes "complete_handshake N C fresh unix response s = (s', Ok ())" and "s_peer_user_id s = Some u"
  shows "verify_peer C u s' \<and> is_established s' \<and> \<not> is_initiator s' \<and> s_connection_id s' \<noteq> None \<and>
    map_option device_x25519_pubkey (s_peer_cert s') = s_remote_static s' \<and>
    complete_handshake N C fresh' unix' response' s' = (s', Err (Msg ''Session is not an initiator''))"
  using complete_handshake_checks [OF assms(1)] assms(2)
  by (auto simp: verify_peer_def is_established_def is_initiator_def complete_handshake_def [of N C fresh'])

text \<open>
  C1. One run of the handshake between two honest devices over snow's IK contract: all four handlers
  succeed, both sides derive the same connection id and handshake hash, each holds the other's
  certificate, the responder learns the initiator's claimed master key and address, and from then on
  every message of a conversation in turns arrives, over the wire, with its sender's master key.
\<close>

theorem handshake_then_messages:
  fixes N :: "'hs noise"
  assumes "noise_ok N C" and "crypto_ok C" and "seals_all C"
    and "cert_ok C ca" and "device_x25519_pubkey ca = x_pub C da"
    and "cert_ok C cb" and "device_x25519_pubkey cb = x_pub C db" and "cert_verify C cb ub"
    and "distinct (map (x_pub C) (a # b # f # map (\<lambda>(_, _, _, g, _). g) ts))"
  shows "\<exists>si0 sr0 si sr. new_initiator N da (x_pub C db) ca ma ub = Ok si0 \<and> new_responder N db cb mb = Ok sr0 \<and>
    establish N C (a, e1, f) (b, e2) addr unix (si0, sr0) = Ok (si, sr) \<and>
    s_connection_id si \<noteq> None \<and> s_connection_id sr = s_connection_id si \<and> s_handshake_hash sr = s_handshake_hash si \<and>
    s_peer_cert si = Some cb \<and> s_peer_cert sr = Some ca \<and> s_peer_master_pubkey sr = Some ma \<and>
    s_peer_addr sr = Some (canon_addr addr) \<and>
    session_conversation C ts (si, sr) = map Ok (turns_of ma mb ts)"
proof -
  have "x_pub C f \<noteq> x_pub C a" using assms(9) by auto
  from establish_paired [OF assms(1,2,4-8) this, of ma mb e1 b e2 addr unix]
  obtain si0 sr0 si sr where h: "new_initiator N da (x_pub C db) ca ma ub = Ok si0" "new_responder N db cb mb = Ok sr0"
    "establish N C (a, e1, f) (b, e2) addr unix (si0, sr0) = Ok (si, sr)" "paired C si sr"
    "map_option our_dh_priv (s_ratchet si) = Some f" "map_option our_dh_priv (s_ratchet sr) = Some b"
    "s_handshake_hash sr = s_handshake_hash si" "s_our_master_pubkey si = Some ma" "s_our_master_pubkey sr = Some mb"
    "s_peer_cert si = Some cb" "s_peer_cert sr = Some ca" "s_peer_master_pubkey sr = Some ma"
    "s_peer_addr sr = Some (canon_addr addr)" by blast
  obtain x y where x: "s_ratchet si = Some x" "our_dh_priv x = f" and y: "s_ratchet sr = Some y" "our_dh_priv y = b"
    using h(5,6) by auto
  have "distinct (map (x_pub C) (our_dh_priv y # our_dh_priv x # map (\<lambda>(_, _, _, g, _). g) ts))"
    using assms(9) x y by auto
  from session_conversation_delivers [OF assms(2,3) h(4) x(1) y(1) h(8,9) this] h show ?thesis
    unfolding paired_def by blast
qed

text \<open>A certificate that its master key did sign, and one that it did not.\<close>

definition demo_owner :: "u8 \<Rightarrow> master_key_pair" where
  "demo_owner b = from_signing_key_bytes demo_crypto (demo_key b)"

definition demo_cert :: "u8 \<Rightarrow> u8 \<Rightarrow> device_cert" where
  "demo_cert m d = cert_new demo_crypto (demo_owner m) (demo_key d) (demo_key d)"

lemma demo_cert_props [simp]:
  "cert_ok demo_crypto (demo_cert m d)" "device_x25519_pubkey (demo_cert m d) = demo_key d"
  by (simp_all add: demo_cert_def cert_new_def cert_ok_def demo_crypto_def)

lemma demo_x_pub [simp]: "x_pub demo_crypto k = k" by (simp add: demo_crypto_def)

lemma demo_cert_verify: "cert_verify demo_crypto (demo_cert m d) (user_of (demo_owner m))"
proof -
  have "ed_ok demo_crypto" "master_ok demo_crypto (demo_owner m)"
    using demo_crypto_ok by (simp_all add: crypto_ok_def demo_owner_def)
  then show ?thesis unfolding demo_cert_def by (rule cert_new_verifies)
qed

lemma demo_seals_all: "seals_all demo_crypto" by (simp add: seals_all_def demo_crypto_def)

theorem handshake_then_messages_witness:
  "\<exists>si0 sr0 si sr. new_initiator demo_noise (demo_key 1) (demo_key 2) (demo_cert 11 1) (demo_key 11) (user_of (demo_owner 12)) = Ok si0 \<and>
    new_responder demo_noise (demo_key 2) (demo_cert 12 2) (demo_key 12) = Ok sr0 \<and>
    establish demo_noise demo_crypto (demo_key 3, demo_key 0, demo_key 5) (demo_key 4, demo_key 0) (V4 (arr_of [1, 2, 3, 4]) 9) 0 (si0, sr0)
      = Ok (si, sr) \<and>
    session_conversation demo_crypto [([7], zero_arr, 1, demo_key 6, 1), ([8, 9], zero_arr, 2, demo_key 7, 2)] (si, sr) =
      [Ok ([7], demo_key 11), Ok ([8, 9], demo_key 12)]"
proof -
  let ?ts = "[([7], zero_arr, 1, demo_key 6, 1), ([8, 9], zero_arr, 2, demo_key 7, 2)] :: (bytes \<times> 12 arr \<times> u128 \<times> 32 arr \<times> u64) list"
  have x: "device_x25519_pubkey (demo_cert 11 1) = x_pub demo_crypto (demo_key 1)"
    "device_x25519_pubkey (demo_cert 12 2) = x_pub demo_crypto (demo_key 2)" by simp_all
  have d: "distinct (map (x_pub demo_crypto) (demo_key 3 # demo_key 4 # demo_key 5 # map (\<lambda>(_, _, _, g, _). g) ?ts))" by simp
  have t: "map Ok (turns_of (demo_key 11) (demo_key 12) ?ts) = [Ok ([7], demo_key 11), Ok ([8, 9], demo_key 12)]"
    by (simp add: turns_of_Cons) (simp add: turns_of_def)
  from handshake_then_messages [OF demo_noise_ok demo_crypto_ok demo_seals_all demo_cert_props(1) x(1)
      demo_cert_props(1) x(2) demo_cert_verify d, of "demo_key 11" "demo_key 12" "demo_key 0" "demo_key 0"
      "V4 (arr_of [1, 2, 3, 4]) 9" 0]
  show ?thesis unfolding t demo_x_pub by blast
qed


text \<open>The handlers of one demo run, each step's result named.\<close>

lemma establish_steps:
  assumes "establish N C (a, e1, f) (b, e2) addr unix (si0, sr0) = Ok (si, sr)"
  obtains si1 m1 sr1 m2 where "initiate_handshake N C a e1 addr si0 = (si1, Ok m1)"
    "accept_handshake N C m1 sr0 = (sr1, Ok ())" "reply_handshake N C b e2 unix sr1 = (sr, Ok m2)"
    "complete_handshake N C f unix m2 si1 = (si, Ok ())"
proof -
  obtain si1 o1 where 1: "initiate_handshake N C a e1 addr si0 = (si1, o1)" by fastforce
  with assms obtain m1 where m1: "o1 = Ok m1" by (auto simp: establish_def and_then_eq_Ok)
  obtain sr1 o2 where 2: "accept_handshake N C m1 sr0 = (sr1, o2)" by fastforce
  with assms 1 m1 have o2: "o2 = Ok ()" by (auto simp: establish_def and_then_eq_Ok)
  obtain sr2 o3 where 3: "reply_handshake N C b e2 unix sr1 = (sr2, o3)" by fastforce
  with assms 1 m1 2 o2 obtain m2 where m2: "o3 = Ok m2" by (auto simp: establish_def and_then_eq_Ok)
  obtain si2 o4 where 4: "complete_handshake N C f unix m2 si1 = (si2, o4)" by fastforce
  with assms 1 m1 2 o2 3 m2 have "o4 = Ok () \<and> si2 = si \<and> sr2 = sr" by (simp add: establish_def and_then_eq_Ok)
  then show thesis using that [of si1 m1 sr1 m2] 1 2 3 4 m1 m2 o2 by simp
qed

lemma demo_run:
  obtains si0 sr0 si1 m1 sr1 m2 si where
    "s_peer_user_id si1 = Some (user_of (demo_owner 12))"
    "initiate_handshake demo_noise demo_crypto (demo_key 3) zero_arr (V4 zero_arr 9) si0 = (si1, Ok m1)"
    "accept_handshake demo_noise demo_crypto m1 sr0 = (sr1, Ok ())"
    "complete_handshake demo_noise demo_crypto (demo_key 5) 0 m2 si1 = (si, Ok ())"
proof -
  have x: "device_x25519_pubkey (demo_cert 11 1) = x_pub demo_crypto (demo_key 1)"
    "device_x25519_pubkey (demo_cert 12 2) = x_pub demo_crypto (demo_key 2)" by simp_all
  have ne: "x_pub demo_crypto (demo_key 5) \<noteq> x_pub demo_crypto (demo_key 3)" by simp
  obtain si0 sr0 si sr where h: "new_initiator demo_noise (demo_key 1) (x_pub demo_crypto (demo_key 2)) (demo_cert 11 1)
      zero_arr (user_of (demo_owner 12)) = Ok si0"
    "establish demo_noise demo_crypto (demo_key 3, zero_arr, demo_key 5) (demo_key 4, zero_arr) (V4 zero_arr 9) 0 (si0, sr0) = Ok (si, sr)"
    using establish_paired [OF demo_noise_ok demo_crypto_ok demo_cert_props(1) x(1) demo_cert_props(1) x(2) demo_cert_verify ne]
    by blast
  from establish_steps [OF h(2)] obtain si1 m1 sr1 m2 where st:
    "initiate_handshake demo_noise demo_crypto (demo_key 3) zero_arr (V4 zero_arr 9) si0 = (si1, Ok m1)"
    "accept_handshake demo_noise demo_crypto m1 sr0 = (sr1, Ok ())"
    "complete_handshake demo_noise demo_crypto (demo_key 5) 0 m2 si1 = (si, Ok ())" by metis
  have "s_peer_user_id si1 = s_peer_user_id si0"
    using st(1) by (auto simp: initiate_handshake_def Let_def split: option.splits prod.splits)
  moreover have "s_peer_user_id si0 = Some (user_of (demo_owner 12))"
    using h(1) by (auto simp: new_initiator_def and_then_eq_Ok)
  ultimately show ?thesis using that [OF _ st] by simp
qed

theorem handshake_never_panics_witness:
  "\<exists>s s' s'' m. initiate_handshake demo_noise demo_crypto (demo_key 3) zero_arr (V4 zero_arr 9) s = (s', Ok m) \<and>
     snd (complete_handshake demo_noise demo_crypto (demo_key 5) 0 [1, 2] s') \<noteq> Panic \<and>
     snd (accept_handshake demo_noise demo_crypto [1] s'') \<noteq> Panic"
proof -
  have hk: "hkdf_ok demo_crypto" using demo_crypto_ok by (simp add: crypto_ok_def)
  obtain s s' m r r' where run:
    "initiate_handshake demo_noise demo_crypto (demo_key 3) zero_arr (V4 zero_arr 9) s = (s', Ok m)"
    "accept_handshake demo_noise demo_crypto m r = (r', Ok ())" by (rule demo_run)
  show ?thesis using handshake_never_panics [OF hk run] run(1) by metis
qed

theorem initiator_authenticates_peer_witness:
  "\<exists>s s' m. complete_handshake demo_noise demo_crypto (demo_key 5) 0 m s = (s', Ok ()) \<and>
     verify_peer demo_crypto (user_of (demo_owner 12)) s' \<and> is_established s'"
proof -
  obtain s s' m where run: "complete_handshake demo_noise demo_crypto (demo_key 5) 0 m s = (s', Ok ())"
    "s_peer_user_id s = Some (user_of (demo_owner 12))" by (rule demo_run)
  show ?thesis using initiator_authenticates_peer [OF run] run(1) by metis
qed

text \<open>
  The responder does not check what the initiator claims: with a certificate that the claimed
  master key did not sign, the handshake still succeeds, the session is established with that
  master key as the peer's, and messages arrive under it; only \<open>verify_peer\<close> would tell.
\<close>

theorem responder_accepts_unsigned_claim:
  fixes N :: "'hs noise"
  assumes "noise_ok N C" and "crypto_ok C" and "seals_all C"
    and "cert_ok C ca" and "device_x25519_pubkey ca = x_pub C da" and "\<not> cert_verify C ca (UserID victim)"
    and "cert_ok C cb" and "device_x25519_pubkey cb = x_pub C db" and "cert_verify C cb ub"
    and "distinct (map (x_pub C) [a, b, f, g])"
  shows "\<exists>si0 sr0 si sr. establish N C (a, e1, f) (b, e2) addr unix (si0, sr0) = Ok (si, sr) \<and>
    is_established sr \<and> s_peer_master_pubkey sr = Some victim \<and> \<not> verify_peer C (UserID victim) sr \<and>
    snd (session_turn C bs rnd i g unix (si, sr)) = Ok (bs, victim)"
proof -
  have f: "x_pub C f \<noteq> x_pub C a" using assms(10) by auto
  from establish_paired [OF assms(1,2,4,5,7-9) f, of victim mb e1 b e2 addr unix] obtain si0 sr0 si sr where h:
    "establish N C (a, e1, f) (b, e2) addr unix (si0, sr0) = Ok (si, sr)" "paired C si sr"
    "map_option our_dh_priv (s_ratchet sr) = Some b" "s_our_master_pubkey si = Some victim"
    "s_peer_cert sr = Some ca" "s_peer_master_pubkey sr = Some victim" by blast
  obtain x y where x: "s_ratchet si = Some x" and y: "s_ratchet sr = Some y" "our_dh_priv y = b"
    using h(2,3) by (auto simp: paired_def)
  have "x_pub C g \<noteq> x_pub C (our_dh_priv y)" using assms(10) y by auto
  from session_turn_paired [OF assms(2,3) h(2) x y(1) h(4) this, of bs rnd i unix]
  have "snd (session_turn C bs rnd i g unix (si, sr)) = Ok (bs, victim)" by auto
  moreover have "is_established sr" "\<not> verify_peer C (UserID victim) sr"
    using y h(5) assms(6) by (simp_all add: is_established_def verify_peer_def)
  ultimately show ?thesis using h(1,6) by blast
qed

lemma demo_cert_other_master: "\<not> cert_verify demo_crypto (demo_cert 11 1) (UserID (demo_key 13))"
  by (simp add: cert_verify_def user_verify_def demo_cert_def cert_new_def cert_signed_data_def master_sign_def
      demo_owner_def from_signing_key_bytes_def demo_crypto_def arr_of_eq_iff demo_key_def)

theorem responder_accepts_unsigned_claim_witness:
  "\<exists>si sr. is_established sr \<and> s_peer_master_pubkey sr = Some (demo_key 13) \<and>
     \<not> verify_peer demo_crypto (UserID (demo_key 13)) sr \<and>
     snd (session_turn demo_crypto [1] zero_arr 1 (demo_key 6) 0 (si :: demo_noise_state session, sr)) = Ok ([1], demo_key 13)"
proof -
  have x: "device_x25519_pubkey (demo_cert 11 1) = x_pub demo_crypto (demo_key 1)"
    "device_x25519_pubkey (demo_cert 12 2) = x_pub demo_crypto (demo_key 2)" by simp_all
  have d: "distinct (map (x_pub demo_crypto) [demo_key 3, demo_key 4, demo_key 5, demo_key 6])" by simp
  from responder_accepts_unsigned_claim [OF demo_noise_ok demo_crypto_ok demo_seals_all demo_cert_props(1) x(1)
      demo_cert_other_master demo_cert_props(1) x(2) demo_cert_verify d]
  show ?thesis by blast
qed

end
