(* ===== verification/Contacts.thy ===== *)
theory Contacts
  imports Identity
begin

text \<open>
  dht/record/record.rs and dht/record/contact.rs: the tagged records of the DHT and the contact
  record that tells peers how to reach a device through its relay. Lemmas: both parsers accept
  exactly what their serializers write (and trailing bytes, which they ignore), they never panic,
  and whose signature a contact record is checked against.
\<close>

section \<open>record.rs\<close>

definition MAX_RECORD_SIZE :: nat where "MAX_RECORD_SIZE = 1024"

datatype record_tag = Contact

definition record_tag_from_byte :: "u8 \<Rightarrow> record_tag option" where
  "record_tag_from_byte b = (if b = 1 then Some Contact else None)"

fun record_tag_to_byte :: "record_tag \<Rightarrow> u8" where
  "record_tag_to_byte Contact = 1"

record dht_record =
  rec_tag :: record_tag
  rec_data :: bytes

definition record_new :: "record_tag \<Rightarrow> bytes \<Rightarrow> dht_record" where
  "record_new t d = \<lparr>rec_tag = t, rec_data = d\<rparr>"

definition record_serialize :: "dht_record \<Rightarrow> bytes" where
  "record_serialize r = [record_tag_to_byte (rec_tag r)] @ rec_data r"

definition record_from_serialized :: "bytes \<Rightarrow> dht_record res" where
  "record_from_serialized bs =
     (if length bs < 2 then Err (Msg ''record too short'')
      else
        and_then (index bs 0) (\<lambda>tag_byte.
        and_then (ok_or (record_tag_from_byte tag_byte) (MsgNats ''unknown record tag: 0x{tag_byte:02x}'' [unat tag_byte])) (\<lambda>t.
        and_then (sub_from bs 1) (\<lambda>d.
          if length d > MAX_RECORD_SIZE then Err (Msg ''record exceeds max size'')
          else Ok \<lparr>rec_tag = t, rec_data = d\<rparr>))))"

definition record_ok :: "dht_record \<Rightarrow> bool" where
  "record_ok r \<longleftrightarrow> rec_data r \<noteq> [] \<and> length (rec_data r) \<le> MAX_RECORD_SIZE"

lemma record_from_serialized_iff:
  "record_from_serialized bs = Ok r \<longleftrightarrow> record_ok r \<and> bs = record_serialize r"
proof (cases bs)
  case (Cons b d)
  have t: "record_tag_from_byte b = Some t \<longleftrightarrow> b = record_tag_to_byte t" for t
    by (cases t) (simp add: record_tag_from_byte_def)
  show ?thesis
    by (cases r) (auto simp: Cons record_from_serialized_def record_ok_def record_serialize_def res_simps t)
qed (simp add: record_from_serialized_def record_serialize_def)

lemma record_from_serialized_not_Panic: "record_from_serialized bs \<noteq> Panic"
  by (simp add: record_from_serialized_def res_simps index_def)

interpretation dht_rec: codec record_serialize record_from_serialized record_ok
  by unfold_locales (simp add: record_from_serialized_iff)

section \<open>contact.rs\<close>

record contact_record =
  cr_device_list :: device_list
  cr_relay_addr :: socket_addr
  cr_relay_id :: u128
  cr_signature :: "64 arr"

definition contact_signed_data :: "crypto \<Rightarrow> device_list \<Rightarrow> socket_addr \<Rightarrow> u128 \<Rightarrow> bytes" where
  "contact_signed_data C l addr i =
     bytes_of (sha256 C (list_serialize l)) @ write_address addr @ be_bytes 16 i"

definition contact_new :: "crypto \<Rightarrow> device_list \<Rightarrow> socket_addr \<Rightarrow> u128 \<Rightarrow> 32 arr \<Rightarrow> contact_record" where
  "contact_new C l addr i key =
     \<lparr>cr_device_list = l, cr_relay_addr = addr, cr_relay_id = i,
      cr_signature = ed_sign C key (contact_signed_data C l addr i)\<rparr>"

definition contact_verify :: "crypto \<Rightarrow> contact_record \<Rightarrow> bool" where
  "contact_verify C r =
     list_ex (\<lambda>cert. ed_verify C (device_ed25519_pubkey cert)
       (contact_signed_data C (cr_device_list r) (cr_relay_addr r) (cr_relay_id r)) (cr_signature r))
       (devices (cr_device_list r))"

definition contact_serialize :: "contact_record \<Rightarrow> bytes" where
  "contact_serialize r =
     (let list_bytes = list_serialize (cr_device_list r) in
      be_bytes 2 (of_nat (length list_bytes) :: u16) @ list_bytes @ write_address (cr_relay_addr r) @
      be_bytes 16 (cr_relay_id r) @ bytes_of (cr_signature r))"

definition contact_from_serialized :: "crypto \<Rightarrow> bytes \<Rightarrow> contact_record res" where
  "contact_from_serialized C bs =
     (if length bs < 2 + 128 + 7 + 16 + 64 then Err (Msg ''contact record too short'')
      else
        and_then (sub_bytes bs 0 2) (\<lambda>ll.
        let list_len = unat (from_be ll :: u16) in
        if length bs < 2 + list_len + 7 + 16 + 64 then Err (Msg ''contact record truncated at device list'')
        else
          and_then (sub_bytes bs 2 (2 + list_len)) (\<lambda>list_bytes.
          and_then (map_err (Wrap ''bad device list: {e}'') (list_from_serialized C list_bytes)) (\<lambda>device_list.
          let cursor = 2 + list_len; addr_start = cursor + 1 in
          and_then (index bs cursor) (\<lambda>addr_kind.
          and_then
            (if addr_kind = 4 then
               if length bs < addr_start + 6 + 16 + 64 then Err (Msg ''contact record truncated at IPv4 addr'')
               else
                 and_then (sub_arr bs addr_start (addr_start + 4)) (\<lambda>octets.
                 and_then (sub_bytes bs (addr_start + 4) (addr_start + 6)) (\<lambda>p.
                   Ok (V4 octets (from_be p), addr_start + 6)))
             else if addr_kind = 6 then
               if length bs < addr_start + 18 + 16 + 64 then Err (Msg ''contact record truncated at IPv6 addr'')
               else
                 and_then (sub_arr bs addr_start (addr_start + 16)) (\<lambda>octets.
                 and_then (sub_bytes bs (addr_start + 16) (addr_start + 18)) (\<lambda>p.
                   Ok (V6 octets (from_be p) 0 0, addr_start + 18)))
             else Err (MsgNats ''unknown addr kind: 0x{other:02x}'' [unat addr_kind]))
            (\<lambda>(relay_addr, relay_start).
               if length bs < relay_start + 16 + 64 then Err (Msg ''contact record truncated at relay id'')
               else
                 and_then (sub_bytes bs relay_start (relay_start + 16)) (\<lambda>i.
                 and_then (sub_arr bs (relay_start + 16) (relay_start + 16 + 64)) (\<lambda>sig.
                   Ok \<lparr>cr_device_list = device_list, cr_relay_addr = relay_addr, cr_relay_id = from_be i,
                      cr_signature = sig\<rparr>))))))))"

definition contact_ok :: "crypto \<Rightarrow> contact_record \<Rightarrow> bool" where
  "contact_ok C r \<longleftrightarrow> list_ok C (cr_device_list r) \<and> canonical (cr_relay_addr r)"

subsection \<open>The format\<close>

lemma drop_slice: "drop k xs = take m (drop k xs) @ drop (k + m) xs"
  by (metis append_take_drop_id drop_drop add.commute)

lemma length_list_serialize: "length (list_serialize l) = 72 + 128 * length (devices l)"
  by (simp add: list_serialize_def length_concat comp_def sum_list_triv)

lemma list_ok_length: "list_ok C l \<Longrightarrow> length (list_serialize l) < 65536"
  by (simp add: length_list_serialize list_ok_def MAX_DEVICES_def)

text \<open>The part behind the device list: address, id and signature.\<close>

definition contact_tail :: "bytes \<Rightarrow> (socket_addr \<times> u128 \<times> 64 arr) res" where
  "contact_tail t =
     (if t ! 0 = 4 then
        if length t < 87 then Err (Msg ''contact record truncated at IPv4 addr'')
        else Ok (V4 (arr_of (take 4 (drop 1 t))) (from_be (take 2 (drop 5 t))),
                 from_be (take 16 (drop 7 t)), arr_of (take 64 (drop 23 t)))
      else if t ! 0 = 6 then
        if length t < 99 then Err (Msg ''contact record truncated at IPv6 addr'')
        else Ok (V6 (arr_of (take 16 (drop 1 t))) (from_be (take 2 (drop 17 t))) 0 0,
                 from_be (take 16 (drop 19 t)), arr_of (take 64 (drop 35 t)))
      else Err (MsgNats ''unknown addr kind: 0x{other:02x}'' [unat (t ! 0)]))"

lemma contact_from_serialized_eq:
  assumes "217 \<le> length bs"
  shows "contact_from_serialized C bs =
    (let n = unat (from_be (take 2 bs) :: u16) in
     if length bs < n + 89 then Err (Msg ''contact record truncated at device list'')
     else
       and_then (map_err (Wrap ''bad device list: {e}'') (list_from_serialized C (take n (drop 2 bs)))) (\<lambda>l.
       and_then (contact_tail (drop (2 + n) bs)) (\<lambda>(a, i, sig).
         Ok \<lparr>cr_device_list = l, cr_relay_addr = a, cr_relay_id = i, cr_signature = sig\<rparr>)))"
proof -
  define n where "n = unat (from_be (take 2 bs) :: u16)"
  show ?thesis
  proof (cases "length bs < n + 89")
    case True
    then show ?thesis using assms by (simp add: contact_from_serialized_def Let_def flip: n_def)
  next
    case False
    then have l: "\<not> length bs - Suc (Suc n) < 87" "length bs - Suc (Suc n) < 99 \<longleftrightarrow> length bs < n + 101"
      by linarith+
    show ?thesis using assms False l(1)
      by (simp add: contact_from_serialized_def Let_def contact_tail_def add.commute l(2) flip: n_def cong: and_then_cong)
  qed
qed


lemma contact_tail_write:
  "contact_tail (write_address a @ be_bytes 16 i @ bytes_of sig @ junk) = Ok (canon_addr a, i, sig)"
  by (cases a) (simp_all add: contact_tail_def from_be_be_bytes)

lemma contact_tail_exact:
  assumes "87 \<le> length t" and "contact_tail t = Ok (a, i, sig)"
  shows "canonical a \<and> (\<exists>junk. t = write_address a @ be_bytes 16 i @ bytes_of sig @ junk)"
proof -
  have t: "t = t ! 0 # drop 1 t" using assms(1) by (cases t) simp_all
  consider "t ! 0 = 4" | "t ! 0 = 6" "99 \<le> length t"
    using assms(2) by (auto simp: contact_tail_def split: if_splits)
  then show ?thesis
  proof cases
    case 1
    have "drop 1 t = take 4 (drop 1 t) @ take 2 (drop 5 t) @ take 16 (drop 7 t) @ take 64 (drop 23 t) @ drop 87 t"
      using drop_slice [of 1 t 4] drop_slice [of 5 t 2] drop_slice [of 7 t 16] drop_slice [of 23 t 64] by simp
    then show ?thesis using 1 assms t
      by (auto simp: contact_tail_def be_bytes_from_be intro!: exI [of _ "drop 87 t"])
  next
    case 2
    have "drop 1 t = take 16 (drop 1 t) @ take 2 (drop 17 t) @ take 16 (drop 19 t) @ take 64 (drop 35 t) @ drop 99 t"
      using drop_slice [of 1 t 16] drop_slice [of 17 t 2] drop_slice [of 19 t 16] drop_slice [of 35 t 64] by simp
    then show ?thesis using 2 assms(2) t
      by (auto simp: contact_tail_def be_bytes_from_be intro!: exI [of _ "drop 99 t"])
  qed
qed

lemma length_contact_serialize:
  "length (contact_serialize r) = 154 + 128 * length (devices (cr_device_list r)) + length (write_address (cr_relay_addr r))"
  by (simp add: contact_serialize_def Let_def length_list_serialize)

lemma contact_read_write:
  assumes r: "contact_ok C r" and l: "217 \<le> length (contact_serialize r @ junk)"
  shows "contact_from_serialized C (contact_serialize r @ junk) = Ok r"
proof -
  let ?l = "list_serialize (cr_device_list r)"
  let ?t = "write_address (cr_relay_addr r) @ be_bytes 16 (cr_relay_id r) @ bytes_of (cr_signature r) @ junk"
  define bs where "bs = contact_serialize r @ junk"
  have ok: "list_ok C (cr_device_list r)" "canon_addr (cr_relay_addr r) = cr_relay_addr r"
    using r by (simp_all add: contact_ok_def canonical_def)
  have bs: "bs = be_bytes 2 (of_nat (length ?l) :: u16) @ ?l @ ?t"
    by (simp add: bs_def contact_serialize_def Let_def)
  have n: "unat (from_be (take 2 bs) :: u16) = length ?l"
    using list_ok_length [OF ok(1)] by (simp add: bs from_be_be_bytes unat_of_nat)
  have d: "drop (2 + length ?l) bs = ?t" "take (length ?l) (drop 2 bs) = ?l"
    by (simp_all add: bs)
  have big: "\<not> length bs < length ?l + 89"
    by (cases "cr_relay_addr r") (simp_all add: bs)
  have "217 \<le> length bs" using l by (simp add: bs_def)
  then have "contact_from_serialized C bs = Ok r"
    unfolding contact_from_serialized_eq [OF \<open>217 \<le> length bs\<close>] Let_def n d
    using big by (simp add: contact_tail_write ok(2) list_roundtrip [OF ok(1)])
  then show ?thesis by (simp add: bs_def)
qed

lemma contact_from_serialized_exact:
  assumes "contact_from_serialized C bs = Ok r"
  shows "217 \<le> length bs \<and> contact_ok C r \<and> (\<exists>junk. bs = contact_serialize r @ junk)"
proof -
  have l: "217 \<le> length bs"
    using assms by (rule contrapos_pp) (simp add: contact_from_serialized_def)
  define n where "n = unat (from_be (take 2 bs) :: u16)"
  from assms obtain dl a i sig where p: "n + 89 \<le> length bs" "list_from_serialized C (take n (drop 2 bs)) = Ok dl"
      "contact_tail (drop (2 + n) bs) = Ok (a, i, sig)"
      "r = \<lparr>cr_device_list = dl, cr_relay_addr = a, cr_relay_id = i, cr_signature = sig\<rparr>"
    by (auto simp: contact_from_serialized_eq [OF l] Let_def res_simps simp flip: n_def split: if_splits)
  have ld: "list_ok C dl" "take n (drop 2 bs) = list_serialize dl"
    using list_from_serialized_exact [OF p(2)] by simp_all
  have "87 \<le> length (drop (2 + n) bs)" using p(1) by simp
  from contact_tail_exact [OF this p(3)] obtain junk where t: "canonical a"
    "drop (2 + n) bs = write_address a @ be_bytes 16 i @ bytes_of sig @ junk" by blast
  have "length (list_serialize dl) = n" using p(1) by (simp flip: ld(2))
  then have "of_nat (length (list_serialize dl)) = (from_be (take 2 bs) :: u16)" by (simp add: n_def)
  then have "be_bytes 2 (of_nat (length (list_serialize dl)) :: u16) = take 2 bs"
    using l by (simp add: be_bytes_from_be)
  moreover have "bs = take 2 bs @ take n (drop 2 bs) @ drop (2 + n) bs"
    using drop_slice [of 2 bs n] by simp
  ultimately have "bs = contact_serialize r @ junk"
    using p(4) t(2) ld(2) by (simp add: contact_serialize_def Let_def)
  then show ?thesis using l ld t(1) p(4) by (auto simp: contact_ok_def)
qed

lemma contact_from_serialized_not_Panic: "contact_from_serialized C bs \<noteq> Panic"
proof (cases "217 \<le> length bs")
  case True
  have "contact_tail t \<noteq> Panic" for t by (simp add: contact_tail_def)
  then show ?thesis
    by (auto simp: contact_from_serialized_eq [OF True] Let_def res_simps list_from_serialized_not_Panic)
qed (simp add: contact_from_serialized_def)

interpretation contact: codec contact_serialize "contact_from_serialized C"
  "\<lambda>r. contact_ok C r \<and> devices (cr_device_list r) \<noteq> []" for C
proof
  fix r
  assume r: "contact_ok C r \<and> devices (cr_device_list r) \<noteq> []"
  then have "1 \<le> length (devices (cr_device_list r))" by (cases "devices (cr_device_list r)") simp_all
  moreover have "7 \<le> length (write_address (cr_relay_addr r))" by (cases "cr_relay_addr r") simp_all
  ultimately have "217 \<le> length (contact_serialize r @ [])" by (simp add: length_contact_serialize)
  then have "contact_from_serialized C (contact_serialize r @ []) = Ok r" using r by (intro contact_read_write) simp_all
  then show "contact_from_serialized C (contact_serialize r) = Ok r" by simp
qed

section \<open>Properties\<close>

text \<open>
  The contact parser, exactly: it never panics, and it accepts a buffer of at least 217 bytes
  just when it is a serialized record (at most five valid certificates, an address without flow
  information or scope) followed by anything. The trailing bytes are ignored; a record without
  devices is only accepted with enough of them.
\<close>

theorem contact_parse_exact:
  "contact_from_serialized C bs \<noteq> Panic \<and>
   (contact_from_serialized C bs = Ok r \<longleftrightarrow>
      217 \<le> length bs \<and> contact_ok C r \<and> (\<exists>junk. bs = contact_serialize r @ junk))"
  using contact_from_serialized_not_Panic contact_from_serialized_exact contact_read_write by blast

text \<open>
  A contact record is verified against the certificates it carries: one that a device of the
  list signed verifies, whoever put the list together. So anyone can make a record that verifies,
  with a list that the master key never signed.
\<close>

theorem contact_verify_own_list:
  assumes "ed_ok C" and "cert \<in> set (devices l)" and "device_ed25519_pubkey cert = ed_pub C key"
  shows "contact_verify C (contact_new C l addr i key)"
  using assms by (force simp: contact_verify_def contact_new_def ed_ok_def list_ex_iff)

definition forged_list :: "32 arr \<Rightarrow> device_list" where
  "forged_list key = \<lparr>sequence = 1,
     devices = [\<lparr>device_ed25519_pubkey = key, device_x25519_pubkey = key, cert_signature = zero_arr\<rparr>],
     list_signature = zero_arr\<rparr>"

theorem contact_verify_own_list_witness:
  "contact_verify demo_crypto (contact_new demo_crypto (forged_list (arr_of (replicate 32 1))) (V4 zero_arr 1) 7 (arr_of (replicate 32 1))) \<and>
   \<not> list_verify demo_crypto (forged_list (arr_of (replicate 32 1))) (UserID (arr_of (replicate 32 2)))"
proof -
  let ?k = "arr_of (replicate 32 1) :: 32 arr"
  have "ed_ok demo_crypto" using demo_crypto_ok by (simp add: crypto_ok_def)
  moreover have "hd (devices (forged_list ?k)) \<in> set (devices (forged_list ?k))" by (simp add: forged_list_def)
  moreover have "device_ed25519_pubkey (hd (devices (forged_list ?k))) = ed_pub demo_crypto ?k"
    by (simp add: forged_list_def demo_crypto_def)
  ultimately have "contact_verify demo_crypto (contact_new demo_crypto (forged_list ?k) (V4 zero_arr 1) 7 ?k)"
    by (rule contact_verify_own_list)
  moreover have "replicate 64 (0 :: u8) \<noteq> replicate 32 2 @ x" for x
    by (simp add: numeral_eq_Suc)
  then have "\<not> list_verify demo_crypto (forged_list ?k) (UserID (arr_of (replicate 32 2)))"
    by (simp add: list_verify_def user_verify_def forged_list_def demo_crypto_def arr_of_eq_iff zero_arr_def)
  ultimately show ?thesis by blast
qed

end
