(* ===== verification/Registry.thy ===== *)
theory Registry
  imports Identity Packets
begin

text \<open>
  network/registry.rs and network/relay.rs: relay entries with ids derived from their keys, the
  registry of known relays with its file format, signed announcements, and the forwarder that
  unwraps a frame for a destination. Lemmas: the formats read back, no file makes the parser panic,
  the registry as a first-wins map, and what \<open>resolve\<close> accepts.
\<close>

section \<open>registry.rs\<close>

record relay_entry =
  re_id :: u128
  re_pubkey :: "32 arr"
  re_address :: socket_addr

definition derive_id :: "crypto \<Rightarrow> 32 arr \<Rightarrow> u128" where
  "derive_id C pubkey = from_be (take 16 (bytes_of (sha256 C (bytes_of pubkey @ ascii ''relay_id''))))"

definition relay_entry_new :: "crypto \<Rightarrow> u128 \<Rightarrow> 32 arr \<Rightarrow> socket_addr \<Rightarrow> relay_entry res" where
  "relay_entry_new C i pubkey address =
     (if i \<noteq> derive_id C pubkey then Err (Msg ''Invalid ID'')
      else Ok \<lparr>re_id = i, re_pubkey = pubkey, re_address = address\<rparr>)"

definition relay_entry_serialize :: "relay_entry \<Rightarrow> bytes" where
  "relay_entry_serialize e = be_bytes 16 (re_id e) @ bytes_of (re_pubkey e) @ write_address (re_address e)"

text \<open>The address at the end of an entry: the marker and what follows it.\<close>

definition relay_entry_address :: "bytes \<Rightarrow> socket_addr res" where
  "relay_entry_address bs =
     (case bs of
        [] \<Rightarrow> Err (Msg ''truncated relay entry: missing address marker'')
      | address_marker # bs \<Rightarrow>
          if address_marker = 4 then
            and_then (take_bytes bs) (\<lambda>(addr_bytes :: 6 arr, bs).
              Ok (V4 (arr_of (take 4 (bytes_of addr_bytes))) (from_be (drop 4 (bytes_of addr_bytes)))))
          else if address_marker = 6 then
            and_then (take_bytes bs) (\<lambda>(addr_bytes :: 18 arr, bs).
              Ok (V6 (arr_of (take 16 (bytes_of addr_bytes))) (from_be (drop 16 (bytes_of addr_bytes))) 0 0))
          else Err (Msg ''Invalid address marker''))"

definition relay_entry_from_serialized :: "crypto \<Rightarrow> bytes \<Rightarrow> relay_entry res" where
  "relay_entry_from_serialized C bs =
     and_then (take_bytes bs) (\<lambda>(id_bytes :: 16 arr, bs).
     and_then (take_bytes bs) (\<lambda>(pubkey :: 32 arr, bs).
     let i = from_be (bytes_of id_bytes) in
     if i \<noteq> derive_id C pubkey then Err (Msg ''Invalid relay ID (does not match the public key)'')
     else and_then (relay_entry_address bs) (\<lambda>address.
       Ok \<lparr>re_id = i, re_pubkey = pubkey, re_address = address\<rparr>)))"

definition relay_entry_ok :: "crypto \<Rightarrow> relay_entry \<Rightarrow> bool" where
  "relay_entry_ok C e \<longleftrightarrow> re_id e = derive_id C (re_pubkey e) \<and> canonical (re_address e)"

lemma relay_entry_new_ok: "relay_entry_new C i pk a = Ok e \<Longrightarrow> canonical a \<Longrightarrow> relay_entry_ok C e"
  by (auto simp: relay_entry_new_def relay_entry_ok_def split: if_splits)

lemma relay_entry_address_iff:
  "relay_entry_address bs = Ok a \<longleftrightarrow> canonical a \<and> (\<exists>junk. bs = write_address a @ junk)"
proof -
  have "relay_entry_address bs = Ok a \<longleftrightarrow> (\<exists>junk. read_address bs = Ok (a, junk))"
    by (cases bs) (auto simp: relay_entry_address_def read_address_def Let_def res_simps)
  then show ?thesis by (simp add: addr.read_iff)
qed

lemma relay_entry_read_write:
  assumes "relay_entry_ok C e"
  shows "relay_entry_from_serialized C (relay_entry_serialize e @ junk) = Ok e"
proof -
  have "relay_entry_address (write_address (re_address e) @ junk) = Ok (re_address e)"
    using assms by (auto simp: relay_entry_address_iff relay_entry_ok_def)
  then show ?thesis
    using assms
    by (simp add: relay_entry_from_serialized_def relay_entry_serialize_def relay_entry_ok_def from_be_be_bytes)
qed

lemma relay_entry_from_serialized_exact:
  assumes "relay_entry_from_serialized C bs = Ok e"
  shows "relay_entry_ok C e \<and> (\<exists>junk. bs = relay_entry_serialize e @ junk)"
proof -
  from assms obtain i :: "16 arr" and bs1 pk bs2 where 1: "take_bytes bs = Ok (i, bs1)" "take_bytes bs1 = Ok (pk, bs2)"
    and e: "from_be (bytes_of i) = derive_id C pk" "relay_entry_address bs2 = Ok (re_address e)"
      "re_id e = derive_id C pk" "re_pubkey e = pk"
    by (auto simp: relay_entry_from_serialized_def Let_def res_simps split: if_splits)
  obtain junk where "canonical (re_address e)" "bs2 = write_address (re_address e) @ junk"
    using e(2) by (auto simp: relay_entry_address_iff)
  moreover have "bytes_of i = be_bytes 16 (re_id e)" by (simp add: e(3) flip: e(1)) (simp add: be_bytes_from_be)
  ultimately show ?thesis using 1 e by (simp add: take_bytes_Ok_iff relay_entry_ok_def relay_entry_serialize_def)
qed

lemma relay_entry_from_serialized_iff:
  "relay_entry_from_serialized C bs = Ok e \<longleftrightarrow>
     relay_entry_ok C e \<and> (\<exists>junk. bs = relay_entry_serialize e @ junk)"
  using relay_entry_from_serialized_exact relay_entry_read_write by blast

lemma relay_entry_not_Panic: "relay_entry_from_serialized C bs \<noteq> Panic"
  by (auto simp: relay_entry_from_serialized_def relay_entry_address_def res_simps Let_def split: list.splits)

lemma relay_entry_from_serialized_valid:
  "relay_entry_from_serialized C bs = Ok e \<Longrightarrow> relay_entry_ok C e"
  by (simp add: relay_entry_from_serialized_iff)

interpretation relay_entry: codec relay_entry_serialize "relay_entry_from_serialized C" "relay_entry_ok C" for C
  by unfold_locales (metis relay_entry_read_write append_Nil2)

subsection \<open>The registry\<close>

record relay_registry =
  registry :: "relay_entry list"

definition registry_new :: relay_registry where
  "registry_new = \<lparr>registry = []\<rparr>"

definition registry_add :: "relay_entry \<Rightarrow> relay_registry \<Rightarrow> relay_registry" where
  "registry_add e r = r\<lparr>registry := registry r @ [e]\<rparr>"

definition registry_lookup :: "relay_registry \<Rightarrow> u128 \<Rightarrow> relay_entry option" where
  "registry_lookup r i = find (\<lambda>e. re_id e = i) (registry r)"

definition registry_remove :: "u128 \<Rightarrow> relay_registry \<Rightarrow> relay_registry" where
  "registry_remove i r = r\<lparr>registry := filter (\<lambda>e. re_id e \<noteq> i) (registry r)\<rparr>"

definition write_len_entry :: "relay_entry \<Rightarrow> bytes" where
  "write_len_entry e =
     (let entry_bytes = relay_entry_serialize e in be_bytes 4 (of_nat (length entry_bytes) :: u32) @ entry_bytes)"

definition registry_serialize :: "relay_registry \<Rightarrow> bytes" where
  "registry_serialize r =
     be_bytes 4 (of_nat (length (registry r)) :: u32) @ concat (map write_len_entry (registry r))"

text \<open>One round of the parser's loop.\<close>

definition read_len_entry :: "crypto \<Rightarrow> bytes \<Rightarrow> (relay_entry \<times> bytes) res" where
  "read_len_entry C bs =
     and_then (take_bytes bs) (\<lambda>(entry_len_bytes :: 4 arr, bs).
     let entry_len = unat (from_be (bytes_of entry_len_bytes) :: u32) in
     if length bs < entry_len then Err (Msg ''truncated entry bytes'')
     else
       and_then (drain entry_len bs) (\<lambda>(entry_bytes, bs).
       and_then (relay_entry_from_serialized C entry_bytes) (\<lambda>e. Ok (e, bs))))"

definition registry_from_serialized :: "crypto \<Rightarrow> bytes \<Rightarrow> relay_registry res" where
  "registry_from_serialized C bs =
     and_then (take_bytes bs) (\<lambda>(count_bytes :: 4 arr, bs).
     let count = unat (from_be (bytes_of count_bytes) :: u32); max_entries = length bs div 55 in
     if count > max_entries then Err (Msg ''entry count exceeds remaining bytes'')
     else and_then (read_many (read_len_entry C) count bs) (\<lambda>(es, _). Ok \<lparr>registry = es\<rparr>))"

lemma length_relay_entry_serialize: "length (relay_entry_serialize e) = 48 + length (write_address (re_address e))"
  by (simp add: relay_entry_serialize_def)

interpretation len_entry: stream_codec write_len_entry "read_len_entry C" "relay_entry_ok C" for C
proof
  fix e r
  assume e: "relay_entry_ok C e"
  have "length (relay_entry_serialize e) < 2 ^ 32"
    by (cases "re_address e") (simp_all add: length_relay_entry_serialize)
  then have "unat (of_nat (length (relay_entry_serialize e)) :: u32) = length (relay_entry_serialize e)"
    by (simp add: unat_of_nat)
  then show "read_len_entry C (write_len_entry e @ r) = Ok (e, r)"
    using relay_entry.dec_enc [OF e]
    by (simp add: read_len_entry_def write_len_entry_def Let_def from_be_be_bytes)
qed

lemma read_len_entry_not_Panic: "read_len_entry C bs \<noteq> Panic"
  by (auto simp: read_len_entry_def res_simps Let_def relay_entry_not_Panic)

lemma read_len_entry_valid: "read_len_entry C bs = Ok (e, r) \<Longrightarrow> relay_entry_ok C e"
  by (auto simp: read_len_entry_def res_simps Let_def relay_entry_from_serialized_valid split: if_splits)

lemma registry_from_serialized_not_Panic: "registry_from_serialized C bs \<noteq> Panic"
  by (auto simp: registry_from_serialized_def res_simps Let_def
      dest: read_many_not_Panic [OF read_len_entry_not_Panic, THEN notE])

lemma read_len_entries_valid:
  "read_many (read_len_entry C) n bs = Ok (es, r) \<Longrightarrow> \<forall>e \<in> set es. relay_entry_ok C e"
  by (induction n arbitrary: bs es r) (auto simp: res_simps read_len_entry_valid)

lemma length_write_entries: "59 * length es \<le> length (concat (map write_len_entry es))"
proof (induction es)
  case (Cons e es)
  have "59 \<le> length (write_len_entry e)"
    by (cases "re_address e") (simp_all add: write_len_entry_def Let_def length_relay_entry_serialize)
  then show ?case using Cons by simp
qed simp

lemma registry_read_write:
  assumes "\<forall>e \<in> set (registry r). relay_entry_ok C e" and "length (registry r) < 2 ^ 32"
  shows "registry_from_serialized C (registry_serialize r @ junk) = Ok r"
proof -
  let ?es = "registry r" and ?bs = "concat (map write_len_entry (registry r))"
  have n: "unat (of_nat (length ?es) :: u32) = length ?es" using assms(2) by (simp add: unat_of_nat)
  have "length ?es \<le> length (?bs @ junk) div 55" using length_write_entries [of ?es] by simp
  then show ?thesis
    using len_entry.read_many_write [OF assms(1), of junk]
    by (simp add: registry_from_serialized_def registry_serialize_def Let_def from_be_be_bytes n)
qed


subsection \<open>The registry as a directory\<close>

text \<open>What the forwarder relies on: the first entry of an id is found, until the id is removed.\<close>

locale directory =
  fixes look :: "'r \<Rightarrow> 'k \<Rightarrow> 'e option"
    and add :: "'e \<Rightarrow> 'r \<Rightarrow> 'r"
    and rem :: "'k \<Rightarrow> 'r \<Rightarrow> 'r"
    and key :: "'e \<Rightarrow> 'k"
  assumes look_add: "look (add e r) k = (case look r k of Some x \<Rightarrow> Some x | None \<Rightarrow> if key e = k then Some e else None)"
    and look_rem: "look (rem j r) k = (if k = j then None else look r k)"
    and look_key: "look r k = Some e \<Longrightarrow> key e = k"
begin

lemma add_keeps: "look r k = Some x \<Longrightarrow> look (add e r) k = Some x"
  by (simp add: look_add)

lemma replace: "look (add e (rem (key e) r)) k = (if k = key e then Some e else look r k)"
  by (auto simp: look_add look_rem split: option.splits)

lemma add_twice: "key e = key e' \<Longrightarrow> look (add e' (add e r)) k = look (add e r) k"
  by (auto simp: look_add split: option.splits)

end

lemma find_snoc:
  "find P (xs @ [e]) = (case find P xs of Some x \<Rightarrow> Some x | None \<Rightarrow> if P e then Some e else None)"
  by (induction xs) simp_all

lemma find_filter_key:
  "find (\<lambda>e. f e = k) (filter (\<lambda>e. f e \<noteq> j) xs) = (if k = j then None else find (\<lambda>e. f e = k) xs)"
  by (induction xs) auto

interpretation relays: directory registry_lookup registry_add registry_remove re_id
proof
  fix e r and k :: u128
  show "registry_lookup (registry_add e r) k =
      (case registry_lookup r k of Some x \<Rightarrow> Some x | None \<Rightarrow> if re_id e = k then Some e else None)"
    by (simp add: registry_lookup_def registry_add_def find_snoc)
next
  fix j k :: u128 and r
  show "registry_lookup (registry_remove j r) k = (if k = j then None else registry_lookup r k)"
    by (simp add: registry_lookup_def registry_remove_def find_filter_key)
next
  fix r k e
  assume "registry_lookup r k = Some e"
  then show "re_id e = k" by (auto simp: registry_lookup_def find_Some_iff)
qed

subsection \<open>Announcements and peer ids\<close>

record relay_announcement =
  an_signature :: "64 arr"
  an_entry :: relay_entry

definition announcement_new :: "crypto \<Rightarrow> master_key_pair \<Rightarrow> relay_entry \<Rightarrow> relay_announcement" where
  "announcement_new C keypair e =
     \<lparr>an_signature = master_sign C keypair (relay_entry_serialize e), an_entry = e\<rparr>"

definition announcement_verify :: "crypto \<Rightarrow> relay_announcement \<Rightarrow> bool" where
  "announcement_verify C a =
     (if \<not> ed_valid C (re_pubkey (an_entry a)) then False
      else ed_verify C (re_pubkey (an_entry a)) (relay_entry_serialize (an_entry a)) (an_signature a))"

definition from_master_pubkey :: "crypto \<Rightarrow> 32 arr \<Rightarrow> u128" where
  "from_master_pubkey C pubkey = from_be (take 16 (bytes_of (sha256 C (bytes_of pubkey @ ascii ''peer_id''))))"

lemma announcement_verifies:
  "ed_ok C \<Longrightarrow> master_ok C m \<Longrightarrow> re_pubkey e = m_public_key m \<Longrightarrow> announcement_verify C (announcement_new C m e)"
  by (simp add: announcement_verify_def announcement_new_def master_sign_def master_ok_def ed_ok_def)

section \<open>relay.rs\<close>

record relay_frame =
  dest_id :: u128
  frame_payload :: bytes

definition relay_frame_new :: "u128 \<Rightarrow> bytes \<Rightarrow> relay_frame" where
  "relay_frame_new i p = \<lparr>dest_id = i, frame_payload = p\<rparr>"

definition relay_frame_serialize :: "relay_frame \<Rightarrow> bytes" where
  "relay_frame_serialize f = be_bytes 16 (dest_id f) @ frame_payload f"

definition relay_frame_from_serialized :: "bytes \<Rightarrow> relay_frame res" where
  "relay_frame_from_serialized bs =
     (if length bs < 16 then Err (Msg ''relay frame too short'')
      else
        and_then (drain 16 bs) (\<lambda>(d, bs).
        and_then (ok_or (try_arr d) (Msg ''failed to parse dest id'')) (\<lambda>id_bytes :: 16 arr.
          Ok \<lparr>dest_id = from_be (bytes_of id_bytes), frame_payload = bs\<rparr>)))"

lemma relay_frame_iff: "relay_frame_from_serialized bs = Ok f \<longleftrightarrow> bs = relay_frame_serialize f"
proof (cases "length bs < 16")
  case True
  then show ?thesis by (auto simp: relay_frame_from_serialized_def relay_frame_serialize_def)
next
  case False
  then have eq: "relay_frame_from_serialized bs = Ok \<lparr>dest_id = from_be (take 16 bs), frame_payload = drop 16 bs\<rparr>"
    by (simp add: relay_frame_from_serialized_def)
  show ?thesis
  proof
    assume "relay_frame_from_serialized bs = Ok f"
    then have "f = \<lparr>dest_id = from_be (take 16 bs), frame_payload = drop 16 bs\<rparr>" using eq by simp
    then show "bs = relay_frame_serialize f" using False by (simp add: relay_frame_serialize_def be_bytes_from_be)
  next
    assume "bs = relay_frame_serialize f"
    then show "relay_frame_from_serialized bs = Ok f"
      using eq by (cases f) (simp add: relay_frame_serialize_def from_be_be_bytes)
  qed
qed

interpretation relay_frame: codec relay_frame_serialize relay_frame_from_serialized "\<lambda>_. True"
  by unfold_locales (simp add: relay_frame_iff)

text \<open>The forwarder holds a registry; \<open>?\<close> on an error or \<open>None\<close> gives \<open>None\<close>.\<close>

definition resolve :: "relay_registry \<Rightarrow> packet \<Rightarrow> (packet \<times> socket_addr) option" where
  "resolve reg outer =
     (case relay_frame_from_serialized (data (payload outer)) of
        Ok frame \<Rightarrow>
          (case registry_lookup reg (dest_id frame) of
             None \<Rightarrow> None
           | Some e \<Rightarrow>
               (case packet_from_serialized (frame_payload frame) of
                  Ok inner \<Rightarrow> Some (inner, re_address e)
                | _ \<Rightarrow> None))
      | _ \<Rightarrow> None)"

definition should_confirm :: "packet \<Rightarrow> bool" where
  "should_confirm outer = flags_contains (hflags (header outer)) AckRequired"

lemma resolve_iff:
  "resolve reg outer = Some (inner, addr) \<longleftrightarrow>
     (\<exists>f e. data (payload outer) = relay_frame_serialize f \<and> frame_payload f = packet_serialize inner \<and>
        registry_lookup reg (dest_id f) = Some e \<and> re_address e = addr)"
proof
  assume "resolve reg outer = Some (inner, addr)"
  then show "\<exists>f e. data (payload outer) = relay_frame_serialize f \<and> frame_payload f = packet_serialize inner \<and>
        registry_lookup reg (dest_id f) = Some e \<and> re_address e = addr"
    by (auto simp: resolve_def relay_frame_iff packet_from_serialized_iff split: res.splits option.splits)
next
  assume "\<exists>f e. data (payload outer) = relay_frame_serialize f \<and> frame_payload f = packet_serialize inner \<and>
        registry_lookup reg (dest_id f) = Some e \<and> re_address e = addr"
  then show "resolve reg outer = Some (inner, addr)" by (auto simp: resolve_def relay_frame.dec_enc)
qed

section \<open>Properties\<close>

text \<open>
  The registry file: what is saved is loaded, whatever follows it, for up to \<open>2 ^ 32 - 1\<close> valid
  entries; no bytes make the parser panic; and whatever it loads has ids that belong to their keys.
\<close>

theorem registry_file_roundtrip:
  assumes "\<forall>e \<in> set (registry r). relay_entry_ok C e" and "length (registry r) < 2 ^ 32"
  shows "registry_from_serialized C (registry_serialize r @ junk) = Ok r \<and>
    registry_from_serialized C bs \<noteq> Panic \<and>
    (\<forall>r'. registry_from_serialized C bs = Ok r' \<longrightarrow> (\<forall>e \<in> set (registry r'). re_id e = derive_id C (re_pubkey e)))"
proof -
  have "re_id e = derive_id C (re_pubkey e)" if "registry_from_serialized C bs = Ok r'" "e \<in> set (registry r')" for r' e
    using that
    by (auto simp: registry_from_serialized_def res_simps Let_def relay_entry_ok_def
        dest!: read_len_entries_valid split: if_splits)
  then show ?thesis using registry_read_write [OF assms] registry_from_serialized_not_Panic by blast
qed

definition demo_relay :: "u8 \<Rightarrow> relay_entry" where
  "demo_relay b = (let pk = arr_of (replicate 32 b) in
     \<lparr>re_id = derive_id demo_crypto pk, re_pubkey = pk, re_address = V4 (arr_of [10, 0, 0, b]) 4000\<rparr>)"

theorem registry_file_roundtrip_witness:
  "registry_from_serialized demo_crypto (registry_serialize \<lparr>registry = [demo_relay 1, demo_relay 2]\<rparr> @ [9]) =
     Ok \<lparr>registry = [demo_relay 1, demo_relay 2]\<rparr>"
proof -
  let ?r = "\<lparr>registry = [demo_relay 1, demo_relay 2]\<rparr>"
  have "\<forall>e \<in> set (registry ?r). relay_entry_ok demo_crypto e"
    by (simp add: demo_relay_def relay_entry_ok_def Let_def)
  moreover have "length (registry ?r) < 2 ^ 32" by simp
  ultimately show ?thesis by (rule registry_file_roundtrip [THEN conjunct1])
qed

text \<open>
  C39. What the relay forwards: exactly the packets whose data is a frame with a whole packet inside,
  for an id that some entry has, to the address of the first such entry; a later entry with the same
  id changes nothing, and once an id is removed nothing is forwarded to it.
\<close>

theorem resolve_exact:
  "(resolve reg outer = Some (inner, addr) \<longleftrightarrow>
     (\<exists>i e. data (payload outer) = be_bytes 16 i @ packet_serialize inner \<and>
        registry_lookup reg i = Some e \<and> re_address e = addr)) \<and>
   (resolve reg outer = Some (inner, addr) \<longrightarrow> resolve (registry_add e' reg) outer = Some (inner, addr)) \<and>
   resolve (registry_remove (from_be (take 16 (data (payload outer)))) reg) outer = None"
proof -
  have iff: "resolve reg outer = Some (inner, addr) \<longleftrightarrow>
     (\<exists>i e. data (payload outer) = be_bytes 16 i @ packet_serialize inner \<and>
        registry_lookup reg i = Some e \<and> re_address e = addr)" for reg inner addr
    unfolding resolve_iff
    by (metis relay_frame.select_convs relay_frame_serialize_def)
  have "resolve (registry_remove (from_be (take 16 (data (payload outer)))) reg) outer = None"
  proof (rule ccontr)
    assume "\<not> ?thesis"
    then obtain p a where "resolve (registry_remove (from_be (take 16 (data (payload outer)))) reg) outer = Some (p, a)"
      by auto
    then show False by (auto simp: iff relays.look_rem from_be_be_bytes)
  qed
  then show ?thesis using iff relays.add_keeps by blast
qed

definition demo_outer :: "u128 \<Rightarrow> packet \<Rightarrow> packet" where
  "demo_outer i inner = packet_new 0 6 (payload_new RelayFrame (relay_frame_serialize (relay_frame_new i (packet_serialize inner))))"

theorem resolve_exact_witness:
  "resolve \<lparr>registry = [demo_relay 1]\<rparr> (demo_outer (re_id (demo_relay 1)) (packet_new 0 5 (payload_new Message [1, 2]))) =
     Some (packet_new 0 5 (payload_new Message [1, 2]), re_address (demo_relay 1))"
proof -
  let ?inner = "packet_new 0 5 (payload_new Message [1, 2])"
  have "data (payload (demo_outer (re_id (demo_relay 1)) ?inner)) = be_bytes 16 (re_id (demo_relay 1)) @ packet_serialize ?inner"
    by (simp add: demo_outer_def packet_new_def payload_new_def relay_frame_serialize_def relay_frame_new_def)
  moreover have "registry_lookup \<lparr>registry = [demo_relay 1]\<rparr> (re_id (demo_relay 1)) = Some (demo_relay 1)"
    by (simp add: registry_lookup_def)
  ultimately show ?thesis by (subst resolve_exact [THEN conjunct1]) blast
qed

end
