(* ===== verification/Storage.thy ===== *)
theory Storage
  imports Crypto Wire
begin

text \<open>
  storage.rs: the two files that keep what was learned about peers between runs, the trusted keys
  by address and the addresses by master key. A cursor into the slice is the rest of the slice; a
  map is written in the order of its association list. Lemmas: what is saved is loaded, as a map,
  and loading never panics.
\<close>

section \<open>Addresses\<close>

definition write_addr :: "socket_addr \<Rightarrow> bytes" where
  "write_addr addr =
     (case addr of V4 ip _ \<Rightarrow> [4] @ bytes_of ip | V6 ip _ _ _ \<Rightarrow> [6] @ bytes_of ip) @ be_bytes 2 (port addr)"

definition read_addr :: "bytes \<Rightarrow> (socket_addr \<times> bytes) res" where
  "read_addr bs =
     (if bs = [] then Err (Msg ''truncated at addr kind'')
      else
        let kind = bs ! 0; bs = drop 1 bs in
        if kind = 4 then
          if length bs < 6 then Err (Msg ''truncated at IPv4 addr'')
          else
            and_then (sub_arr bs 0 4) (\<lambda>octets.
            and_then (sub_bytes bs 4 6) (\<lambda>p. Ok (V4 octets (from_be p), drop 6 bs)))
        else if kind = 6 then
          if length bs < 18 then Err (Msg ''truncated at IPv6 addr'')
          else
            and_then (sub_arr bs 0 16) (\<lambda>octets.
            and_then (sub_bytes bs 16 18) (\<lambda>p. Ok (V6 octets (from_be p) 0 0, drop 18 bs)))
        else Err (MsgNats ''unknown addr kind: {}'' [unat kind]))"

lemma write_addr_eq: "write_addr addr = write_address addr"
  by (cases addr) (simp_all add: write_addr_def)

text \<open>The reader accepts what \<open>read_address\<close> accepts, with other messages.\<close>

lemma read_addr_iff: "read_addr bs = Ok (a, r) \<longleftrightarrow> canonical a \<and> bs = write_address a @ r"
proof -
  have "read_addr bs = Ok (a, r) \<longleftrightarrow> read_address bs = Ok (a, r)"
    by (cases bs) (auto simp: read_addr_def read_address_def take_bytes_def Let_def drop_take)
  then show ?thesis by (simp add: addr.read_iff)
qed

lemma read_addr_not_Panic: "read_addr bs \<noteq> Panic"
  by (simp add: read_addr_def Let_def)

interpretation file_addr: exact_codec write_addr read_addr canonical
  by unfold_locales (auto simp: read_addr_iff write_addr_eq read_addr_not_Panic)

section \<open>The two files\<close>

definition write_key_item :: "socket_addr \<times> 32 arr \<Rightarrow> bytes" where
  "write_key_item kv = write_addr (fst kv) @ bytes_of (snd kv)"

definition serialize_peer_keys :: "(socket_addr, 32 arr) hash_map \<Rightarrow> bytes" where
  "serialize_peer_keys m = be_bytes 4 (of_nat (length m) :: u32) @ concat (map write_key_item m)"

definition read_key_item :: "crypto \<Rightarrow> bytes \<Rightarrow> ((socket_addr \<times> 32 arr) \<times> bytes) res" where
  "read_key_item C bs =
     and_then (read_addr bs) (\<lambda>(addr, bs).
     if length bs < 32 then Err (Msg ''truncated at pubkey'')
     else
       and_then (sub_arr bs 0 32) (\<lambda>pk.
       if \<not> ed_valid C pk then Err (Wrap ''bad verifying key: {e}'' (Msg ''signature error''))
       else Ok ((addr, pk), drop 32 bs)))"

text \<open>The insertions of the loop, in the order of the file: a later item of a key replaces.\<close>

definition insert_all :: "('k \<times> 'v) list \<Rightarrow> ('k, 'v) hash_map" where
  "insert_all items = fold (\<lambda>(k, v). AList.update k v) items []"

definition deserialize_peer_keys :: "crypto \<Rightarrow> bytes \<Rightarrow> (socket_addr, 32 arr) hash_map res" where
  "deserialize_peer_keys C bs =
     (if length bs < 4 then Err (Msg ''peer keys too short'')
      else
        and_then (sub_bytes bs 0 4) (\<lambda>n.
        and_then (read_many (read_key_item C) (unat (from_be n :: u32)) (drop 4 bs)) (\<lambda>(items, _).
          Ok (insert_all items))))"

definition write_pk_item :: "32 arr \<times> socket_addr \<Rightarrow> bytes" where
  "write_pk_item kv = bytes_of (fst kv) @ write_addr (snd kv)"

definition serialize_pk_to_addr :: "(32 arr, socket_addr) hash_map \<Rightarrow> bytes" where
  "serialize_pk_to_addr m = be_bytes 4 (of_nat (length m) :: u32) @ concat (map write_pk_item m)"

definition read_pk_item :: "bytes \<Rightarrow> ((32 arr \<times> socket_addr) \<times> bytes) res" where
  "read_pk_item bs =
     (if length bs < 32 then Err (Msg ''truncated at pubkey'')
      else
        and_then (sub_arr bs 0 32) (\<lambda>pk.
        and_then (read_addr (drop 32 bs)) (\<lambda>(addr, bs). Ok ((pk, addr), bs))))"

definition deserialize_pk_to_addr :: "bytes \<Rightarrow> (32 arr, socket_addr) hash_map res" where
  "deserialize_pk_to_addr bs =
     (if length bs < 4 then Err (Msg ''pk_to_addr too short'')
      else
        and_then (sub_bytes bs 0 4) (\<lambda>n.
        and_then (read_many read_pk_item (unat (from_be n :: u32)) (drop 4 bs)) (\<lambda>(items, _).
          Ok (insert_all items))))"

section \<open>What is loaded\<close>

interpretation key_item: exact_codec write_key_item "read_key_item C" "\<lambda>kv. canonical (fst kv) \<and> ed_valid C (snd kv)" for C
proof
  show "read_key_item C (write_key_item kv @ r) = Ok (kv, r)" if "canonical (fst kv) \<and> ed_valid C (snd kv)" for kv r
    using that by (cases kv) (simp add: read_key_item_def write_key_item_def file_addr.read_write)
  show "(canonical (fst kv) \<and> ed_valid C (snd kv)) \<and> bs = write_key_item kv @ r" if "read_key_item C bs = Ok (kv, r)" for bs kv r
    using that
    by (cases kv) (auto simp: read_key_item_def write_key_item_def res_simps file_addr.read_iff split: if_splits)
  show "read_key_item C bs \<noteq> Panic" for bs
    by (simp add: read_key_item_def res_simps read_addr_not_Panic)
qed

interpretation pk_item: exact_codec write_pk_item read_pk_item "\<lambda>kv. canonical (snd kv)"
proof
  show "read_pk_item (write_pk_item kv @ r) = Ok (kv, r)" if "canonical (snd kv)" for kv r
    using that by (cases kv) (simp add: read_pk_item_def write_pk_item_def file_addr.read_write)
  show "canonical (snd kv) \<and> bs = write_pk_item kv @ r" if "read_pk_item bs = Ok (kv, r)" for bs kv r
  proof -
    obtain k a where kv: "kv = (k, a)" by (cases kv)
    from that have l: "32 \<le> length bs" and k: "k = arr_of (take 32 bs)" and a: "read_addr (drop 32 bs) = Ok (a, r)"
      by (auto simp: kv read_pk_item_def res_simps split: if_splits)
    have "bs = take 32 bs @ drop 32 bs" by simp
    also have "take 32 bs = bytes_of k" using k l by simp
    also have "drop 32 bs = write_addr a @ r" using a by (simp add: file_addr.read_iff)
    finally show ?thesis using a by (simp add: kv write_pk_item_def file_addr.read_iff)
  qed
  show "read_pk_item bs \<noteq> Panic" for bs
    by (simp add: read_pk_item_def res_simps read_addr_not_Panic)
qed

lemma insert_all_append: "insert_all (items @ [(k, v)]) = AList.update k v (insert_all items)"
  by (simp add: insert_all_def)

lemma insert_all_ok: "hm_ok (insert_all items)"
  by (induction items rule: rev_induct) (auto simp: insert_all_append insert_all_def hm_ok_def distinct_update)

lemma map_of_insert_all: "map_of (insert_all items) = map_of (rev items)"
  by (induction items rule: rev_induct) (auto simp: insert_all_append update_conv' insert_all_def)

lemma map_of_eqI_rev:
  assumes "distinct (map fst m)"
  shows "map_of (rev m) = map_of m"
proof
  fix k
  have "map_of (rev m) k = Some v \<longleftrightarrow> map_of m k = Some v" for v
    using assms by (simp add: rev_map map_of_eq_Some_iff flip: rev_map)
  then show "map_of (rev m) k = map_of m k" by (metis option.exhaust)
qed

lemma map_of_insert_all_hm: "hm_ok m \<Longrightarrow> map_of (insert_all m) = map_of m"
  unfolding map_of_insert_all hm_ok_def
  by (rule map_of_eqI_rev)


section \<open>Properties\<close>

lemma count_roundtrip: "length xs < 2 ^ 32 \<Longrightarrow> unat (from_be (be_bytes 4 (of_nat (length xs) :: u32)) :: u32) = length xs"
  by (simp add: from_be_be_bytes unat_of_nat)

lemma peer_keys_read_write:
  assumes "\<forall>(a, k) \<in> set m. canonical a \<and> ed_valid C k" and "length m < 2 ^ 32"
  shows "deserialize_peer_keys C (serialize_peer_keys m @ junk) = Ok (insert_all m)"
proof -
  have "\<forall>kv \<in> set m. canonical (fst kv) \<and> ed_valid C (snd kv)" using assms(1) by auto
  from key_item.read_many_write [OF this, of junk] show ?thesis
    using count_roundtrip [OF assms(2)]
    by (simp add: deserialize_peer_keys_def serialize_peer_keys_def)
qed

lemma pk_to_addr_read_write:
  assumes "\<forall>(k, a) \<in> set m. canonical a" and "length m < 2 ^ 32"
  shows "deserialize_pk_to_addr (serialize_pk_to_addr m @ junk) = Ok (insert_all m)"
proof -
  have "\<forall>kv \<in> set m. canonical (snd kv)" using assms(1) by auto
  from pk_item.read_many_write [OF this, of junk] show ?thesis
    using count_roundtrip [OF assms(2)]
    by (simp add: deserialize_pk_to_addr_def serialize_pk_to_addr_def)
qed

lemma storage_not_Panic:
  "deserialize_peer_keys C bs \<noteq> Panic" "deserialize_pk_to_addr bs \<noteq> Panic"
  by (auto simp: deserialize_peer_keys_def deserialize_pk_to_addr_def res_simps key_item.read_many_total pk_item.read_many_total)

text \<open>
  Both files load as the maps that were saved, in whatever order the maps were written, when the
  addresses carry no IPv6 flow information or scope and the keys are valid; and no file makes the
  readers panic.
\<close>

theorem storage_roundtrip:
  assumes "hm_ok keys" and "\<forall>(a, k) \<in> set keys. canonical a \<and> ed_valid C k" and "length keys < 2 ^ 32"
    and "hm_ok addrs" and "\<forall>(k, a) \<in> set addrs. canonical a" and "length addrs < 2 ^ 32"
  shows "(\<exists>m. deserialize_peer_keys C (serialize_peer_keys keys) = Ok m \<and> hm_ok m \<and> map_of m = map_of keys) \<and>
    (\<exists>m. deserialize_pk_to_addr (serialize_pk_to_addr addrs) = Ok m \<and> hm_ok m \<and> map_of m = map_of addrs) \<and>
    deserialize_peer_keys C bs \<noteq> Panic \<and> deserialize_pk_to_addr bs \<noteq> Panic"
  using peer_keys_read_write [OF assms(2,3), of "[]"] pk_to_addr_read_write [OF assms(5,6), of "[]"]
    map_of_insert_all_hm [OF assms(1)] map_of_insert_all_hm [OF assms(4)] insert_all_ok storage_not_Panic
  by (metis append_Nil2)

theorem storage_roundtrip_witness:
  "\<exists>m. deserialize_peer_keys demo_crypto (serialize_peer_keys [(V4 zero_arr 1, zero_arr), (V4 zero_arr 2, zero_arr)]) = Ok m \<and>
     map_of m (V4 zero_arr 2) = Some zero_arr"
proof -
  let ?m = "[(V4 zero_arr 1, zero_arr), (V4 zero_arr 2, zero_arr)] :: (socket_addr, 32 arr) hash_map"
  have 1: "hm_ok ?m" "length ?m < 2 ^ 32" "\<forall>(a, k) \<in> set ?m. canonical a \<and> ed_valid demo_crypto k"
    by (simp_all add: hm_ok_def demo_crypto_def)
  have 2: "hm_ok ([] :: (32 arr, socket_addr) hash_map)" "\<forall>(k, a) \<in> set ([] :: (32 arr, socket_addr) hash_map). canonical a"
    "length ([] :: (32 arr, socket_addr) hash_map) < 2 ^ 32" by simp_all
  from storage_roundtrip [OF 1(1,3,2) 2] obtain m where
    "deserialize_peer_keys demo_crypto (serialize_peer_keys ?m) = Ok m" "map_of m = map_of ?m" by blast
  then show ?thesis by auto
qed

end
