(* ===== verification/Runtime.thy ===== *)
theory Runtime
  imports Session Messages Registry Contacts DhtServer Storage
begin

text \<open>
  runtime.rs: the state of a running node and its handlers. The piles are lists (front first), the
  channels to the transport and to the application are the lists of what was sent on them, and the
  random values come from a stream in the state. One clock reading serves a whole handler. Lemmas:
  the invariant that links sessions, connections and peers; what a handshake, a message and a
  relayed packet do to the state; a message from one runtime to another, end to end.
\<close>

section \<open>The state\<close>

type_synonym pile = "(packet \<times> socket_addr) list"

text \<open>
  \<open>rt_draws\<close> is the stream of random values and \<open>rt_drawn\<close> how many were used. \<open>rt_out\<close>, \<open>rt_acks\<close>,
  \<open>rt_msgs\<close> and \<open>rt_sess\<close> are what went into the four channels; \<open>rt_msg_rx\<close> and \<open>rt_sess_rx\<close> say whether
  the receiving ends of the last two are still there to be subscribed to.
\<close>

record 'hs runtime =
  rt_routing :: routing_table
  rt_client :: dht_client
  rt_server :: "dht_node option"
  rt_id :: node_id
  rt_address :: socket_addr
  rt_dht_pile :: pile
  rt_relay_pile :: pile
  rt_handshake_pile :: pile
  rt_message_pile :: pile
  rt_relay_fwd :: "relay_registry option"
  rt_sessions :: "(16 arr, 'hs session) hash_map"
  rt_pending :: "(16 arr, 'hs session \<times> 32 arr option) hash_map"
  rt_conn_to_pk :: "(16 arr, 32 arr) hash_map"
  rt_pk_to_conn :: "(32 arr, 16 arr list) hash_map"
  rt_pk_to_addr :: "(32 arr, socket_addr) hash_map"
  rt_seen_tags :: "16 arr set"
  rt_received_keys :: "(32 arr, instant) hash_map"
  rt_x25519_priv :: "32 arr"
  rt_ed25519_priv :: "32 arr option"
  rt_out :: pile
  rt_acks :: "(u128 \<times> socket_addr) list"
  rt_msgs :: "(message \<times> 32 arr) list"
  rt_msg_rx :: bool
  rt_sess :: "(32 arr \<times> 32 arr) list"
  rt_sess_rx :: bool
  rt_master_pubkey :: "32 arr option"
  rt_device_cert :: "device_cert option"
  rt_peer_keys :: "(socket_addr, 32 arr) hash_map"
  rt_relay_addr :: "socket_addr option"
  rt_draws :: "nat \<Rightarrow> 32 arr"
  rt_drawn :: nat

definition runtime_bind :: "node_id \<Rightarrow> socket_addr \<Rightarrow> 32 arr option \<Rightarrow> 32 arr \<Rightarrow> (nat \<Rightarrow> 32 arr) \<Rightarrow> 'hs runtime" where
  "runtime_bind i actual_addr signing_key x25519_priv draws =
     \<lparr>rt_routing = routing_new i, rt_client = client_new i, rt_server = None, rt_id = i, rt_address = actual_addr,
      rt_dht_pile = [], rt_relay_pile = [], rt_handshake_pile = [], rt_message_pile = [],
      rt_relay_fwd = None, rt_sessions = [], rt_pending = [], rt_conn_to_pk = [], rt_pk_to_conn = [],
      rt_pk_to_addr = [], rt_seen_tags = {}, rt_received_keys = [],
      rt_x25519_priv = x25519_priv, rt_ed25519_priv = signing_key,
      rt_out = [], rt_acks = [], rt_msgs = [], rt_msg_rx = True, rt_sess = [], rt_sess_rx = True,
      rt_master_pubkey = None, rt_device_cert = None, rt_peer_keys = [], rt_relay_addr = None, rt_draws = draws, rt_drawn = 0\<rparr>"

definition draw :: "'hs runtime \<Rightarrow> 'hs runtime \<times> 32 arr" where
  "draw r = (r\<lparr>rt_drawn := Suc (rt_drawn r)\<rparr>, rt_draws r (rt_drawn r))"

definition draw_u128 :: "'hs runtime \<Rightarrow> 'hs runtime \<times> u128" where
  "draw_u128 r = (let (r, d) = draw r in (r, from_be (take 16 (bytes_of d))))"

text \<open>The sorting thread puts a packet from the transport onto the pile of its tag.\<close>

definition sort_packet :: "packet \<Rightarrow> socket_addr \<Rightarrow> 'hs runtime \<Rightarrow> 'hs runtime" where
  "sort_packet pkt sender r =
     (case tag (payload pkt) of
        DhtOperation \<Rightarrow> r\<lparr>rt_dht_pile := rt_dht_pile r @ [(pkt, sender)]\<rparr>
      | RelayFrame \<Rightarrow> r\<lparr>rt_relay_pile := rt_relay_pile r @ [(pkt, sender)]\<rparr>
      | Handshake \<Rightarrow> r\<lparr>rt_handshake_pile := rt_handshake_pile r @ [(pkt, sender)]\<rparr>
      | Message \<Rightarrow> r\<lparr>rt_message_pile := rt_message_pile r @ [(pkt, sender)]\<rparr>
      | _ \<Rightarrow> r)"

definition enable_server :: "'hs runtime \<Rightarrow> 'hs runtime" where
  "enable_server r = r\<lparr>rt_server := Some (dht_node_new (rt_id r) (rt_address r))\<rparr>"

definition enable_relay :: "relay_registry \<Rightarrow> 'hs runtime \<Rightarrow> 'hs runtime" where
  "enable_relay reg r = r\<lparr>rt_relay_fwd := Some reg\<rparr>"

definition set_master_pubkey :: "32 arr \<Rightarrow> 'hs runtime \<Rightarrow> 'hs runtime" where
  "set_master_pubkey pk r = r\<lparr>rt_master_pubkey := Some pk\<rparr>"

definition set_device_cert :: "device_cert \<Rightarrow> 'hs runtime \<Rightarrow> 'hs runtime" where
  "set_device_cert cert r = r\<lparr>rt_device_cert := Some cert\<rparr>"

definition set_relay :: "socket_addr \<Rightarrow> 'hs runtime \<Rightarrow> 'hs runtime" where
  "set_relay addr r = r\<lparr>rt_relay_addr := Some addr\<rparr>"

definition subscribe :: "'hs runtime \<Rightarrow> 'hs runtime res" where
  "subscribe r = (if rt_msg_rx r then Ok (r\<lparr>rt_msg_rx := False\<rparr>) else Panic)"

definition subscribe_sessions :: "'hs runtime \<Rightarrow> 'hs runtime res" where
  "subscribe_sessions r = (if rt_sess_rx r then Ok (r\<lparr>rt_sess_rx := False\<rparr>) else Panic)"

definition set_peer_addr :: "32 arr \<Rightarrow> socket_addr \<Rightarrow> 'hs runtime \<Rightarrow> 'hs runtime" where
  "set_peer_addr pk addr r = r\<lparr>rt_pk_to_addr := AList.update pk addr (rt_pk_to_addr r)\<rparr>"

definition confirm :: "u128 \<Rightarrow> socket_addr \<Rightarrow> 'hs runtime \<Rightarrow> 'hs runtime" where
  "confirm i dst r = r\<lparr>rt_acks := rt_acks r @ [(i, dst)]\<rparr>"

text \<open>The end of most handlers: acknowledge the packet if its sender asked for it.\<close>

definition confirm_if_required :: "packet \<Rightarrow> socket_addr \<Rightarrow> 'hs runtime \<Rightarrow> 'hs runtime" where
  "confirm_if_required pkt sender r =
     (if flags_contains (hflags (header pkt)) AckRequired then confirm (pid (header pkt)) sender r else r)"

definition send_packet :: "packet \<Rightarrow> socket_addr \<Rightarrow> u128 \<Rightarrow> 'hs runtime \<Rightarrow> 'hs runtime" where
  "send_packet pkt relay_addr relay_id r =
     (let (r, i) = draw_u128 r;
          wrapped = packet_new 0 i (payload_new RelayFrame (relay_frame_serialize (relay_frame_new relay_id (packet_serialize pkt))))
      in r\<lparr>rt_out := rt_out r @ [(wrapped, relay_addr)]\<rparr>)"

definition send_dht_op :: "dht_operation \<Rightarrow> socket_addr \<Rightarrow> 'hs runtime \<Rightarrow> 'hs runtime" where
  "send_dht_op op dst r =
     (let (r, i) = draw_u128 r
      in r\<lparr>rt_out := rt_out r @ [(packet_new 0 i (payload_new DhtOperation (op_serialize op)), dst)]\<rparr>)"

section \<open>Sessions\<close>

definition enable_session_initiator ::
    "'hs noise \<Rightarrow> 32 arr \<Rightarrow> user_id \<Rightarrow> 'hs runtime \<Rightarrow> 'hs runtime \<times> 16 arr res" where
  "enable_session_initiator N peer_x25519 peer_user r =
     (case and_then (ok_or (rt_master_pubkey r) (Msg ''master pubkey not set'')) (\<lambda>our_master.
           and_then (ok_or (rt_device_cert r) (Msg ''No device certificate available'')) (\<lambda>cert.
             new_initiator N (rt_x25519_priv r) peer_x25519 cert our_master peer_user)) of
        Err e \<Rightarrow> (r, Err e)
      | Panic \<Rightarrow> (r, Panic)
      | Ok s \<Rightarrow>
          (let (r, i) = draw_u128 r; t = arr_of (be_bytes 16 i)
           in (r\<lparr>rt_pending := AList.update t (s, Some (user_public_key peer_user)) (rt_pending r)\<rparr>, Ok t)))"

definition spawn_responder :: "'hs noise \<Rightarrow> 'hs runtime \<Rightarrow> 'hs session res" where
  "spawn_responder N r =
     and_then (ok_or (rt_device_cert r) (Msg ''device cert not set'')) (\<lambda>cert.
     and_then (ok_or (rt_master_pubkey r) (Msg ''master pubkey not set'')) (\<lambda>master.
       new_responder N (rt_x25519_priv r) cert master))"

definition handshake_packet :: "u128 \<Rightarrow> 16 arr \<Rightarrow> bytes \<Rightarrow> packet" where
  "handshake_packet i t bs = packet_new 0 i ((payload_new Handshake bs)\<lparr>connection_id := t\<rparr>)"

definition rt_initiate_handshake ::
    "'hs noise \<Rightarrow> crypto \<Rightarrow> 16 arr \<Rightarrow> 'hs runtime \<Rightarrow> 'hs runtime \<times> unit res" where
  "rt_initiate_handshake N C t r =
     (case map_of (rt_pending r) t of
        None \<Rightarrow> (r, Err (Msg ''unknown pending tag''))
      | Some (s, None) \<Rightarrow> (r, Err (Msg ''initiator must have peer_pk''))
      | Some (s, Some peer_pk) \<Rightarrow>
          (let (r, secret) = draw r; (r, eph) = draw r;
               (s, out) = initiate_handshake N C secret eph (rt_address r) s;
               r = r\<lparr>rt_pending := AList.update t (s, Some peer_pk) (rt_pending r)\<rparr>
           in case out of
                Err e \<Rightarrow> (r, Err e)
              | Panic \<Rightarrow> (r, Panic)
              | Ok bs \<Rightarrow>
                  (let (r, i) = draw_u128 r in
                   case map_of (rt_pk_to_addr r) peer_pk of
                     None \<Rightarrow> (r, Err (Msg ''peer address not set''))
                   | Some addr \<Rightarrow>
                       (send_packet (handshake_packet i t bs) addr (derive_id C peer_pk) r, Ok ()))))"

text \<open>
  A session enters the table, for both roles: the application is told, and the connection is linked
  to the peer.
\<close>

definition push_conn :: "32 arr \<Rightarrow> 16 arr \<Rightarrow> (32 arr, 16 arr list) hash_map \<Rightarrow> (32 arr, 16 arr list) hash_map" where
  "push_conn pk conn m = AList.update pk ((case map_of m pk of None \<Rightarrow> [] | Some cs \<Rightarrow> cs) @ [conn]) m"

definition adopt_session :: "crypto \<Rightarrow> 16 arr \<Rightarrow> 32 arr \<Rightarrow> 'hs session \<Rightarrow> 'hs runtime \<Rightarrow> 'hs runtime" where
  "adopt_session C conn peer_pk s r =
     (let our_pk = (case rt_master_pubkey r of None \<Rightarrow> zero_arr | Some pk \<Rightarrow> pk);
          safety = (case safety_number C our_pk peer_pk s of None \<Rightarrow> zero_arr | Some n \<Rightarrow> n)
      in r\<lparr>rt_sess := rt_sess r @ [(peer_pk, safety)],
           rt_conn_to_pk := AList.update conn peer_pk (rt_conn_to_pk r),
           rt_pk_to_conn := push_conn peer_pk conn (rt_pk_to_conn r),
           rt_sessions := AList.update conn s (rt_sessions r)\<rparr>)"

definition learn_key :: "socket_addr \<Rightarrow> 'hs session \<Rightarrow> 'hs runtime \<Rightarrow> 'hs runtime" where
  "learn_key sender s r =
     (case s_peer_cert s of
        None \<Rightarrow> r
      | Some cert \<Rightarrow> r\<lparr>rt_peer_keys := AList.update sender (device_ed25519_pubkey cert) (rt_peer_keys r)\<rparr>)"

text \<open>First half of \<open>tick_handshake\<close>: a pending initiator with the packet's tag tries to complete.\<close>

definition try_complete ::
    "'hs noise \<Rightarrow> crypto \<Rightarrow> u64 \<Rightarrow> packet \<Rightarrow> socket_addr \<Rightarrow> 'hs runtime \<Rightarrow> ('hs runtime \<times> (16 arr \<times> 32 arr) option) res" where
  "try_complete N C unix pkt sender r =
     (let t = connection_id (payload pkt) in
      case map_of (rt_pending r) t of
        None \<Rightarrow> Ok (r, None)
      | Some (s, peer_pk) \<Rightarrow>
          if \<not> is_initiator s then Ok (r, None)
          else
            (let (r, fresh) = draw r;
                 (s, out) = complete_handshake N C fresh unix (data (payload pkt)) s;
                 r = r\<lparr>rt_pending := AList.update t (s, peer_pk) (rt_pending r)\<rparr>
             in case out of
                  Panic \<Rightarrow> Panic
                | Err _ \<Rightarrow> Ok (r, None)
                | Ok _ \<Rightarrow>
                    (case s_connection_id s of
                       None \<Rightarrow> Ok (r, None)
                     | Some conn \<Rightarrow>
                         Ok (learn_key sender s r, Some (conn, case peer_pk of None \<Rightarrow> zero_arr | Some pk \<Rightarrow> pk)))))"

text \<open>Second half: otherwise the packet may open a session as responder.\<close>

definition try_respond ::
    "'hs noise \<Rightarrow> crypto \<Rightarrow> u64 \<Rightarrow> packet \<Rightarrow> socket_addr \<Rightarrow> 'hs runtime \<Rightarrow>
     ('hs runtime \<times> (packet \<times> socket_addr \<times> 32 arr) option) res" where
  "try_respond N C unix pkt sender r =
     (let t = connection_id (payload pkt) in
      case spawn_responder N r of
        Panic \<Rightarrow> Panic
      | Err _ \<Rightarrow> Ok (r, None)
      | Ok s \<Rightarrow>
        (case accept_handshake N C (data (payload pkt)) s of
           (s, Panic) \<Rightarrow> Panic
         | (s, Err _) \<Rightarrow> Ok (r, None)
         | (s, Ok _) \<Rightarrow>
           (let peer_pk = (case s_peer_master_pubkey s of None \<Rightarrow> zero_arr | Some pk \<Rightarrow> pk);
                r = (case s_peer_addr s of None \<Rightarrow> r | Some addr \<Rightarrow> set_peer_addr peer_pk addr r);
                (r, secret) = draw r; (r, eph) = draw r;
                (s, out) = reply_handshake N C secret eph unix s;
                (r, reply) =
                  (case out of
                     Ok bs \<Rightarrow>
                       (let (r, i) = draw_u128 r;
                            addr = (case map_of (rt_pk_to_addr r) peer_pk of None \<Rightarrow> sender | Some a \<Rightarrow> a)
                        in (r, Some (handshake_packet i t bs, addr, peer_pk)))
                   | _ \<Rightarrow> (r, None))
            in if out = Panic then Panic
               else
                 (case s_connection_id s of
                    None \<Rightarrow> Ok (r, reply)
                  | Some conn \<Rightarrow>
                      Ok ((adopt_session C conn peer_pk s (learn_key sender s r))
                            \<lparr>rt_seen_tags := insert t (rt_seen_tags r)\<rparr>, reply)))))"

definition tick_handshake :: "'hs noise \<Rightarrow> crypto \<Rightarrow> u64 \<Rightarrow> 'hs runtime \<Rightarrow> 'hs runtime res" where
  "tick_handshake N C unix r =
     (case rt_handshake_pile r of
        [] \<Rightarrow> Ok r
      | (pkt, sender) # rest \<Rightarrow>
        (let r = r\<lparr>rt_handshake_pile := rest\<rparr>; t = connection_id (payload pkt) in
         and_then (try_complete N C unix pkt sender r) (\<lambda>(r, promoted).
         case promoted of
           Some (conn, peer_pk) \<Rightarrow>
             (case map_of (rt_pending r) t of
                None \<Rightarrow> Ok (confirm_if_required pkt sender r)
              | Some (s, _) \<Rightarrow>
                  Ok (confirm_if_required pkt sender
                    (adopt_session C conn peer_pk s (r\<lparr>rt_pending := AList.delete t (rt_pending r)\<rparr>))))
         | None \<Rightarrow>
             if t \<in> rt_seen_tags r then Ok r
             else
               and_then (try_respond N C unix pkt sender r) (\<lambda>(r, reply).
                 let r = (case reply of
                            None \<Rightarrow> r
                          | Some (p, addr, peer_pk) \<Rightarrow> send_packet p addr (derive_id C peer_pk) r)
                 in Ok (confirm_if_required pkt sender r)))))"


section \<open>Messages\<close>

text \<open>\<open>vec.retain\<close> on the peer's connections, and the entry goes when none is left.\<close>

definition drop_conn :: "32 arr \<Rightarrow> 16 arr \<Rightarrow> (32 arr, 16 arr list) hash_map \<Rightarrow> (32 arr, 16 arr list) hash_map" where
  "drop_conn pk conn m =
     (case map_of m pk of
        None \<Rightarrow> m
      | Some cs \<Rightarrow>
          (let cs = filter (\<lambda>c. c \<noteq> conn) cs in if cs = [] then AList.delete pk m else AList.update pk cs m))"

definition remove_stale_conn :: "16 arr \<Rightarrow> 'hs runtime \<Rightarrow> 'hs runtime" where
  "remove_stale_conn conn r =
     (let r = r\<lparr>rt_sessions := AList.delete conn (rt_sessions r)\<rparr> in
      case map_of (rt_conn_to_pk r) conn of
        None \<Rightarrow> r
      | Some pk \<Rightarrow>
          r\<lparr>rt_conn_to_pk := AList.delete conn (rt_conn_to_pk r), rt_pk_to_conn := drop_conn pk conn (rt_pk_to_conn r)\<rparr>)"

definition DEDUP_WINDOW :: nat where "DEDUP_WINDOW = from_secs 60"

text \<open>What \<open>tick_message\<close> does with the bytes that a session decrypted.\<close>

definition deliver_inner ::
    "crypto \<Rightarrow> instant \<Rightarrow> packet \<Rightarrow> socket_addr \<Rightarrow> bytes \<Rightarrow> 32 arr \<Rightarrow> 'hs runtime \<Rightarrow> 'hs runtime res" where
  "deliver_inner C now pkt sender inner sender_pk r =
     (if length inner < 44 then Ok r
      else
        and_then (sub_arr inner 0 32) (\<lambda>key.
        and_then (sub_arr inner 32 44) (\<lambda>nonce.
        let dedup_key = sha256 C (bytes_of sender_pk @ bytes_of key)
        in if map_of (rt_received_keys r) dedup_key \<noteq> None then Ok (confirm_if_required pkt sender r)
           else
             let r = r\<lparr>rt_received_keys := retain (\<lambda>_ t. duration_since now t < DEDUP_WINDOW) (rt_received_keys r)\<rparr> in
             case and_then (sub_from inner 44) (\<lambda>ciphertext.
                    and_then (cipher_decrypt C ciphertext nonce key) message_from_serialized) of
               Panic \<Rightarrow> Panic
             | Err _ \<Rightarrow> Ok r
             | Ok msg \<Rightarrow>
                 Ok (confirm_if_required pkt sender
                   (r\<lparr>rt_received_keys := AList.update dedup_key now (rt_received_keys r),
                      rt_msgs := rt_msgs r @ [(msg, sender_pk)]\<rparr>)))))"

lemma deliver_inner_eq:
  "deliver_inner C now pkt sender inner sender_pk r =
     (if length inner < 44 then Ok r
      else
        let key = arr_of (take 32 inner); nonce = arr_of (take 12 (drop 32 inner));
            dedup_key = sha256 C (bytes_of sender_pk @ bytes_of key)
        in if map_of (rt_received_keys r) dedup_key \<noteq> None then Ok (confirm_if_required pkt sender r)
           else
             let r = r\<lparr>rt_received_keys := retain (\<lambda>_ t. duration_since now t < DEDUP_WINDOW) (rt_received_keys r)\<rparr> in
             case and_then (cipher_decrypt C (drop 44 inner) nonce key) message_from_serialized of
               Panic \<Rightarrow> Panic
             | Err _ \<Rightarrow> Ok r
             | Ok msg \<Rightarrow>
                 Ok (confirm_if_required pkt sender
                   (r\<lparr>rt_received_keys := AList.update dedup_key now (rt_received_keys r),
                      rt_msgs := rt_msgs r @ [(msg, sender_pk)]\<rparr>)))"
  by (simp add: deliver_inner_def Let_def)

definition tick_message :: "crypto \<Rightarrow> instant \<Rightarrow> u64 \<Rightarrow> 'hs runtime \<Rightarrow> 'hs runtime res" where
  "tick_message C now unix r =
     (case rt_message_pile r of
        [] \<Rightarrow> Ok r
      | (pkt, sender) # rest \<Rightarrow>
        (let r = r\<lparr>rt_message_pile := rest\<rparr>; conn = connection_id (payload pkt) in
         case map_of (rt_sessions r) conn of
           None \<Rightarrow> Ok (remove_stale_conn conn r)
         | Some s \<Rightarrow>
             (let (r, fresh) = draw r; (s, out) = session_receive C fresh unix pkt s;
                  r = r\<lparr>rt_sessions := AList.update conn s (rt_sessions r)\<rparr>
              in case out of
                   Panic \<Rightarrow> Panic
                 | Err _ \<Rightarrow> Ok (remove_stale_conn conn r)
                 | Ok (inner, sender_pk) \<Rightarrow> deliver_inner C now pkt sender inner sender_pk r)))"

text \<open>
  The loop of \<open>send_message\<close>: connections without a session or without a ratchet are passed over; the
  first error of \<open>send\<close> ends it, after what was already sent.
\<close>

fun send_all :: "crypto \<Rightarrow> bytes \<Rightarrow> socket_addr \<Rightarrow> u128 \<Rightarrow> 16 arr list \<Rightarrow> bool \<Rightarrow> 'hs runtime \<Rightarrow> 'hs runtime \<times> bool res" where
  "send_all C inner addr relay_id [] sent r = (r, Ok sent)"
| "send_all C inner addr relay_id (conn # conns) sent r =
     (case map_of (rt_sessions r) conn of
        None \<Rightarrow> send_all C inner addr relay_id conns sent r
      | Some s \<Rightarrow>
          if \<not> is_established s then send_all C inner addr relay_id conns sent r
          else
            (let (r, nonce) = draw r; (r, i) = draw_u128 r;
                 (s, out) = session_send C (arr_of (take 12 (bytes_of nonce))) i inner s;
                 r = r\<lparr>rt_sessions := AList.update conn s (rt_sessions r)\<rparr>
             in case map_err (Wrap ''session send: {e}'') out of
                  Ok pkt \<Rightarrow> send_all C inner addr relay_id conns True (send_packet pkt addr relay_id r)
                | Err e \<Rightarrow> (r, Err e)
                | Panic \<Rightarrow> (r, Panic)))"

definition inner_of :: "32 arr \<Rightarrow> 12 arr \<Rightarrow> bytes \<Rightarrow> bytes" where
  "inner_of key nonce ciphertext = bytes_of key @ bytes_of nonce @ ciphertext"

definition send_message :: "crypto \<Rightarrow> message \<Rightarrow> 32 arr \<Rightarrow> 'hs runtime \<Rightarrow> 'hs runtime \<times> unit res" where
  "send_message C msg peer_pk r =
     (case map_of (rt_pk_to_conn r) peer_pk of
        None \<Rightarrow> (r, Err (Msg ''no session for peer''))
      | Some conns \<Rightarrow>
        (case map_of (rt_pk_to_addr r) peer_pk of
           None \<Rightarrow> (r, Err (Msg ''no address for peer''))
         | Some addr \<Rightarrow>
           (let (r, key) = draw r; (r, rnd) = draw r in
            case and_then (message_serialize msg) (\<lambda>bs. cipher_encrypt C (arr_of (take 12 (bytes_of rnd))) bs key) of
              Err e \<Rightarrow> (r, Err e)
            | Panic \<Rightarrow> (r, Panic)
            | Ok (ciphertext, nonce) \<Rightarrow>
                (case send_all C (inner_of key nonce ciphertext) addr (derive_id C peer_pk) conns False r of
                   (r, Ok sent) \<Rightarrow> (r, if sent then Ok () else Err (Msg ''no active session for peer''))
                 | (r, Err e) \<Rightarrow> (r, Err e)
                 | (r, Panic) \<Rightarrow> (r, Panic)))))"

section \<open>Relaying and the DHT server\<close>

definition tick_relay :: "crypto \<Rightarrow> 'hs runtime \<Rightarrow> 'hs runtime res" where
  "tick_relay C r =
     (case rt_relay_fwd r of
        None \<Rightarrow> Ok r
      | Some fwd \<Rightarrow>
        (case rt_relay_pile r of
           [] \<Rightarrow> Ok r
         | (pkt, sender) # rest \<Rightarrow>
           (let r = r\<lparr>rt_relay_pile := rest\<rparr>;
                forward =
                  (case resolve fwd pkt of
                     None \<Rightarrow> r
                   | Some (inner, dst) \<Rightarrow>
                       (let r = r\<lparr>rt_out := rt_out r @ [(inner, dst)]\<rparr>
                        in if should_confirm pkt then confirm (pid (header pkt)) sender r else r))
            in case relay_frame_from_serialized (data (payload pkt)) of
                 Ok frame \<Rightarrow>
                   if Some (dest_id frame) = map_option (derive_id C) (rt_master_pubkey r) then
                     Ok (confirm_if_required pkt sender
                       (case packet_from_serialized (frame_payload frame) of
                          Ok inner \<Rightarrow>
                            (if tag (payload inner) \<in> {DhtOperation, Handshake, Message} then sort_packet inner sender r else r)
                        | _ \<Rightarrow> r))
                   else Ok forward
               | _ \<Rightarrow> Ok forward)))"

text \<open>
  One packet of \<open>tick_server\<close>, and the loop that empties the pile; packets that arrive meanwhile are
  those of the next tick.
\<close>

definition serve_packet :: "instant \<Rightarrow> packet \<Rightarrow> socket_addr \<Rightarrow> 'hs runtime \<Rightarrow> 'hs runtime res" where
  "serve_packet now pkt sender r =
     (case rt_server r of
        None \<Rightarrow> Ok (confirm_if_required pkt sender r)
      | Some srv \<Rightarrow>
          and_then (to_option (op_from_serialized (data (payload pkt)))) (\<lambda>op.
          case op of
            None \<Rightarrow> Ok (confirm_if_required pkt sender r)
          | Some _ \<Rightarrow>
              and_then (dht_process now pkt sender (srv, rt_routing r)) (\<lambda>((srv, rt), reply).
                let r = r\<lparr>rt_server := Some srv, rt_routing := rt\<rparr>;
                    r = (case reply of None \<Rightarrow> r | Some (response, dst) \<Rightarrow> send_dht_op response dst r)
                in Ok (confirm_if_required pkt sender r))))"

fun serve_all :: "instant \<Rightarrow> pile \<Rightarrow> 'hs runtime \<Rightarrow> 'hs runtime res" where
  "serve_all now [] r = Ok r"
| "serve_all now ((pkt, sender) # p) r =
     and_then (serve_packet now pkt sender (r\<lparr>rt_dht_pile := p\<rparr>)) (serve_all now p)"

definition tick_server :: "instant \<Rightarrow> 'hs runtime \<Rightarrow> 'hs runtime res" where
  "tick_server now r =
     and_then (serve_all now (rt_dht_pile r) r) (\<lambda>r. Ok (r\<lparr>rt_routing := evict_stale now (rt_routing r)\<rparr>))"

definition tick :: "'hs noise \<Rightarrow> crypto \<Rightarrow> instant \<Rightarrow> u64 \<Rightarrow> 'hs runtime \<Rightarrow> 'hs runtime res" where
  "tick N C now unix r =
     and_then (tick_server now r) (\<lambda>r.
     and_then (tick_relay C r) (\<lambda>r.
     and_then (tick_handshake N C unix r) (tick_message C now unix)))"

section \<open>Queries and the state file\<close>

definition active_conn_ids :: "'hs runtime \<Rightarrow> (16 arr \<times> 32 arr) list" where
  "active_conn_ids r =
     List.map_filter (\<lambda>(conn, _). map_option (Pair conn) (map_of (rt_conn_to_pk r) conn))
       (filter (\<lambda>(_, s). is_established s) (rt_sessions r))"

definition session_safety_number :: "crypto \<Rightarrow> 16 arr \<Rightarrow> 32 arr \<Rightarrow> 32 arr \<Rightarrow> 'hs runtime \<Rightarrow> 32 arr option" where
  "session_safety_number C conn our_pk peer_pk r =
     Option.bind (map_of (rt_sessions r) conn) (safety_number C our_pk peer_pk)"

definition first_active_conn_id :: "'hs runtime \<Rightarrow> 16 arr option" where
  "first_active_conn_id r = map_option fst (find (\<lambda>(_, s). is_established s) (rt_sessions r))"

definition session_established :: "16 arr \<Rightarrow> 'hs runtime \<Rightarrow> bool" where
  "session_established conn r =
     (case map_of (rt_sessions r) conn of None \<Rightarrow> False | Some s \<Rightarrow> is_established s)"

text \<open>The bytes of the file that \<open>save_peer_state\<close> writes and \<open>load_peer_state\<close> reads.\<close>

definition save_peer_state :: "'hs runtime \<Rightarrow> bytes" where
  "save_peer_state r =
     (let peer_keys_bytes = serialize_peer_keys (rt_peer_keys r);
          pk_to_addr_bytes = serialize_pk_to_addr (rt_pk_to_addr r)
      in be_bytes 4 (of_nat (length peer_keys_bytes) :: u32) @ peer_keys_bytes @
         be_bytes 4 (of_nat (length pk_to_addr_bytes) :: u32) @ pk_to_addr_bytes)"

definition load_peer_state :: "crypto \<Rightarrow> bytes \<Rightarrow> 'hs runtime \<Rightarrow> 'hs runtime \<times> unit res" where
  "load_peer_state C d r =
     (case
        if length d < 8 then Err (Msg ''peer state file too short'')
        else
          and_then (sub_bytes d 0 4) (\<lambda>l.
          let peer_keys_len = unat (from_be l :: u32); cursor = 4 + peer_keys_len in
          if length d < cursor + 4 then Err (Msg ''truncated at pk_to_addr header'')
          else
            and_then (sub_bytes d 4 (4 + peer_keys_len)) (\<lambda>kb.
            and_then (deserialize_peer_keys C kb) (\<lambda>peer_keys.
            and_then (sub_bytes d cursor (cursor + 4)) (\<lambda>l.
            let pk_to_addr_len = unat (from_be l :: u32); start = cursor + 4 in
            if length d < start + pk_to_addr_len then Err (Msg ''truncated at pk_to_addr body'')
            else
              and_then (sub_bytes d start (start + pk_to_addr_len)) (\<lambda>ab.
              and_then (deserialize_pk_to_addr ab) (\<lambda>pk_to_addr. Ok (peer_keys, pk_to_addr)))))))
      of
        Ok (peer_keys, pk_to_addr) \<Rightarrow> (r\<lparr>rt_peer_keys := peer_keys, rt_pk_to_addr := pk_to_addr\<rparr>, Ok ())
      | Err e \<Rightarrow> (r, Err e)
      | Panic \<Rightarrow> (r, Panic))"

end
