(* ===== verification/Discovery.thy ===== *)
theory Discovery
  imports Runtime
begin

text \<open>
  runtime.rs, the DHT client side: waiting for a response, the query loop of \<open>join\<close>, \<open>lookup_node\<close> and
  \<open>find_value\<close>, and publishing and finding contact records. Lemmas: waiting loses no packet, the query
  loop ends, and which contact records are believed.
\<close>

section \<open>Waiting for a response\<close>

text \<open>
  Packets from the transport are sorted onto the piles while a handler waits. Waiting is the list of
  its polls, each with what arrived before it; the end of the list is the deadline of five seconds.
\<close>

definition arrive :: "pile \<Rightarrow> 'hs runtime \<Rightarrow> 'hs runtime" where
  "arrive ps r = fold (\<lambda>(pkt, sender). sort_packet pkt sender) ps r"

definition skip_in_lookup :: "packet \<Rightarrow> bool" where
  "skip_in_lookup pkt =
     (let d = data (payload pkt) in if d = [] then False else d ! 0 \<in> {1, 2, 3, 5, 6, 7})"

fun recv_dht :: "socket_addr \<Rightarrow> pile list \<Rightarrow> 'hs runtime \<Rightarrow> 'hs runtime \<times> (dht_operation \<times> socket_addr) res" where
  "recv_dht expected [] r = (r, Err (Msg ''dht recv timed out''))"
| "recv_dht expected (ps # polls) r =
     (let r = arrive ps r in
      case rt_dht_pile r of
        [] \<Rightarrow> recv_dht expected polls r
      | (pkt, sender) # rest \<Rightarrow>
          if sender \<noteq> expected \<or> skip_in_lookup pkt
          then recv_dht expected polls (r\<lparr>rt_dht_pile := rest @ [(pkt, sender)]\<rparr>)
          else
            (let r = r\<lparr>rt_dht_pile := rest\<rparr> in
             case map_err (Wrap ''bad dht response: {e}'') (op_from_serialized (data (payload pkt))) of
               Ok op \<Rightarrow> (confirm_if_required pkt sender r, Ok (op, sender))
             | Err e \<Rightarrow> (r, Err e)
             | Panic \<Rightarrow> (r, Panic)))"

section \<open>The query loop\<close>

text \<open>
  The loop that \<open>join\<close>, \<open>lookup_node\<close> and \<open>find_value\<close> share. Each query takes one window, the clock reading
  and the polls of its wait; when the windows run out the loop is still running and the result is
  \<open>None\<close>.
\<close>

type_synonym window = "instant \<times> pile list"

fun lookup_loop :: "window list \<Rightarrow> query \<Rightarrow> 'hs runtime \<Rightarrow> ('hs runtime \<times> unit res) option" where
  "lookup_loop ws None r = Some (r, Ok ())"
| "lookup_loop [] (Some _) r = None"
| "lookup_loop ((now, polls) # ws) (Some (op, addr)) r =
     (case recv_dht addr polls (send_dht_op op addr r) of
        (r, Panic) \<Rightarrow> Some (r, Panic)
      | (r, Err _) \<Rightarrow>
          (let (c, nxt, fin) = skip_node (rt_client r); r = r\<lparr>rt_client := c\<rparr>
           in if fin then Some (r, Ok ()) else lookup_loop ws nxt r)
      | (r, Ok (response, sender)) \<Rightarrow>
          (let (rt, ping) = add_node now (sender_id response) sender (rt_routing r);
               r = r\<lparr>rt_routing := rt\<rparr>;
               r = (case ping of None \<Rightarrow> r | Some (_, ping_addr) \<Rightarrow> send_dht_op (Ping (rt_id r)) ping_addr r);
               ((c, rt), nxt, fin) = handle_response now response (rt_client r, rt_routing r);
               r = r\<lparr>rt_client := c, rt_routing := rt\<rparr>
           in if fin then Some (r, Ok ()) else lookup_loop ws nxt r))"

definition join :: "socket_addr list \<Rightarrow> window list \<Rightarrow> 'hs runtime \<Rightarrow> ('hs runtime \<times> unit res) option" where
  "join seeds ws r =
     (let (c, nxt) = start_join seeds (rt_client r) in lookup_loop ws nxt (r\<lparr>rt_client := c\<rparr>))"

text \<open>What a lookup that ended gives to its caller.\<close>

definition with_result :: "(pending_lookup \<Rightarrow> 'a) \<Rightarrow> 'hs runtime \<times> unit res \<Rightarrow> 'hs runtime \<times> 'a res" where
  "with_result f out =
     (case out of (r, res) \<Rightarrow>
        (r, and_then res (\<lambda>_. map_res f (ok_or (lookup_result (rt_client r)) (Msg ''no lookup result'')))))"

definition lookup_node :: "node_id \<Rightarrow> window list \<Rightarrow> 'hs runtime \<Rightarrow> ('hs runtime \<times> contact_node list res) option" where
  "lookup_node t ws r =
     (let (c, nxt) = start_lookup_node t (rt_routing r) (rt_client r)
      in map_option (with_result shortlist) (lookup_loop ws nxt (r\<lparr>rt_client := c\<rparr>)))"

definition find_value ::
    "32 arr \<Rightarrow> window list \<Rightarrow> 'hs runtime \<Rightarrow> ('hs runtime \<times> (bytes option \<times> contact_node list) res) option" where
  "find_value key ws r =
     (let (c, nxt) = start_find_value key (rt_routing r) (rt_client r)
      in map_option (with_result (\<lambda>p. (found_value p, shortlist p))) (lookup_loop ws nxt (r\<lparr>rt_client := c\<rparr>)))"

definition store :: "32 arr \<Rightarrow> bytes \<Rightarrow> u32 \<Rightarrow> window list \<Rightarrow> 'hs runtime \<Rightarrow> ('hs runtime \<times> unit res) option" where
  "store key v ttl ws r =
     map_option (\<lambda>(r, out).
       case out of
         Err e \<Rightarrow> (r, Err e)
       | Panic \<Rightarrow> (r, Panic)
       | Ok closest \<Rightarrow>
           if closest = [] then (r, Err (Msg ''store failed: no nodes known to store to''))
           else (fold (\<lambda>(_, addr) r. send_dht_op (Store (rt_id r) key v ttl) addr r) closest r, Ok ()))
       (lookup_node (NodeID key) ws r)"

section \<open>Contact records\<close>

definition contact_key_for :: "crypto \<Rightarrow> 32 arr \<Rightarrow> 32 arr" where
  "contact_key_for C master_pubkey = sha256 C (ascii ''contact'' @ bytes_of master_pubkey)"

definition publish_contact ::
    "crypto \<Rightarrow> device_list \<Rightarrow> socket_addr \<Rightarrow> u128 \<Rightarrow> u32 \<Rightarrow> window list \<Rightarrow> 'hs runtime \<Rightarrow> ('hs runtime \<times> unit res) option" where
  "publish_contact C l relay_addr relay_id ttl ws r =
     (case rt_ed25519_priv r of
        None \<Rightarrow> Some (r, Err (Msg ''device signing key not set''))
      | Some device_key \<Rightarrow>
          (let contact = contact_new C l relay_addr relay_id device_key;
               rec = record_new Contact (contact_serialize contact)
           in case rt_master_pubkey r of
                None \<Rightarrow> Some (r, Err (Msg ''master pubkey not set''))
              | Some master \<Rightarrow> store (contact_key_for C master) (record_serialize rec) ttl ws r))"

text \<open>What \<open>find_contact\<close> makes of the value it found.\<close>

definition contact_of_value :: "crypto \<Rightarrow> bytes option \<Rightarrow> contact_record res" where
  "contact_of_value C v =
     and_then (ok_or v (Msg ''no contact record found'')) (\<lambda>d.
     and_then (record_from_serialized d) (\<lambda>rec.
       if rec_tag rec \<noteq> Contact then Err (Msg ''unexpected record type'')
       else
         and_then (contact_from_serialized C (rec_data rec)) (\<lambda>contact.
           if \<not> contact_verify C contact then Err (Msg ''contact record signature invalid'')
           else Ok contact)))"

definition find_contact :: "crypto \<Rightarrow> 32 arr \<Rightarrow> window list \<Rightarrow> 'hs runtime \<Rightarrow> ('hs runtime \<times> contact_record res) option" where
  "find_contact C master_pubkey ws r =
     map_option (\<lambda>(r, out). (r, and_then out (\<lambda>(v, _). contact_of_value C v)))
       (find_value (contact_key_for C master_pubkey) ws r)"

section \<open>What is put out for a record\<close>

text \<open>The packet that \<open>send_dht_op\<close> puts out.\<close>

definition dht_packet :: "u128 \<Rightarrow> dht_operation \<Rightarrow> packet" where
  "dht_packet i op = packet_new 0 i (payload_new DhtOperation (op_serialize op))"

lemma send_dht_op_eq:
  "send_dht_op op dst r = (fst (draw_u128 r))\<lparr>rt_out := rt_out r @ [(dht_packet (snd (draw_u128 r)) op, dst)]\<rparr>"
  by (simp add: send_dht_op_def dht_packet_def draw_u128_def draw_def Let_def)

text \<open>
  A published record: after a lookup of the key's nodes, one \<open>Store\<close> of the record that is signed with the
  device's key to each of them.
\<close>

definition contact_sent ::
    "crypto \<Rightarrow> device_list \<Rightarrow> socket_addr \<Rightarrow> u128 \<Rightarrow> u32 \<Rightarrow> window list \<Rightarrow> 'hs runtime \<Rightarrow> 'hs runtime \<Rightarrow> bool" where
  "contact_sent C l relay_addr relay_id ttl ws r r' \<longleftrightarrow> (\<exists>sk pk r1 cs js.
     rt_ed25519_priv r = Some sk \<and> rt_master_pubkey r = Some pk \<and>
     lookup_node (NodeID (contact_key_for C pk)) ws r = Some (r1, Ok cs) \<and> cs \<noteq> [] \<and> length js = length cs \<and>
     rt_out r' = rt_out r1 @ map (\<lambda>(j, _, addr).
       (dht_packet j (Store (rt_id r1) (contact_key_for C pk) (1 # contact_serialize (contact_new C l relay_addr relay_id sk)) ttl), addr)) (zip js cs))"

lemma send_all_stores:
  "\<exists>js. length js = length cs \<and>
     rt_out (fold (\<lambda>(_, addr) r. send_dht_op (Store (rt_id r) key v ttl) addr r) cs r) =
       rt_out r @ map (\<lambda>(j, _, addr). (dht_packet j (Store (rt_id r) key v ttl), addr)) (zip js cs)"
proof (induction cs arbitrary: r)
  case (Cons c cs)
  obtain i addr where c: "c = (i, addr)" by (cases c)
  let ?r = "send_dht_op (Store (rt_id r) key v ttl) addr r"
  have out: "rt_id ?r = rt_id r" "rt_out ?r = rt_out r @ [(dht_packet (snd (draw_u128 r)) (Store (rt_id r) key v ttl), addr)]"
    by (simp_all add: send_dht_op_eq draw_u128_def draw_def)
  from Cons.IH [of ?r] obtain js where "length js = length cs"
    "rt_out (fold (\<lambda>(_, addr) r. send_dht_op (Store (rt_id r) key v ttl) addr r) cs ?r) =
      rt_out ?r @ map (\<lambda>(j, _, addr). (dht_packet j (Store (rt_id ?r) key v ttl), addr)) (zip js cs)" by blast
  then show ?case unfolding out c by (intro exI [of _ "snd (draw_u128 r) # js"]) simp
qed simp

lemma publish_contact_sends:
  assumes "publish_contact C l ra ri ttl ws r = Some (r', Ok ())"
  shows "contact_sent C l ra ri ttl ws r r'"
proof -
  from assms obtain sk pk where k: "rt_ed25519_priv r = Some sk" "rt_master_pubkey r = Some pk"
    by (auto simp: publish_contact_def Let_def split: option.splits)
  let ?v = "1 # contact_serialize (contact_new C l ra ri sk)"
  have st: "store (contact_key_for C pk) ?v ttl ws r = Some (r', Ok ())"
    using assms by (simp add: publish_contact_def Let_def k record_serialize_def record_new_def)
  then obtain r1 o1 where 1: "lookup_node (NodeID (contact_key_for C pk)) ws r = Some (r1, o1)" by (auto simp: store_def)
  with st obtain cs where "o1 = Ok cs" "cs \<noteq> []"
    "r' = fold (\<lambda>(_, addr) r. send_dht_op (Store (rt_id r) (contact_key_for C pk) ?v ttl) addr r) cs r1"
    by (cases o1) (auto simp: store_def split: if_splits)
  then show ?thesis using k 1 send_all_stores [of cs "contact_key_for C pk" ?v ttl r1] unfolding contact_sent_def by blast
qed

section \<open>Waiting loses nothing\<close>

lemma sort_packet_dht: "rt_dht_pile (sort_packet pkt sender r) =
    rt_dht_pile r @ (if tag (payload pkt) = DhtOperation then [(pkt, sender)] else [])"
  by (simp add: sort_packet_def split: payload_tag.split)

lemma arrive_dht: "rt_dht_pile (arrive ps r) = rt_dht_pile r @ filter (\<lambda>(pkt, _). tag (payload pkt) = DhtOperation) ps"
  by (induction ps arbitrary: r) (auto simp: arrive_def sort_packet_dht)

lemma arrive_frame [simp]:
  "rt_client (arrive ps r) = rt_client r" "rt_routing (arrive ps r) = rt_routing r"
proof -
  have "rt_client (sort_packet p s r) = rt_client r" "rt_routing (sort_packet p s r) = rt_routing r" for p s and r :: "'a runtime"
    by (simp_all add: sort_packet_def split: payload_tag.split)
  then show "rt_client (arrive ps r) = rt_client r" "rt_routing (arrive ps r) = rt_routing r"
    by (induction ps arbitrary: r) (auto simp: arrive_def)
qed

definition dht_packets :: "pile list \<Rightarrow> pile" where
  "dht_packets polls = filter (\<lambda>(pkt, _). tag (payload pkt) = DhtOperation) (concat polls)"

lemma confirm_piles [simp]: "rt_dht_pile (confirm_if_required p s r) = rt_dht_pile r"
  "rt_client (confirm_if_required p s r) = rt_client r" "rt_routing (confirm_if_required p s r) = rt_routing r"
  by (simp_all add: confirm_if_required_def confirm_def)

text \<open>The packets still on the pile, with the one that was taken, are those that were there and arrived.\<close>

definition taken_ok :: "socket_addr \<Rightarrow> (dht_operation \<times> socket_addr) res \<Rightarrow> pile \<Rightarrow> bool \<Rightarrow> bool" where
  "taken_ok expected out taken timeout \<longleftrightarrow> length taken \<le> 1 \<and>
     (case out of
        Ok (op, sender) \<Rightarrow> \<exists>pkt. taken = [(pkt, sender)] \<and> sender = expected \<and> op_from_serialized (data (payload pkt)) = Ok op
      | Err e \<Rightarrow> taken = [] \<longrightarrow> timeout
      | Panic \<Rightarrow> taken \<noteq> [])"

lemma recv_dht_packets:
  assumes "recv_dht expected polls r = (r', out)"
  shows "\<exists>k taken. mset (rt_dht_pile r') + mset taken = mset (rt_dht_pile r @ dht_packets (take k polls)) \<and>
    taken_ok expected out taken (k \<ge> length polls)"
  using assms
proof (induction expected polls r rule: recv_dht.induct)
  case (1 expected r)
  then show ?case by (auto simp: dht_packets_def taken_ok_def)
next
  case (2 expected ps polls r)
  let ?r = "arrive ps r"
  have shift: "\<exists>k taken. mset (rt_dht_pile r') + mset taken = mset (rt_dht_pile r @ dht_packets (take k (ps # polls))) \<and>
      taken_ok expected out taken (k \<ge> length (ps # polls))"
    if m: "mset (rt_dht_pile r1) = mset (rt_dht_pile ?r)"
    and IH: "\<exists>k taken. mset (rt_dht_pile r') + mset taken = mset (rt_dht_pile r1 @ dht_packets (take k polls)) \<and>
      taken_ok expected out taken (k \<ge> length polls)" for r1 :: "'a runtime"
  proof -
    from IH obtain k taken where k: "mset (rt_dht_pile r') + mset taken = mset (rt_dht_pile r1 @ dht_packets (take k polls))"
      "taken_ok expected out taken (k \<ge> length polls)" by blast
    have "mset (rt_dht_pile r') + mset taken = mset (rt_dht_pile r @ dht_packets (take (Suc k) (ps # polls)))"
      using k(1) m by (simp add: arrive_dht dht_packets_def)
    then show ?thesis using k(2) by (intro exI [of _ "Suc k"] exI [of _ taken]) simp
  qed
  show ?case
  proof (cases "rt_dht_pile ?r")
    case Nil
    then have "recv_dht expected polls ?r = (r', out)" using 2(3) by (simp add: Let_def)
    from 2(1) [OF refl Nil this] show ?thesis by (rule shift [OF refl])
  next
    case (Cons ph rest)
    obtain pkt sender where ph: "ph = (pkt, sender)" by (cases ph)
    show ?thesis
    proof (cases "sender \<noteq> expected \<or> skip_in_lookup pkt")
      case True
      let ?r1 = "?r\<lparr>rt_dht_pile := rest @ [(pkt, sender)]\<rparr>"
      have run: "recv_dht expected polls ?r1 = (r', out)" using 2(3) Cons ph True by (simp add: Let_def)
      have m: "mset (rt_dht_pile ?r1) = mset (rt_dht_pile ?r)" using Cons ph by simp
      from 2(2) [OF refl Cons [unfolded ph] refl True run] show ?thesis by (rule shift [OF m])
    next
      case False
      have o: "out = (case map_err (Wrap ''bad dht response: {e}'') (op_from_serialized (data (payload pkt))) of
          Ok op \<Rightarrow> Ok (op, sender) | Err e \<Rightarrow> Err e | Panic \<Rightarrow> Panic)" "rt_dht_pile r' = rest"
        using 2(3) Cons ph False by (auto simp: Let_def split: res.splits)
      have "mset rest + mset [(pkt, sender)] = mset (rt_dht_pile r @ dht_packets (take 1 (ps # polls)))"
        using Cons ph by (simp add: dht_packets_def flip: arrive_dht)
      moreover have "taken_ok expected out [(pkt, sender)] b" for b
        using False by (auto simp: taken_ok_def o map_err_eq split: res.splits)
      ultimately show ?thesis using o(2) by blast
    qed
  qed
qed

section \<open>What the calls keep\<close>

text \<open>
  The calls of the DHT client change the runtime by a few operations only. Whatever these keep, every call
  keeps: the locale names them, and the invariants of the runtime and of the client are its instances.
\<close>

locale dht_caller =
  fixes P :: "'hs runtime \<Rightarrow> bool"
  assumes sorted_in: "P r \<Longrightarrow> P (sort_packet pkt s r)"
    and taken_out: "P r \<Longrightarrow> P (r\<lparr>rt_dht_pile := p\<rparr>)"
    and confirmed: "P r \<Longrightarrow> P (confirm_if_required pkt s r)"
    and op_sent: "P r \<Longrightarrow> P (send_dht_op op a r)"
    and client_put: "P r \<Longrightarrow> P (r\<lparr>rt_client := c\<rparr>)"
    and learned: "P r \<Longrightarrow> add_node now i s (rt_routing r) = (rt, ping) \<Longrightarrow> P (r\<lparr>rt_routing := rt\<rparr>)"
    and answered: "P r \<Longrightarrow> handle_response now op (rt_client r, rt_routing r) = ((c, rt), nxt, fin) \<Longrightarrow>
      P (r\<lparr>rt_client := c, rt_routing := rt\<rparr>)"
begin

lemma keeps_arrive: "P r \<Longrightarrow> P (arrive ps r)"
  unfolding arrive_def by (induction ps arbitrary: r) (auto intro: sorted_in)

lemma keeps_recv: "P r \<Longrightarrow> P (fst (recv_dht expected polls r))"
proof (induction expected polls r rule: recv_dht.induct)
  case (2 expected ps polls r)
  have r: "P (arrive ps r)" using 2(3) by (rule keeps_arrive)
  then have "P ((arrive ps r)\<lparr>rt_dht_pile := p\<rparr>)" for p by (rule taken_out)
  then show ?case using 2(1,2) r by (auto simp: Let_def intro: confirmed split: list.split res.split)
qed simp

lemma keeps_loop: "P r \<Longrightarrow> lookup_loop ws q r = Some (r', out) \<Longrightarrow> P r'"
proof (induction ws arbitrary: q r)
  case (Cons w ws)
  obtain now polls where w: "w = (now, polls)" by (cases w)
  have step: "P r'" if "Some (r', out) = (if fin then Some (r1, Ok ()) else lookup_loop ws nxt r1)" "P r1" for fin nxt r1
    using that Cons.IH [of r1 nxt] by (auto split: if_splits)
  show ?case
  proof (cases q)
    case (Some oa)
    obtain op addr where oa: "oa = (op, addr)" by (cases oa)
    obtain r1 res where 1: "recv_dht addr polls (send_dht_op op addr r) = (r1, res)" by fastforce
    have r1: "P r1" using keeps_recv [OF op_sent [OF Cons.prems(1)], of addr polls op addr] 1 by simp
    show ?thesis
    proof (cases res)
      case (Ok rs)
      obtain response sender where rs: "rs = (response, sender)" by (cases rs)
      obtain rt ping where p: "add_node now (sender_id response) sender (rt_routing r1) = (rt, ping)" by fastforce
      define r2 where "r2 = (case ping of None \<Rightarrow> r1\<lparr>rt_routing := rt\<rparr>
        | Some (_, ping_addr) \<Rightarrow> send_dht_op (Ping (rt_id (r1\<lparr>rt_routing := rt\<rparr>))) ping_addr (r1\<lparr>rt_routing := rt\<rparr>))"
      have r2: "P r2" using learned [OF r1 p] by (auto simp: r2_def intro: op_sent split: option.split)
      obtain c rt' nxt fin where h: "handle_response now response (rt_client r2, rt_routing r2) = ((c, rt'), nxt, fin)"
        by (metis prod.exhaust)
      have "lookup_loop (w # ws) q r = (if fin then Some (r2\<lparr>rt_client := c, rt_routing := rt'\<rparr>, Ok ())
          else lookup_loop ws nxt (r2\<lparr>rt_client := c, rt_routing := rt'\<rparr>))"
        using 1 Ok rs p h by (simp add: w Some oa Let_def flip: r2_def)
      then show ?thesis using step answered [OF r2 h] Cons.prems(2) by metis
    next
      case (Err e)
      obtain c nxt fin where h: "skip_node (rt_client r1) = (c, nxt, fin)" by (metis prod.exhaust)
      have "lookup_loop (w # ws) q r = (if fin then Some (r1\<lparr>rt_client := c\<rparr>, Ok ()) else lookup_loop ws nxt (r1\<lparr>rt_client := c\<rparr>))"
        using 1 Err h by (simp add: w Some oa Let_def)
      then show ?thesis using step client_put [OF r1] Cons.prems(2) by metis
    qed (use 1 r1 Cons.prems w Some oa in simp)
  qed (use Cons.prems in simp)
next
  case Nil
  then show ?case by (cases q) simp_all
qed

lemma keeps_join: "P r \<Longrightarrow> join seeds ws r = Some (r', out) \<Longrightarrow> P r'"
  by (auto simp: join_def split: prod.splits intro: keeps_loop [rotated] client_put)

lemma keeps_lookup_node: "P r \<Longrightarrow> lookup_node t ws r = Some (r', out) \<Longrightarrow> P r'"
  by (auto simp: lookup_node_def with_result_def split: prod.splits intro: keeps_loop [rotated] client_put)

lemma keeps_find_value: "P r \<Longrightarrow> find_value key ws r = Some (r', out) \<Longrightarrow> P r'"
  by (auto simp: find_value_def with_result_def split: prod.splits intro: keeps_loop [rotated] client_put)

lemma keeps_store:
  assumes "P r" and "store key v ttl ws r = Some (r', out)"
  shows "P r'"
proof -
  from assms(2) obtain r1 o1 where 1: "lookup_node (NodeID key) ws r = Some (r1, o1)" by (auto simp: store_def)
  have "P (fold (\<lambda>(_, addr) r. send_dht_op (Store (rt_id r) key v ttl) addr r) cs r1)" for cs :: "contact_node list"
    using keeps_lookup_node [OF assms(1) 1] by (induction cs arbitrary: r1) (auto intro: op_sent)
  then show ?thesis using assms(2) 1 keeps_lookup_node [OF assms(1) 1] by (auto simp: store_def split: res.splits if_splits)
qed

lemma keeps_publish: "P r \<Longrightarrow> publish_contact C l a i ttl ws r = Some (r', out) \<Longrightarrow> P r'"
  by (auto simp: publish_contact_def Let_def split: option.splits dest: keeps_store [rotated])

lemma keeps_find_contact: "P r \<Longrightarrow> find_contact C pk ws r = Some (r', out) \<Longrightarrow> P r'"
  by (auto simp: find_contact_def dest: keeps_find_value [rotated])

end

section \<open>The query loop ends\<close>

text \<open>Every operation that a packet can carry names only ids of \<open>L\<close>.\<close>

definition op_named :: "dht_operation \<Rightarrow> node_id set" where
  "op_named op = named_ids (Response (Instant 0) op)"

lemma named_ids_Response: "named_ids (Response now op) = op_named op"
  by (cases op) (simp_all add: op_named_def)

definition names_within :: "node_id set \<Rightarrow> pile \<Rightarrow> bool" where
  "names_within L ps \<longleftrightarrow> (\<forall>x \<in> set ps. \<forall>op. op_from_serialized (data (payload (fst x))) = Ok op \<longrightarrow> op_named op \<subseteq> L)"

lemma names_within_append [simp]: "names_within L (xs @ ys) \<longleftrightarrow> names_within L xs \<and> names_within L ys"
  by (simp add: names_within_def ball_Un)

lemma names_within_concat_take: "names_within L (dht_packets polls) \<Longrightarrow> names_within L (dht_packets (take k polls))"
  by (auto simp: names_within_def dht_packets_def dest: in_set_takeD)

lemma recv_dht_names:
  assumes "recv_dht expected polls r = (r', out)" and "names_within L (rt_dht_pile r)" and "names_within L (dht_packets polls)"
  shows "names_within L (rt_dht_pile r') \<and> (\<forall>op sender. out = Ok (op, sender) \<longrightarrow> op_named op \<subseteq> L)"
proof -
  from recv_dht_packets [OF assms(1)] obtain k taken where
    m: "mset (rt_dht_pile r') + mset taken = mset (rt_dht_pile r @ dht_packets (take k polls))"
    and t: "taken_ok expected out taken (k \<ge> length polls)" by blast
  have "names_within L (rt_dht_pile r @ dht_packets (take k polls))"
    using assms(2,3) names_within_concat_take by simp
  moreover have "set (rt_dht_pile r') \<union> set taken = set (rt_dht_pile r @ dht_packets (take k polls))"
    using m by (metis mset_append set_append set_mset_mset)
  ultimately have n: "names_within L (rt_dht_pile r')" "names_within L taken"
    unfolding names_within_def by blast+
  have "op_named op \<subseteq> L" if "out = Ok (op, sender)" for op sender
  proof -
    from t that obtain pkt where "taken = [(pkt, sender)]" "op_from_serialized (data (payload pkt)) = Ok op"
      by (auto simp: taken_ok_def)
    then show ?thesis using n(2) by (simp add: names_within_def)
  qed
  then show ?thesis using n(1) by blast
qed

lemma recv_dht_client: "rt_client (fst (recv_dht expected polls r)) = rt_client r"
  by (induction expected polls r rule: recv_dht.induct) (auto simp: Let_def split: list.split prod.split res.split)

lemma send_dht_op_frame [simp]:
  "rt_client (send_dht_op op a r) = rt_client r" "rt_dht_pile (send_dht_op op a r) = rt_dht_pile r"
  "rt_routing (send_dht_op op a r) = rt_routing r"
  by (simp_all add: send_dht_op_def draw_u128_def draw_def Let_def)

text \<open>One query of the loop, as an event of the lookup.\<close>

lemma lookup_loop_step:
  assumes "recv_dht addr polls (send_dht_op op addr r) = (r1, out)"
  shows "lookup_loop ((now, polls) # ws) (Some (op, addr)) r = Some (r1, Panic) \<and> out = Panic \<or>
    (\<exists>e nxt fin r2 rt rt'. lookup_event e (rt_client r, rt) = ((rt_client r2, rt'), nxt, fin) \<and>
      (e = Skip \<or> (\<exists>response sender. out = Ok (response, sender) \<and> e = Response now response)) \<and>
      rt_dht_pile r2 = rt_dht_pile r1 \<and>
      lookup_loop ((now, polls) # ws) (Some (op, addr)) r = (if fin then Some (r2, Ok ()) else lookup_loop ws nxt r2))"
proof (cases out)
  case (Ok rs)
  obtain response sender where rs: "rs = (response, sender)" by (cases rs)
  have c: "rt_client r1 = rt_client r" using recv_dht_client [of addr polls "send_dht_op op addr r"] assms by simp
  obtain rt ping where p: "add_node now (sender_id response) sender (rt_routing r1) = (rt, ping)" by fastforce
  define r2 where "r2 = (case ping of None \<Rightarrow> r1\<lparr>rt_routing := rt\<rparr>
    | Some (_, ping_addr) \<Rightarrow> send_dht_op (Ping (rt_id (r1\<lparr>rt_routing := rt\<rparr>))) ping_addr (r1\<lparr>rt_routing := rt\<rparr>))"
  have r2: "rt_client r2 = rt_client r" "rt_routing r2 = rt" "rt_dht_pile r2 = rt_dht_pile r1"
    by (simp_all add: r2_def c split: option.split)
  obtain c' rt' nxt fin where h: "handle_response now response (rt_client r, rt) = ((c', rt'), nxt, fin)"
    by (metis prod.exhaust)
  have "lookup_loop ((now, polls) # ws) (Some (op, addr)) r =
      (if fin then Some (r2\<lparr>rt_client := c', rt_routing := rt'\<rparr>, Ok ()) else lookup_loop ws nxt (r2\<lparr>rt_client := c', rt_routing := rt'\<rparr>))"
    using assms Ok rs p h r2 by (simp add: Let_def flip: r2_def)
  moreover have "lookup_event (Response now response) (rt_client r, rt) = ((c', rt'), nxt, fin)"
    using h by (simp add: lookup_event_def)
  ultimately show ?thesis using r2(3) Ok rs
    by (intro disjI2 exI [of _ "Response now response"] exI [of _ nxt] exI [of _ fin]
        exI [of _ "r2\<lparr>rt_client := c', rt_routing := rt'\<rparr>"] exI [of _ rt] exI [of _ rt']) simp
next
  case (Err e)
  have c: "rt_client r1 = rt_client r" using recv_dht_client [of addr polls "send_dht_op op addr r"] assms by simp
  obtain c' nxt fin where h: "skip_node (rt_client r) = (c', nxt, fin)" by (metis prod.exhaust)
  have "lookup_loop ((now, polls) # ws) (Some (op, addr)) r =
      (if fin then Some (r1\<lparr>rt_client := c'\<rparr>, Ok ()) else lookup_loop ws nxt (r1\<lparr>rt_client := c'\<rparr>))"
    using assms Err h c by (simp add: Let_def)
  moreover have "lookup_event Skip (rt_client r, rt_routing r) = ((c', rt_routing r), nxt, fin)"
    using h by (simp add: lookup_event_def)
  ultimately show ?thesis
    by (intro disjI2 exI [of _ Skip] exI [of _ nxt] exI [of _ fin]
        exI [of _ "r1\<lparr>rt_client := c'\<rparr>"] exI [of _ "rt_routing r"] exI [of _ "rt_routing r"]) simp
qed (use assms in simp)

text \<open>The query loop never fails: a node that does not answer is skipped, and no answer that is read panics.\<close>

lemma recv_dht_not_Panic: "snd (recv_dht expected polls r) \<noteq> Panic"
proof (induction expected polls r rule: recv_dht.induct)
  case (2 expected ps polls r)
  show ?case
  proof (cases "rt_dht_pile (arrive ps r)")
    case Nil
    then show ?thesis using 2(1) [OF refl Nil] by (simp add: Let_def)
  next
    case (Cons ph rest)
    obtain pkt sender where ph: "ph = (pkt, sender)" by (cases ph)
    note pile = Cons [unfolded ph]
    show ?thesis
    proof (cases "sender \<noteq> expected \<or> skip_in_lookup pkt")
      case True
      then show ?thesis using 2(2) [OF refl pile refl True] by (auto simp: Let_def pile)
    next
      case False
      have "op_from_serialized (data (payload pkt)) \<noteq> Panic"
        using False by (auto simp: skip_in_lookup_def Let_def dest: op_from_serialized_PanicD)
      then show ?thesis using False by (auto simp: Let_def pile map_err_eq split: res.splits)
    qed
  qed
qed simp

lemma lookup_loop_Ok: "lookup_loop ws q r = Some (r', out) \<Longrightarrow> out = Ok ()"
proof (induction ws q r rule: lookup_loop.induct)
  case (3 now polls ws op addr r)
  obtain r1 rd where rd: "recv_dht addr polls (send_dht_op op addr r) = (r1, rd)" by fastforce
  have "rd \<noteq> Panic" using recv_dht_not_Panic [of addr polls "send_dht_op op addr r"] by (simp add: rd)
  then show ?case
    using 3 rd by (cases rd) (auto simp: Let_def split: prod.splits if_splits)
qed simp_all

lemma join_Ok: "join seeds ws r = Some (r', out) \<Longrightarrow> out = Ok ()"
  using lookup_loop_Ok by (fastforce simp: join_def split: prod.splits)

lemma lookup_loop_ends:
  "finite L \<Longrightarrow> asked (rt_client r) \<subseteq> L \<Longrightarrow> listed (rt_client r) \<subseteq> L \<Longrightarrow>
   names_within L (rt_dht_pile r) \<Longrightarrow> \<forall>w \<in> set ws. names_within L (dht_packets (snd w)) \<Longrightarrow>
   card (L - asked (rt_client r)) < length ws \<Longrightarrow> lookup_loop ws q r \<noteq> None"
proof (induction ws arbitrary: q r)
  case (Cons w ws)
  obtain now polls where w: "w = (now, polls)" by (cases w)
  show ?case
  proof (cases q)
    case (Some oa)
    obtain op addr where oa: "oa = (op, addr)" by (cases oa)
    obtain r1 out where 1: "recv_dht addr polls (send_dht_op op addr r) = (r1, out)" by fastforce
    have n: "names_within L (rt_dht_pile r1)" "\<forall>op sender. out = Ok (op, sender) \<longrightarrow> op_named op \<subseteq> L"
      using recv_dht_names [OF 1, of L] Cons.prems(4,5) w by auto
    from lookup_loop_step [OF 1, of now ws] consider "lookup_loop (w # ws) q r = Some (r1, Panic)"
      | e nxt fin r2 rt rt' where "lookup_event e (rt_client r, rt) = ((rt_client r2, rt'), nxt, fin)"
        "e = Skip \<or> (\<exists>response sender. out = Ok (response, sender) \<and> e = Response now response)"
        "rt_dht_pile r2 = rt_dht_pile r1" "lookup_loop (w # ws) q r = (if fin then Some (r2, Ok ()) else lookup_loop ws nxt r2)"
      unfolding w Some oa by blast
    then show ?thesis
    proof cases
      case 2
      have "named_ids e \<subseteq> L" using 2(2) n(2) by (auto simp: named_ids_Response)
      with lookup_event_progress [OF 2(1)] have p: "listed (rt_client r2) \<subseteq> L"
        "nxt \<noteq> None \<Longrightarrow> \<exists>i \<in> L. i \<notin> asked (rt_client r) \<and> asked (rt_client r2) = insert i (asked (rt_client r))"
        using Cons.prems(3) by (auto simp: progress_def split: if_splits)
      show ?thesis
      proof (cases nxt)
        case None
        then show ?thesis using 2(4) by simp
      next
        case (Some x)
        then obtain i where i: "i \<in> L" "i \<notin> asked (rt_client r)" "asked (rt_client r2) = insert i (asked (rt_client r))"
          using p(2) by auto
        then have d: "L - asked (rt_client r) = insert i (L - asked (rt_client r2))" by auto
        have "i \<notin> L - asked (rt_client r2)" using i by simp
        then have "card (L - asked (rt_client r)) = Suc (card (L - asked (rt_client r2)))"
          unfolding d using Cons.prems(1) by simp
        then have "card (L - asked (rt_client r2)) < length ws" using Cons.prems(6) by simp
        moreover have "asked (rt_client r2) \<subseteq> L" using i Cons.prems(2) by simp
        ultimately have "lookup_loop ws nxt r2 \<noteq> None"
          using Cons.IH [of r2 nxt] Cons.prems(1,5) p(1) n(1) 2(3) by simp
        then show ?thesis using 2(4) by simp
      qed
    qed simp
  qed simp
qed simp

section \<open>Believing a contact record\<close>

lemma contact_of_value_exact: "contact_of_value C v = Ok cr \<longleftrightarrow>
    (\<exists>junk. v = Some (1 # contact_serialize cr @ junk) \<and> contact_ok C cr \<and> contact_verify C cr \<and>
        217 \<le> length (contact_serialize cr @ junk) \<and> length (contact_serialize cr @ junk) \<le> 1024)"
proof
  assume "contact_of_value C v = Ok cr"
  then obtain d rec where d: "v = Some d" "record_from_serialized d = Ok rec" "contact_from_serialized C (rec_data rec) = Ok cr"
    and cv: "contact_verify C cr" by (auto simp: contact_of_value_def res_simps split: if_splits)
  from contact_from_serialized_exact [OF d(3)] obtain junk where j: "217 \<le> length (rec_data rec)" "contact_ok C cr"
    "rec_data rec = contact_serialize cr @ junk" by blast
  moreover have "d = 1 # rec_data rec" "length (rec_data rec) \<le> 1024"
    using d(2) by (cases "rec_tag rec"; auto simp: record_from_serialized_iff record_ok_def record_serialize_def MAX_RECORD_SIZE_def)+
  ultimately show "\<exists>junk. v = Some (1 # contact_serialize cr @ junk) \<and> contact_ok C cr \<and> contact_verify C cr \<and>
      217 \<le> length (contact_serialize cr @ junk) \<and> length (contact_serialize cr @ junk) \<le> 1024"
    using d(1) cv by auto
next
  assume "\<exists>junk. v = Some (1 # contact_serialize cr @ junk) \<and> contact_ok C cr \<and> contact_verify C cr \<and>
      217 \<le> length (contact_serialize cr @ junk) \<and> length (contact_serialize cr @ junk) \<le> 1024"
  then obtain junk where j: "v = Some (1 # contact_serialize cr @ junk)" "contact_ok C cr" "contact_verify C cr"
    "217 \<le> length (contact_serialize cr @ junk)" "length (contact_serialize cr @ junk) \<le> 1024" by blast
  have "record_from_serialized (1 # contact_serialize cr @ junk) = Ok \<lparr>rec_tag = Contact, rec_data = contact_serialize cr @ junk\<rparr>"
    using j(4,5) by (auto simp: record_from_serialized_iff record_ok_def record_serialize_def MAX_RECORD_SIZE_def)
  then show "contact_of_value C v = Ok cr"
    using j contact_read_write [OF j(2,4)] by (simp add: contact_of_value_def)
qed

lemma find_contact_record:
  assumes "find_contact C pk ws r = Some (r', Ok cr)"
  shows "contact_ok C cr \<and> contact_verify C cr"
proof -
  from assms obtain v where "contact_of_value C v = Ok cr" by (auto simp: find_contact_def res_simps)
  then show ?thesis by (auto simp: contact_of_value_exact)
qed

section \<open>Properties\<close>

lemma continue_asked: "asked (c\<lparr>pending := Some (fst (next_query p))\<rparr>) \<subseteq> queried p \<union> ids_of (shortlist p)"
  "listed (c\<lparr>pending := Some (fst (next_query p))\<rparr>) = ids_of (shortlist p)"
proof -
  have "queried (fst (next_query p)) \<subseteq> queried p \<union> ids_of (shortlist p) \<and> shortlist (fst (next_query p)) = shortlist p"
  proof (cases "snd (next_query p)")
    case None
    then show ?thesis using next_query_None_same [OF None] by simp
  next
    case (Some n)
    obtain i a where n: "n = (i, a)" by (cases n)
    from next_query_Some [OF Some [unfolded n]] show ?thesis by (auto simp: in_ids_of)
  qed
  then show "asked (c\<lparr>pending := Some (fst (next_query p))\<rparr>) \<subseteq> queried p \<union> ids_of (shortlist p)"
    "listed (c\<lparr>pending := Some (fst (next_query p))\<rparr>) = ids_of (shortlist p)"
    by (simp_all add: asked_def listed_def)
qed

lemma start_asked:
  assumes "rt_ok rt"
  shows "asked (fst (start_join seeds c)) \<subseteq> {NodeID zero_arr}" "listed (fst (start_join seeds c)) \<subseteq> {NodeID zero_arr}"
    "asked (fst (start_lookup_node t rt c)) \<subseteq> ids_of (active_nodes rt)" "listed (fst (start_lookup_node t rt c)) \<subseteq> ids_of (active_nodes rt)"
    "asked (fst (start_find_value key rt c)) \<subseteq> ids_of (active_nodes rt)" "listed (fst (start_find_value key rt c)) \<subseteq> ids_of (active_nodes rt)"
proof -
  have cl: "ids_of (closest_nodes t K rt) \<subseteq> ids_of (active_nodes rt)" for t
    using closest_nodes_facts [OF assms, of t K] by (auto simp: ids_of_def)
  have z: "ids_of (map (Pair (NodeID zero_arr)) seeds) \<subseteq> {NodeID zero_arr}" by (auto simp: ids_of_def)
  let ?p = "\<lambda>t k sl. \<lparr>target = t, find_value_key = k, shortlist = sl, queried = {}, found_value = None\<rparr>"
  have eq: "fst (start_join seeds c) = c\<lparr>pending := Some (fst (next_query (?p (client_id c) None (map (Pair (NodeID zero_arr)) seeds))))\<rparr>"
    "fst (start_lookup_node t rt c) = c\<lparr>pending := Some (fst (next_query (?p t None (closest_nodes t K rt))))\<rparr>"
    "fst (start_find_value key rt c) = c\<lparr>pending := Some (fst (next_query (?p (NodeID key) (Some key) (closest_nodes (NodeID key) K rt))))\<rparr>"
    by (simp_all add: start_join_def start_lookup_node_def start_find_value_def Let_def case_prod_beta split: option.split)
  show "asked (fst (start_join seeds c)) \<subseteq> {NodeID zero_arr}" "listed (fst (start_join seeds c)) \<subseteq> {NodeID zero_arr}"
    "asked (fst (start_lookup_node t rt c)) \<subseteq> ids_of (active_nodes rt)" "listed (fst (start_lookup_node t rt c)) \<subseteq> ids_of (active_nodes rt)"
    "asked (fst (start_find_value key rt c)) \<subseteq> ids_of (active_nodes rt)" "listed (fst (start_find_value key rt c)) \<subseteq> ids_of (active_nodes rt)"
    unfolding eq
    using continue_asked [where c = c and p = "?p (client_id c) None (map (Pair (NodeID zero_arr)) seeds)"]
      continue_asked [where c = c and p = "?p t None (closest_nodes t K rt)"] continue_asked [where c = c and p = "?p (NodeID key) (Some key) (closest_nodes (NodeID key) K rt)"]
      cl [of t] cl [of "NodeID key"] z by auto
qed

text \<open>
  C17. Joining, looking up a node and looking up a value end, each after at most as many queries as there
  are ids that the routing table and the packets on the way name, and one more: whatever arrives in
  between, from whomever, and however many queries go unanswered.
\<close>

theorem lookups_end:
  assumes "rt_ok (rt_routing r)" and "finite L" and "NodeID zero_arr \<in> L" and "ids_of (active_nodes (rt_routing r)) \<subseteq> L"
    and "names_within L (rt_dht_pile r)" and "\<forall>w \<in> set ws. names_within L (dht_packets (snd w))" and "card L < length ws"
  shows "join seeds ws r \<noteq> None \<and> lookup_node t ws r \<noteq> None \<and> find_value key ws r \<noteq> None"
proof -
  have ends: "lookup_loop ws q (r\<lparr>rt_client := c\<rparr>) \<noteq> None" if "asked c \<subseteq> L" "listed c \<subseteq> L" for q c
  proof -
    have "card (L - asked c) < length ws"
      using card_mono [OF assms(2), of "L - asked c"] assms(7) by fastforce
    then show ?thesis using lookup_loop_ends [OF assms(2), of "r\<lparr>rt_client := c\<rparr>" ws q] that assms(5,6) by simp
  qed
  note s = start_asked [OF assms(1), where c = "rt_client r"]
  have "asked (fst (start_join seeds (rt_client r))) \<subseteq> L" "listed (fst (start_join seeds (rt_client r))) \<subseteq> L"
    "asked (fst (start_lookup_node t (rt_routing r) (rt_client r))) \<subseteq> L" "listed (fst (start_lookup_node t (rt_routing r) (rt_client r))) \<subseteq> L"
    "asked (fst (start_find_value key (rt_routing r) (rt_client r))) \<subseteq> L" "listed (fst (start_find_value key (rt_routing r) (rt_client r))) \<subseteq> L"
    using s assms(3,4) by blast+
  then show ?thesis
    using ends by (simp add: join_def lookup_node_def find_value_def case_prod_beta)
qed

theorem lookups_end_witness:
  "join [V4 zero_arr 1, V4 zero_arr 2] [(Instant 0, []), (Instant 5, [])]
     (runtime_bind (NodeID zero_arr) (V4 zero_arr 9) None zero_arr (\<lambda>_. zero_arr) :: unit runtime) \<noteq> None"
proof -
  let ?r = "runtime_bind (NodeID zero_arr) (V4 zero_arr 9) None zero_arr (\<lambda>_. zero_arr) :: unit runtime"
  let ?ws = "[(Instant 0, []), (Instant 5, [])] :: window list"
  have "rt_ok (rt_routing ?r)" by (simp add: runtime_bind_def routing_new_ok)
  moreover have "ids_of (active_nodes (rt_routing ?r)) \<subseteq> {NodeID zero_arr}"
    by (auto simp: runtime_bind_def routing_new_def active_nodes_def ids_of_def bucket_new_def window_set)
  moreover have "names_within {NodeID zero_arr} (rt_dht_pile ?r)" "\<forall>w \<in> set ?ws. names_within {NodeID zero_arr} (dht_packets (snd w))"
    by (simp_all add: runtime_bind_def names_within_def dht_packets_def)
  ultimately have "join [V4 zero_arr 1, V4 zero_arr 2] ?ws ?r \<noteq> None \<and> lookup_node (NodeID zero_arr) ?ws ?r \<noteq> None \<and> find_value zero_arr ?ws ?r \<noteq> None"
    by (intro lookups_end [where L = "{NodeID zero_arr}"]) simp_all
  then show ?thesis by blast
qed

text \<open>
  C24. What \<open>find_contact\<close> believes, exactly: any value found under the peer's key that is a contact
  record, at most 1024 bytes with whatever follows it, signed by one of the devices of the list
  inside it. The master key that was asked for occurs in the key only: neither the list's signature
  nor the certificates are checked against it.
\<close>

theorem find_contact_exact:
  "find_contact C pk ws r = Some (r', Ok cr) \<longleftrightarrow>
     (\<exists>ns junk. find_value (sha256 C (ascii ''contact'' @ bytes_of pk)) ws r = Some (r', Ok (Some (1 # contact_serialize cr @ junk), ns)) \<and>
        contact_ok C cr \<and> contact_verify C cr \<and>
        217 \<le> length (contact_serialize cr @ junk) \<and> length (contact_serialize cr @ junk) \<le> 1024)"
  by (cases "find_value (contact_key_for C pk) ws r")
    (auto simp: find_contact_def res_simps contact_of_value_exact contact_key_for_def)

end
