(* ===== verification/RuntimeInvariant.thy ===== *)
theory RuntimeInvariant
  imports Discovery
begin

text \<open>
  What every handler of a runtime keeps: its sessions, connections and peers are linked, its tables
  have distinct keys, its routing table is well-formed, and the peer tables change only by the handshake handlers. The
  lemmas follow the handlers of Runtime.thy; the session lemmas say what the handshake handlers leave alone.
\<close>

section \<open>Handlers that leave the peer tables alone\<close>

text \<open>
  A predicate of the runtime that does not read what the handlers of the DHT, of the relay and of
  messages write, nor the pending sessions, is kept by all of them.
\<close>

locale runtime_frame =
  fixes P :: "'hs runtime \<Rightarrow> bool"
  assumes frame [simp]: "P (rt_drawn_update f1 r) = P r" "P (rt_out_update f2 r) = P r"
      "P (rt_acks_update f3 r) = P r" "P (rt_dht_pile_update f4 r) = P r"
      "P (rt_relay_pile_update f5 r) = P r" "P (rt_handshake_pile_update f6 r) = P r"
      "P (rt_message_pile_update f7 r) = P r" "P (rt_server_update f8 r) = P r"
      "P (rt_client_update f9 r) = P r" "P (rt_routing_update f10 r) = P r"
      "P (rt_sessions_update f11 r) = P r" "P (rt_pending_update f12 r) = P r"
      "P (rt_conn_to_pk_update f13 r) = P r" "P (rt_pk_to_conn_update f14 r) = P r"
      "P (rt_received_keys_update f15 r) = P r"
    and delivered [simp]: "P r \<Longrightarrow> P (r\<lparr>rt_msgs := rt_msgs r @ new\<rparr>)"
begin

lemma small [simp]:
  "P (fst (draw r)) = P r" "P (fst (draw_u128 r)) = P r" "P (sort_packet p s r) = P r"
  "P (confirm i d r) = P r" "P (confirm_if_required p s r) = P r"
  "P (send_packet p a n r) = P r" "P (send_dht_op op d r) = P r" "P (remove_stale_conn c r) = P r"
  by (simp_all add: draw_def draw_u128_def sort_packet_def confirm_def confirm_if_required_def
      send_packet_def send_dht_op_def remove_stale_conn_def Let_def split: payload_tag.split prod.split option.split)

lemma draws: "draw r = (r', x) \<Longrightarrow> P r' = P r" "draw_u128 r = (r', i) \<Longrightarrow> P r' = P r"
  by (metis fst_conv small(1)) (metis fst_conv small(2))

lemma keeps_delivery: "P r \<Longrightarrow> deliver_inner C now pkt sender inner pk r = Ok r' \<Longrightarrow> P r'"
  using delivered [of "rt_received_keys_update f r" for f]
  by (auto simp: deliver_inner_eq Let_def split: res.splits if_splits)

lemma keeps_message: "P r \<Longrightarrow> tick_message C now u r = Ok r' \<Longrightarrow> P r'"
  by (auto simp: tick_message_def Let_def draws intro: keeps_delivery [rotated]
      split: list.splits option.splits prod.splits res.splits)

lemma keeps_relay: "P r \<Longrightarrow> tick_relay C r = Ok r' \<Longrightarrow> P r'"
  by (auto simp: tick_relay_def Let_def split: option.splits list.splits res.splits prod.splits if_splits)

lemma keeps_serve_packet: "P r \<Longrightarrow> serve_packet now pkt sender r = Ok r' \<Longrightarrow> P r'"
  by (auto simp: serve_packet_def Let_def res_simps split: option.splits prod.splits)

lemma keeps_serve_all: "P r \<Longrightarrow> serve_all now p r = Ok r' \<Longrightarrow> P r'"
proof (induction now p r rule: serve_all.induct)
  case (2 now pkt sender p r)
  then obtain r1 where 1: "serve_packet now pkt sender (r\<lparr>rt_dht_pile := p\<rparr>) = Ok r1" "serve_all now p r1 = Ok r'"
    by (auto simp: res_simps)
  have "P r1" using keeps_serve_packet [OF _ 1(1)] 2(2) by simp
  then show ?case using 2(1) 1 by blast
qed simp

lemma keeps_server: "P r \<Longrightarrow> tick_server now r = Ok r' \<Longrightarrow> P r'"
  using keeps_serve_all by (auto simp: tick_server_def res_simps)

lemma keeps_send_all: "P r \<Longrightarrow> P (fst (send_all C inner addr i conns sent r))"
proof (induction conns arbitrary: sent r)
  case (Cons c cs)
  show ?case
  proof (cases "map_of (rt_sessions r) c")
    case None
    then show ?thesis using Cons by simp
  next
    case (Some s)
    obtain r1 nonce r2 n where d: "draw r = (r1, nonce)" "draw_u128 r1 = (r2, n)" by (metis prod.exhaust)
    have r2: "P r2" using Cons.prems draws(1) [OF d(1)] draws(2) [OF d(2)] by simp
    obtain s' out where s': "session_send C (arr_of (take 12 (bytes_of nonce))) n inner s = (s', out)" by fastforce
    show ?thesis using Cons Some d s' r2 by (simp add: Let_def split: res.split)
  qed
qed simp

lemma keeps_send:
  assumes "P r"
  shows "P (fst (send_message C msg pk r))"
proof -
  have "P (fst (draw (fst (draw r))))" using assms by simp
  then have 1: "P (fst (send_all C inner addr i conns sent (fst (draw (fst (draw r))))))" for inner addr i conns sent
    by (rule keeps_send_all)
  have 2: "P (fst (case x of (r, Ok sent) \<Rightarrow> (r, if sent then Ok () else e) | (r, Err e) \<Rightarrow> (r, Err e) | (r, Panic) \<Rightarrow> (r, Panic)))"
    if "P (fst x)" for x and e :: "unit res"
    using that by (cases x) (auto split: res.split)
  show ?thesis
    using assms by (simp add: send_message_def Let_def case_prod_beta' split: option.split res.split) (use 1 2 in blast)
qed

lemma keeps_initiator: "P r \<Longrightarrow> P (fst (enable_session_initiator N px pu r))"
  by (auto simp: enable_session_initiator_def Let_def draws split: res.split prod.split)

lemma keeps_initiate: "P r \<Longrightarrow> P (fst (rt_initiate_handshake N C t r))"
  by (auto simp: rt_initiate_handshake_def Let_def draws split: res.split prod.split option.split)

end

sublocale runtime_frame \<subseteq> dht_caller P
proof
  show "P (r\<lparr>rt_client := c, rt_routing := rt\<rparr>)" if "P r" for r c rt
    using that frame(9) [of "\<lambda>_. c" "r\<lparr>rt_routing := rt\<rparr>"] by simp
qed simp_all

section \<open>The invariant\<close>

text \<open>
  A session in the table is established under its own connection id, every connection has a session
  and a peer, and the peer lists it. A session that waits for the responder's answer knows our key.
\<close>

definition session_good :: "16 arr \<Rightarrow> 'hs session \<Rightarrow> bool" where
  "session_good c s \<longleftrightarrow> s_ratchet s \<noteq> None \<and> s_connection_id s = Some c \<and> s_our_master_pubkey s \<noteq> None"

definition links_ok ::
    "(16 arr, 'hs session) hash_map \<Rightarrow> (16 arr, 32 arr) hash_map \<Rightarrow> (32 arr, 16 arr list) hash_map \<Rightarrow> bool" where
  "links_ok ss cp pc \<longleftrightarrow>
     hm_ok ss \<and> hm_ok cp \<and> hm_ok pc \<and>
     (\<forall>c. map_of ss c = None \<longleftrightarrow> map_of cp c = None) \<and>
     (\<forall>c s. map_of ss c = Some s \<longrightarrow> session_good c s) \<and>
     (\<forall>c pk. map_of cp c = Some pk \<longrightarrow> (\<exists>cs. map_of pc pk = Some cs \<and> c \<in> set cs)) \<and>
     (\<forall>pk. map_of pc pk \<noteq> Some [])"

definition runtime_ok :: "'hs runtime \<Rightarrow> bool" where
  "runtime_ok r \<longleftrightarrow>
     links_ok (rt_sessions r) (rt_conn_to_pk r) (rt_pk_to_conn r) \<and> rt_ok (rt_routing r) \<and>
     hm_ok (rt_pending r) \<and> (\<forall>t s pk. map_of (rt_pending r) t = Some (s, pk) \<longrightarrow> s_our_master_pubkey s \<noteq> None) \<and>
     hm_ok (rt_pk_to_addr r) \<and> hm_ok (rt_peer_keys r) \<and> hm_ok (rt_received_keys r)"

lemma links_ok_empty: "links_ok [] [] []"
  by (simp add: links_ok_def)

lemma links_ok_put:
  "links_ok ss cp pc \<Longrightarrow> map_of ss c \<noteq> None \<Longrightarrow> session_good c s \<Longrightarrow> links_ok (AList.update c s ss) cp pc"
  by (auto simp: links_ok_def update_conv')

lemma links_ok_listed:
  "links_ok ss cp pc \<Longrightarrow> map_of cp c = Some pk \<Longrightarrow> \<exists>cs. map_of pc pk = Some cs \<and> c \<in> set cs"
  unfolding links_ok_def by blast

lemma map_of_push_conn:
  "map_of (push_conn pk c pc) k =
     (if k = pk then Some ((case map_of pc pk of None \<Rightarrow> [] | Some cs \<Rightarrow> cs) @ [c]) else map_of pc k)"
  by (simp add: push_conn_def)

lemma links_ok_adopt:
  assumes ok: "links_ok ss cp pc" and s: "session_good c s"
  shows "links_ok (AList.update c s ss) (AList.update c pk cp) (push_conn pk c pc)"
proof -
  have "\<exists>cs. map_of (push_conn pk c pc) pk' = Some cs \<and> c' \<in> set cs"
    if "map_of (AList.update c pk cp) c' = Some pk'" for c' pk'
    using that links_ok_listed [OF ok, of c' pk'] by (auto simp: map_of_push_conn split: if_splits)
  moreover have "hm_ok (push_conn pk c pc)" using ok by (simp add: push_conn_def links_ok_def)
  moreover have "map_of (push_conn pk c pc) k \<noteq> Some []" for k
    using ok by (auto simp: map_of_push_conn links_ok_def)
  ultimately show ?thesis using ok s unfolding links_ok_def by simp
qed

lemma map_of_drop_conn:
  "map_of (drop_conn pk c pc) k =
     (if k = pk then (case map_of pc pk of None \<Rightarrow> None
        | Some cs \<Rightarrow> if filter (\<lambda>c'. c' \<noteq> c) cs = [] then None else Some (filter (\<lambda>c'. c' \<noteq> c) cs))
      else map_of pc k)"
  by (auto simp: drop_conn_def update_conv' delete_conv' Let_def split: option.splits)

lemma drop_conn_ok: "hm_ok pc \<Longrightarrow> hm_ok (drop_conn pk c pc)"
  by (simp add: drop_conn_def Let_def split: option.splits)

lemma links_ok_remove:
  assumes ok: "links_ok ss cp pc"
  shows "map_of cp c = None \<Longrightarrow> links_ok (AList.delete c ss) cp pc"
    and "map_of cp c = Some pk \<Longrightarrow> links_ok (AList.delete c ss) (AList.delete c cp) (drop_conn pk c pc)"
proof -
  show "map_of cp c = None \<Longrightarrow> links_ok (AList.delete c ss) cp pc"
    using ok by (auto simp: links_ok_def delete_conv')
  assume "map_of cp c = Some pk"
  have listed: "\<exists>cs. map_of (drop_conn pk c pc) pk' = Some cs \<and> c' \<in> set cs"
    if c': "map_of cp c' = Some pk'" "c' \<noteq> c" for c' pk'
  proof -
    obtain cs where cs: "map_of pc pk' = Some cs" "c' \<in> set cs" using links_ok_listed [OF ok c'(1)] by blast
    then have "c' \<in> set (filter (\<lambda>x. x \<noteq> c) cs)" using c'(2) by simp
    then have "filter (\<lambda>x. x \<noteq> c) cs \<noteq> []" by (metis empty_iff empty_set)
    with cs c'(2) show ?thesis by (auto simp: map_of_drop_conn)
  qed
  have "map_of (drop_conn pk c pc) pk' \<noteq> Some []" for pk'
    using ok by (auto simp: map_of_drop_conn links_ok_def split: option.splits)
  then show "links_ok (AList.delete c ss) (AList.delete c cp) (drop_conn pk c pc)"
    using ok listed by (auto simp: links_ok_def delete_conv' drop_conn_ok)
qed

section \<open>What the session handlers leave alone\<close>

lemma initiate_handshake_frame:
  "initiate_handshake N C a e addr s = (s', out) \<Longrightarrow> s_our_master_pubkey s' = s_our_master_pubkey s"
  by (auto simp: initiate_handshake_def Let_def split: option.splits prod.splits)

lemma complete_handshake_frame:
  "complete_handshake N C f u resp s = (s', out) \<Longrightarrow> s_our_master_pubkey s' = s_our_master_pubkey s"
  by (auto simp: complete_handshake_def Let_def split: option.splits res.splits prod.splits)

lemma accept_handshake_frame:
  "accept_handshake N C msg s = (s', out) \<Longrightarrow>
     s_our_master_pubkey s' = s_our_master_pubkey s \<and> s_connection_id s' = s_connection_id s"
  by (auto simp: accept_handshake_unfold Let_def split: option.splits res.splits prod.splits if_splits)

lemma reply_handshake_frame:
  "reply_handshake N C b e u s = (s', out) \<Longrightarrow> s_our_master_pubkey s' = s_our_master_pubkey s"
  by (auto simp: reply_handshake_def Let_def split: option.splits res.splits prod.splits)

lemma reply_handshake_connects:
  "reply_handshake N C b e u s = (s', out) \<Longrightarrow> s_connection_id s = None \<Longrightarrow> s_connection_id s' \<noteq> None \<Longrightarrow>
     s_ratchet s' \<noteq> None"
  by (auto simp: reply_handshake_def Let_def split: option.splits res.splits prod.splits)

lemma session_send_good: "session_good c s \<Longrightarrow> session_good c (fst (session_send C rnd i bs s))"
  by (auto simp: session_good_def session_send_def Let_def split: prod.splits)

lemma session_receive_good: "session_good c s \<Longrightarrow> session_good c (fst (session_receive C f u pkt s))"
  by (auto simp: session_good_def session_receive_unfold Let_def split: prod.splits)

lemma complete_handshake_good:
  assumes "complete_handshake N C f u resp s = (s', Ok ())" and "s_our_master_pubkey s \<noteq> None"
    and "s_connection_id s' = Some c"
  shows "session_good c s'"
  using complete_handshake_checks [OF assms(1)] complete_handshake_frame [OF assms(1)] assms(2,3)
  by (auto simp: session_good_def)

section \<open>Every handler keeps the invariant\<close>

text \<open>The fields that the invariant does not read.\<close>

lemma runtime_ok_frame [simp]:
  "runtime_ok (rt_drawn_update f r) = runtime_ok r" "runtime_ok (rt_out_update f1 r) = runtime_ok r"
  "runtime_ok (rt_acks_update f2 r) = runtime_ok r" "runtime_ok (rt_msgs_update f3 r) = runtime_ok r"
  "runtime_ok (rt_sess_update f4 r) = runtime_ok r" "runtime_ok (rt_dht_pile_update f5 r) = runtime_ok r"
  "runtime_ok (rt_relay_pile_update f5 r) = runtime_ok r" "runtime_ok (rt_handshake_pile_update f5 r) = runtime_ok r"
  "runtime_ok (rt_message_pile_update f5 r) = runtime_ok r" "runtime_ok (rt_seen_tags_update f6 r) = runtime_ok r"
  "runtime_ok (rt_server_update f7 r) = runtime_ok r" "runtime_ok (rt_client_update f8 r) = runtime_ok r"
  "runtime_ok (rt_master_pubkey_update f9 r) = runtime_ok r" "runtime_ok (rt_device_cert_update f10 r) = runtime_ok r"
  "runtime_ok (rt_relay_fwd_update f11 r) = runtime_ok r" "runtime_ok (rt_relay_addr_update f12 r) = runtime_ok r"
  "runtime_ok (rt_msg_rx_update f13 r) = runtime_ok r" "runtime_ok (rt_sess_rx_update f13 r) = runtime_ok r"
  by (simp_all add: runtime_ok_def)

lemma runtime_ok_tables [intro]:
  "runtime_ok r \<Longrightarrow> runtime_ok (set_peer_addr pk a r)"
  "runtime_ok r \<Longrightarrow> runtime_ok (learn_key a s r)"
  "runtime_ok r \<Longrightarrow> s_our_master_pubkey s \<noteq> None \<Longrightarrow>
     runtime_ok (r\<lparr>rt_pending := AList.update t (s, pk') (rt_pending r)\<rparr>)"
  "runtime_ok r \<Longrightarrow> runtime_ok (r\<lparr>rt_pending := AList.delete t (rt_pending r)\<rparr>)"
  by (auto simp: runtime_ok_def set_peer_addr_def learn_key_def update_conv' delete_conv' split: option.splits)

lemma runtime_ok_small [simp]:
  "runtime_ok (fst (draw r)) = runtime_ok r" "runtime_ok (fst (draw_u128 r)) = runtime_ok r"
  "runtime_ok (sort_packet p s r) = runtime_ok r"
  "runtime_ok (confirm i d r) = runtime_ok r" "runtime_ok (confirm_if_required p s r) = runtime_ok r"
  "runtime_ok (send_packet p a i r) = runtime_ok r" "runtime_ok (send_dht_op op d r) = runtime_ok r"
  by (simp_all add: draw_def draw_u128_def sort_packet_def confirm_def confirm_if_required_def
      send_packet_def send_dht_op_def Let_def split: payload_tag.split prod.split)

lemma runtime_ok_adopt:
  assumes "runtime_ok r" and "session_good c s"
  shows "runtime_ok (adopt_session C c pk s r)"
  using assms links_ok_adopt [of "rt_sessions r" "rt_conn_to_pk r" "rt_pk_to_conn r" c s pk]
  by (simp add: runtime_ok_def adopt_session_def Let_def)

lemma runtime_ok_put:
  assumes "runtime_ok r" and "map_of (rt_sessions r) c \<noteq> None" and "session_good c s"
  shows "runtime_ok (r\<lparr>rt_sessions := AList.update c s (rt_sessions r)\<rparr>)"
  using assms(1) links_ok_put [OF _ assms(2,3)] by (simp add: runtime_ok_def)

lemma runtime_ok_session: "runtime_ok r \<Longrightarrow> map_of (rt_sessions r) c = Some s \<Longrightarrow> session_good c s"
  by (simp add: runtime_ok_def links_ok_def)

lemma runtime_ok_conn: "runtime_ok r \<Longrightarrow> map_of (rt_sessions r) c = None \<longleftrightarrow> map_of (rt_conn_to_pk r) c = None"
  by (simp add: runtime_ok_def links_ok_def)

lemma runtime_ok_remove: "runtime_ok r \<Longrightarrow> runtime_ok (remove_stale_conn c r)"
  using links_ok_remove [of "rt_sessions r" "rt_conn_to_pk r" "rt_pk_to_conn r" c]
  by (cases "map_of (rt_conn_to_pk r) c") (simp_all add: remove_stale_conn_def runtime_ok_def Let_def)

lemma try_complete_ok:
  assumes ok: "runtime_ok r" and t: "try_complete N C u pkt sender r = Ok (r', out)"
  shows "runtime_ok r' \<and> (\<forall>c pk. out = Some (c, pk) \<longrightarrow>
    (\<exists>s pk'. map_of (rt_pending r') (connection_id (payload pkt)) = Some (s, pk') \<and> session_good c s))"
proof (cases "map_of (rt_pending r) (connection_id (payload pkt))")
  case None
  then show ?thesis using ok t by (simp add: try_complete_def)
next
  case (Some sp)
  obtain s pk where sp: "sp = (s, pk)" by (cases sp)
  have m: "s_our_master_pubkey s \<noteq> None" using ok Some sp by (auto simp: runtime_ok_def)
  obtain s' res where c: "complete_handshake N C (snd (draw r)) u (data (payload pkt)) s = (s', res)" by fastforce
  have m': "s_our_master_pubkey s' \<noteq> None" using complete_handshake_frame [OF c] m by simp
  let ?r = "fst (draw r)\<lparr>rt_pending := AList.update (connection_id (payload pkt)) (s', pk) (rt_pending (fst (draw r)))\<rparr>"
  have r: "runtime_ok ?r" using runtime_ok_tables(3) [of "fst (draw r)", OF _ m'] ok by simp
  show ?thesis
  proof (cases "is_initiator s")
    case False
    then show ?thesis using ok t Some sp by (simp add: try_complete_def)
  next
    case True
    have t': "try_complete N C u pkt sender r =
      (case res of Panic \<Rightarrow> Panic | Err _ \<Rightarrow> Ok (?r, None)
       | Ok _ \<Rightarrow> (case s_connection_id s' of None \<Rightarrow> Ok (?r, None)
           | Some conn \<Rightarrow> Ok (learn_key sender s' ?r, Some (conn, case pk of None \<Rightarrow> zero_arr | Some pk \<Rightarrow> pk))))"
      using c by (simp add: try_complete_def draw_def Some sp True Let_def split: res.split option.split)
    have lp: "rt_pending (learn_key sender s' ?r) = rt_pending ?r"
      by (simp add: learn_key_def split: option.split)
    show ?thesis
      using t r complete_handshake_good [of N C "snd (draw r)" u "data (payload pkt)" s s', OF _ m] c lp
      unfolding t'
      by (auto split: res.splits option.splits)
  qed
qed

text \<open>\<open>try_respond\<close> with the results of its steps named.\<close>

lemma try_respond_eq:
  assumes "spawn_responder N r = Ok s" and "accept_handshake N C (data (payload pkt)) s = (s1, Ok ())"
    and "(case s_peer_master_pubkey s1 of None \<Rightarrow> zero_arr | Some pk \<Rightarrow> pk) = peer"
    and "(case s_peer_addr s1 of None \<Rightarrow> r | Some addr \<Rightarrow> set_peer_addr peer addr r) = r1"
    and "draw r1 = (ra, secret)" and "draw ra = (r2, eph)" and "draw_u128 r2 = (r3, i)"
    and "reply_handshake N C secret eph u s1 = (s2, b)"
  shows "try_respond N C u pkt sender r =
    (let r4 = (case b of Ok _ \<Rightarrow> r3 | _ \<Rightarrow> r2);
         addr = (case map_of (rt_pk_to_addr r3) peer of None \<Rightarrow> sender | Some a \<Rightarrow> a);
         reply = (case b of Ok bs \<Rightarrow> Some (handshake_packet i (connection_id (payload pkt)) bs, addr, peer) | _ \<Rightarrow> None)
     in if b = Panic then Panic
        else (case s_connection_id s2 of
                None \<Rightarrow> Ok (r4, reply)
              | Some conn \<Rightarrow>
                  Ok ((adopt_session C conn peer s2 (learn_key sender s2 r4))
                    \<lparr>rt_seen_tags := insert (connection_id (payload pkt)) (rt_seen_tags r4)\<rparr>, reply)))"
  unfolding try_respond_def Let_def assms(1,2) res.case prod.case assms(3-8)
  by (cases b; cases "s_connection_id s2") (simp_all add: assms(7))

lemma try_respond_ok:
  assumes ok: "runtime_ok r" and t: "try_respond N C u pkt sender r = Ok (r', out)"
  shows "runtime_ok r'"
proof (cases "spawn_responder N r")
  case (Ok s)
  then have s: "s_our_master_pubkey s \<noteq> None" "s_connection_id s = None"
    by (auto simp: spawn_responder_def new_responder_def res_simps)
  obtain s1 a where a: "accept_handshake N C (data (payload pkt)) s = (s1, a)" by fastforce
  from accept_handshake_frame [OF a] s have s1: "s_our_master_pubkey s1 \<noteq> None" "s_connection_id s1 = None" by simp_all
  show ?thesis
  proof (cases a)
    case a': (Ok x)
    define peer where "peer = (case s_peer_master_pubkey s1 of None \<Rightarrow> zero_arr | Some pk \<Rightarrow> pk)"
    define r1 where "r1 = (case s_peer_addr s1 of None \<Rightarrow> r | Some addr \<Rightarrow> set_peer_addr peer addr r)"
    obtain ra secret r2 eph r3 i where d: "draw r1 = (ra, secret)" "draw ra = (r2, eph)" "draw_u128 r2 = (r3, i)"
      by (metis prod.exhaust)
    have "runtime_ok r1" using ok by (auto simp: r1_def split: option.split)
    then have rs: "runtime_ok r2" "runtime_ok r3"
      using d runtime_ok_small(1) [of r1] runtime_ok_small(1) [of ra] runtime_ok_small(2) [of r2] by simp_all
    obtain s2 b where b: "reply_handshake N C secret eph u s1 = (s2, b)" by fastforce
    have good: "session_good c s2" if "s_connection_id s2 = Some c" for c
      using that reply_handshake_frame [OF b] reply_handshake_connects [OF b s1(2)] s1(1) by (simp add: session_good_def)
    have adopted: "runtime_ok (adopt_session C c peer s2 (learn_key sender s2 r))"
      if "s_connection_id s2 = Some c" "runtime_ok r" for c r
      using runtime_ok_adopt [OF runtime_ok_tables(2) [OF that(2)] good [OF that(1)]] .
    note eq = try_respond_eq [OF Ok a [unfolded a', simplified] peer_def [symmetric] r1_def [symmetric] d b]
    show ?thesis
      using t rs adopted unfolding eq by (auto simp: Let_def split: res.splits option.splits)
  qed (use t Ok a ok in \<open>auto simp: try_respond_def\<close>)
qed (use t ok in \<open>auto simp: try_respond_def\<close>)

lemma tick_handshake_ok:
  assumes ok: "runtime_ok r" and t: "tick_handshake N C u r = Ok r'"
  shows "runtime_ok r'"
proof (cases "rt_handshake_pile r")
  case (Cons ps rest)
  obtain pkt sender where ps: "ps = (pkt, sender)" by (cases ps)
  let ?t = "connection_id (payload pkt)"
  from t Cons ps obtain r1 out where 1: "try_complete N C u pkt sender (r\<lparr>rt_handshake_pile := rest\<rparr>) = Ok (r1, out)"
    by (auto simp: tick_handshake_def Let_def res_simps)
  have r1: "runtime_ok r1" and
    g: "\<And>c pk. out = Some (c, pk) \<Longrightarrow> \<exists>s pk'. map_of (rt_pending r1) ?t = Some (s, pk') \<and> session_good c s"
    using try_complete_ok [OF _ 1] ok by auto
  show ?thesis
  proof (cases out)
    case (Some cp)
    obtain c pk where cp: "cp = (c, pk)" by (cases cp)
    from g Some cp obtain s pk' where s: "map_of (rt_pending r1) ?t = Some (s, pk')" "session_good c s" by blast
    have "runtime_ok (adopt_session C c pk s (r1\<lparr>rt_pending := AList.delete ?t (rt_pending r1)\<rparr>))"
      using r1 s(2) by (intro runtime_ok_adopt runtime_ok_tables)
    then show ?thesis using t Cons ps 1 Some cp s by (auto simp: tick_handshake_def Let_def)
  next
    case None
    show ?thesis
    proof (cases "?t \<in> rt_seen_tags r1")
      case True
      then show ?thesis using t Cons ps 1 None r1 by (simp add: tick_handshake_def Let_def)
    next
      case False
      from t Cons ps 1 None False obtain r2 reply where 2: "try_respond N C u pkt sender r1 = Ok (r2, reply)"
        and r': "r' = confirm_if_required pkt sender (case reply of None \<Rightarrow> r2
          | Some (p, addr, peer_pk) \<Rightarrow> send_packet p addr (derive_id C peer_pk) r2)"
        by (auto simp: tick_handshake_def Let_def res_simps)
      show ?thesis unfolding r' using try_respond_ok [OF r1 2] by (simp split: option.split prod.split)
    qed
  qed
qed (use t ok in \<open>simp add: tick_handshake_def\<close>)

lemma runtime_ok_received: "runtime_ok r \<Longrightarrow> hm_ok m \<Longrightarrow> runtime_ok (r\<lparr>rt_received_keys := m\<rparr>)"
  by (simp add: runtime_ok_def)

lemma runtime_ok_received_hm: "runtime_ok r \<Longrightarrow> hm_ok (rt_received_keys r)"
  by (simp add: runtime_ok_def)

lemma deliver_inner_ok:
  "runtime_ok r \<Longrightarrow> deliver_inner C now pkt sender inner pk r = Ok r' \<Longrightarrow> runtime_ok r'"
  by (auto simp: deliver_inner_eq Let_def runtime_ok_received runtime_ok_received_hm split: if_splits res.splits)

lemma tick_message_ok:
  assumes ok: "runtime_ok r" and t: "tick_message C now u r = Ok r'"
  shows "runtime_ok r'"
proof (cases "rt_message_pile r")
  case (Cons ps rest)
  obtain pkt sender where ps: "ps = (pkt, sender)" by (cases ps)
  let ?c = "connection_id (payload pkt)"
  let ?r = "r\<lparr>rt_message_pile := rest\<rparr>"
  have r: "runtime_ok ?r" using ok by simp
  show ?thesis
  proof (cases "map_of (rt_sessions r) ?c")
    case None
    then show ?thesis using t Cons ps runtime_ok_remove [OF r] by (auto simp: tick_message_def Let_def)
  next
    case (Some s)
    obtain s' out where s': "session_receive C (snd (draw ?r)) u pkt s = (s', out)" by fastforce
    have "session_good ?c s" using runtime_ok_session [OF ok Some] .
    then have good: "session_good ?c s'" using session_receive_good [of ?c s C "snd (draw ?r)" u pkt] s' by simp
    define r1 where "r1 = fst (draw ?r)\<lparr>rt_sessions := AList.update ?c s' (rt_sessions (fst (draw ?r)))\<rparr>"
    have r1: "runtime_ok r1"
      unfolding r1_def using r Some good by (intro runtime_ok_put) (simp_all add: draw_def)
    have "tick_message C now u r =
      (case out of Panic \<Rightarrow> Panic | Err _ \<Rightarrow> Ok (remove_stale_conn ?c r1)
       | Ok (inner, sender_pk) \<Rightarrow> deliver_inner C now pkt sender inner sender_pk r1)"
      using s' by (cases out) (auto simp: tick_message_def Cons ps Let_def Some draw_def r1_def)
    then show ?thesis using t deliver_inner_ok [OF r1] runtime_ok_remove [OF r1] by (auto split: res.splits prod.splits)
  qed
qed (use t ok in \<open>simp add: tick_message_def\<close>)

lemma send_all_ok: "runtime_ok r \<Longrightarrow> runtime_ok (fst (send_all C inner addr i conns sent r))"
proof (induction conns arbitrary: sent r)
  case (Cons c cs)
  show ?case
  proof (cases "map_of (rt_sessions r) c")
    case None
    then show ?thesis using Cons by simp
  next
    case (Some s)
    obtain r1 nonce r2 n where d: "draw r = (r1, nonce)" "draw_u128 r1 = (r2, n)" by (metis prod.exhaust)
    have r2: "runtime_ok r2" "rt_sessions r2 = rt_sessions r"
      using Cons.prems d runtime_ok_small(1) [of r] runtime_ok_small(2) [of r1]
      by (auto simp: draw_def draw_u128_def)
    obtain s' out where s': "session_send C (arr_of (take 12 (bytes_of nonce))) n inner s = (s', out)" by fastforce
    have "session_good c s'" using session_send_good [OF runtime_ok_session [OF Cons.prems Some]] s' by (metis fst_conv)
    then have "runtime_ok (r2\<lparr>rt_sessions := AList.update c s' (rt_sessions r2)\<rparr>)"
      using r2 Some by (intro runtime_ok_put) simp_all
    then show ?thesis using Cons Some d s' by (simp add: Let_def split: res.split)
  qed
qed simp

lemma send_message_ok:
  assumes "runtime_ok r"
  shows "runtime_ok (fst (send_message C msg pk r))"
proof -
  have "runtime_ok (fst (draw (fst (draw r))))" using assms by simp
  then have 1: "runtime_ok (fst (send_all C inner addr i conns sent (fst (draw (fst (draw r))))))" for inner addr i conns sent
    by (rule send_all_ok)
  have 2: "runtime_ok (fst (case x of (r, Ok sent) \<Rightarrow> (r, if sent then Ok () else e) | (r, Err e) \<Rightarrow> (r, Err e) | (r, Panic) \<Rightarrow> (r, Panic)))"
    if "runtime_ok (fst x)" for x and e :: "unit res"
    using that by (cases x) (auto split: res.split)
  show ?thesis
    using assms by (simp add: send_message_def Let_def case_prod_beta' split: option.split res.split) (use 1 2 in blast)
qed

lemma tick_relay_ok:
  assumes "runtime_ok r" and "tick_relay C r = Ok r'"
  shows "runtime_ok r'"
  using assms
  by (auto simp: tick_relay_def Let_def split: option.splits list.splits res.splits prod.splits if_splits)

lemma serve_packet_ok:
  assumes ok: "runtime_ok r" and s: "serve_packet now pkt sender r = Ok r'"
  shows "runtime_ok r'"
proof (cases "rt_server r")
  case None
  then show ?thesis using assms by (auto simp: serve_packet_def)
next
  case (Some srv)
  have put: "runtime_ok (r\<lparr>rt_server := v, rt_routing := rt\<rparr>)" if "rt_ok rt" for rt v
    using ok that by (simp add: runtime_ok_def)
  have rt: "rt_ok rt" if "dht_process now pkt sender (srv, rt_routing r) = Ok ((srv', rt), reply)" for srv' rt reply
    using that ok process_op_ok [of "rt_routing r" now _ sender srv]
    by (auto simp: dht_process_def res_simps runtime_ok_def split: option.splits) (metis fst_conv snd_conv)
  show ?thesis
    using s ok put rt Some
    by (auto simp: serve_packet_def Let_def res_simps split: option.splits prod.splits)
qed

lemma serve_all_ok: "runtime_ok r \<Longrightarrow> serve_all now p r = Ok r' \<Longrightarrow> runtime_ok r'"
proof (induction now p r rule: serve_all.induct)
  case (2 now pkt sender p r)
  then obtain r1 where 1: "serve_packet now pkt sender (r\<lparr>rt_dht_pile := p\<rparr>) = Ok r1" "serve_all now p r1 = Ok r'"
    by (auto simp: res_simps)
  have "runtime_ok r1" using serve_packet_ok [OF _ 1(1)] 2(2) by simp
  then show ?case using 2(1) 1 by blast
qed simp

lemma tick_server_ok:
  assumes "runtime_ok r" and "tick_server now r = Ok r'"
  shows "runtime_ok r'"
proof -
  from assms(2) obtain r1 where r1: "serve_all now (rt_dht_pile r) r = Ok r1"
    "r' = r1\<lparr>rt_routing := evict_stale now (rt_routing r1)\<rparr>" by (auto simp: tick_server_def res_simps)
  from serve_all_ok [OF assms(1) r1(1)] show ?thesis by (simp add: r1(2) runtime_ok_def evict_stale_ok)
qed

lemma enable_session_initiator_ok:
  assumes ok: "runtime_ok r"
  shows "runtime_ok (fst (enable_session_initiator N px pu r))"
proof -
  define m where "m = and_then (ok_or (rt_master_pubkey r) (Msg ''master pubkey not set'')) (\<lambda>our_master.
    and_then (ok_or (rt_device_cert r) (Msg ''No device certificate available'')) (\<lambda>cert.
      new_initiator N (rt_x25519_priv r) px cert our_master pu))"
  obtain r1 i where d: "draw_u128 r = (r1, i)" by fastforce
  have r1: "runtime_ok r1" using ok d runtime_ok_small(2) [of r] by simp
  have "s_our_master_pubkey s \<noteq> None" if "m = Ok s" for s
    using that by (auto simp: m_def new_initiator_def res_simps)
  then show ?thesis
    using ok runtime_ok_tables(3) [OF r1]
    by (cases m) (simp_all add: enable_session_initiator_def d Let_def flip: m_def)
qed

lemma rt_initiate_handshake_ok:
  assumes ok: "runtime_ok r"
  shows "runtime_ok (fst (rt_initiate_handshake N C t r))"
proof (cases "map_of (rt_pending r) t")
  case (Some sp)
  obtain s pk where sp: "sp = (s, pk)" by (cases sp)
  show ?thesis
  proof (cases pk)
    case pk: (Some peer)
    obtain r1 secret r2 eph where d: "draw r = (r1, secret)" "draw r1 = (r2, eph)" by (metis prod.exhaust)
    obtain s' out where s': "initiate_handshake N C secret eph (rt_address r2) s = (s', out)" by fastforce
    have "s_our_master_pubkey s' \<noteq> None"
      using initiate_handshake_frame [OF s'] ok Some sp by (auto simp: runtime_ok_def)
    moreover have "runtime_ok r2" using ok d runtime_ok_small(1) [of r] runtime_ok_small(1) [of r1] by simp
    ultimately have r3: "runtime_ok (r2\<lparr>rt_pending := AList.update t (s', Some peer) (rt_pending r2)\<rparr>)" by blast
    obtain r4 i where r4: "draw_u128 (r2\<lparr>rt_pending := AList.update t (s', Some peer) (rt_pending r2)\<rparr>) = (r4, i)" by fastforce
    then have "runtime_ok r4" using r3 runtime_ok_small(2) by (metis fst_conv)
    then show ?thesis
      using r3 by (simp add: rt_initiate_handshake_def Let_def Some sp pk d s' r4 split: res.split option.split)
  qed (use ok Some sp in \<open>simp add: rt_initiate_handshake_def\<close>)
qed (use ok in \<open>simp add: rt_initiate_handshake_def\<close>)

lemma load_peer_state_ok:
  assumes ok: "runtime_ok r"
  shows "runtime_ok (fst (load_peer_state C d r))"
proof -
  have k: "hm_ok m" if "deserialize_peer_keys C bs = Ok m" for bs m
    using that by (auto simp: deserialize_peer_keys_def res_simps insert_all_ok split: if_splits)
  have a: "hm_ok m" if "deserialize_pk_to_addr bs = Ok m" for bs m
    using that by (auto simp: deserialize_pk_to_addr_def res_simps insert_all_ok split: if_splits)
  have put: "runtime_ok (r\<lparr>rt_peer_keys := keys, rt_pk_to_addr := addrs\<rparr>)" if "hm_ok keys" "hm_ok addrs" for keys addrs
    using ok that by (simp add: runtime_ok_def)
  have fields: "runtime_ok (fst (case m of Ok (keys, addrs) \<Rightarrow> (r\<lparr>rt_peer_keys := keys, rt_pk_to_addr := addrs\<rparr>, Ok ())
      | Err e \<Rightarrow> (r, Err e) | Panic \<Rightarrow> (r, Panic)))"
    if "\<And>keys addrs. m = Ok (keys, addrs) \<Longrightarrow> hm_ok keys \<and> hm_ok addrs" for m
    using put that ok by (cases m) auto
  show ?thesis
    unfolding load_peer_state_def Let_def
    by (rule fields) (auto simp: and_then_eq_Ok dest: k a split: if_splits)
qed

lemma handle_response_ok:
  assumes "rt_ok rt" and "handle_response now op (c, rt) = ((c', rt'), nxt, fin)"
  shows "rt_ok rt'"
  using assms add_nodes_ok [OF assms(1)]
  by (cases op) (auto simp: handle_response_def Let_def split: option.splits prod.splits if_splits)

lemma runtime_ok_routing: "runtime_ok r \<Longrightarrow> runtime_ok (r\<lparr>rt_client := c, rt_routing := rt\<rparr>) \<longleftrightarrow> rt_ok rt"
  "runtime_ok r \<Longrightarrow> runtime_ok (r\<lparr>rt_routing := rt\<rparr>) \<longleftrightarrow> rt_ok rt"
  by (simp_all add: runtime_ok_def)

text \<open>The lookups keep the invariant: whatever they put into the routing table is well-formed.\<close>

interpretation runtime_dht: dht_caller runtime_ok
proof
  show "runtime_ok (r\<lparr>rt_routing := rt\<rparr>)" if "runtime_ok r" and "add_node now i s (rt_routing r) = (rt, ping)"
    for r :: "'hs runtime" and now i s rt ping
    using that add_node_ok [of "rt_routing r" now i s] by (simp add: runtime_ok_routing) (simp add: runtime_ok_def)
  show "runtime_ok (r\<lparr>rt_client := c, rt_routing := rt\<rparr>)"
    if "runtime_ok r" and "handle_response now op (rt_client r, rt_routing r) = ((c, rt), nxt, fin)"
    for r :: "'hs runtime" and now op c rt nxt fin
    using that handle_response_ok [OF _ that(2)] by (simp add: runtime_ok_routing) (simp add: runtime_ok_def)
qed simp_all

lemmas runtime_lookups_ok = runtime_dht.keeps_join runtime_dht.keeps_lookup_node runtime_dht.keeps_find_value
  runtime_dht.keeps_store runtime_dht.keeps_publish

lemma runtime_bind_ok: "runtime_ok (runtime_bind i addr k x draws)"
  by (simp add: runtime_ok_def runtime_bind_def links_ok_empty routing_new_ok)

section \<open>The runtime as a state machine\<close>

text \<open>
  What can happen to a runtime: a packet arrives from the transport, a handler runs, or the
  application calls an operation. A handler that panics takes the runtime down: it has no step.
\<close>

inductive runtime_step :: "'hs noise \<Rightarrow> crypto \<Rightarrow> 'hs runtime \<Rightarrow> 'hs runtime \<Rightarrow> bool" for N C where
  rs_arrive: "runtime_step N C r (sort_packet pkt sender r)"
| rs_server: "tick_server now r = Ok r' \<Longrightarrow> runtime_step N C r r'"
| rs_relay: "tick_relay C r = Ok r' \<Longrightarrow> runtime_step N C r r'"
| rs_handshake: "tick_handshake N C unix r = Ok r' \<Longrightarrow> runtime_step N C r r'"
| rs_message: "tick_message C now unix r = Ok r' \<Longrightarrow> runtime_step N C r r'"
| rs_initiator: "runtime_step N C r (fst (enable_session_initiator N px pu r))"
| rs_initiate: "runtime_step N C r (fst (rt_initiate_handshake N C t r))"
| rs_send: "runtime_step N C r (fst (send_message C msg pk r))"
| rs_load: "runtime_step N C r (fst (load_peer_state C d r))"
| rs_join: "join seeds ws r = Some (r', out) \<Longrightarrow> runtime_step N C r r'"
| rs_lookup: "lookup_node t ws r = Some (r', out1) \<Longrightarrow> runtime_step N C r r'"
| rs_find: "find_value key ws r = Some (r', out2) \<Longrightarrow> runtime_step N C r r'"
| rs_store: "store key v ttl ws r = Some (r', out) \<Longrightarrow> runtime_step N C r r'"
| rs_publish: "publish_contact C l a i ttl ws r = Some (r', out) \<Longrightarrow> runtime_step N C r r'"
| rs_server_on: "runtime_step N C r (enable_server r)"
| rs_relay_on: "runtime_step N C r (enable_relay reg r)"
| rs_master: "runtime_step N C r (set_master_pubkey pk r)"
| rs_cert: "runtime_step N C r (set_device_cert cert r)"
| rs_peer: "runtime_step N C r (set_peer_addr pk addr r)"

definition runtime_start :: "'hs runtime \<Rightarrow> bool" where
  "runtime_start r \<longleftrightarrow> (\<exists>i addr k x draws. r = runtime_bind i addr k x draws)"

interpretation runtime: machine runtime_start "runtime_step N C" runtime_ok for N C
proof
  show "runtime_ok r" if "runtime_start r" for r :: "'a runtime"
    using that by (auto simp: runtime_start_def runtime_bind_ok)
next
  fix r r' :: "'a runtime"
  assume "runtime_ok r" and "runtime_step N C r r'"
  from this(2,1) show "runtime_ok r'"
    by cases (auto simp: enable_server_def enable_relay_def set_master_pubkey_def set_device_cert_def
        enable_session_initiator_ok rt_initiate_handshake_ok send_message_ok load_peer_state_ok
        intro: tick_server_ok tick_relay_ok tick_handshake_ok tick_message_ok runtime_lookups_ok)
qed

section \<open>The peer tables over a step\<close>

text \<open>
  Only a handshake writes the tables of the peers, and it puts one entry into each: the address the
  initiator announced, the key of the certificate. An application that loads a file replaces both.
\<close>

definition put_at_most_one :: "('k, 'v) hash_map \<Rightarrow> ('k, 'v) hash_map \<Rightarrow> bool" where
  "put_at_most_one m m' \<longleftrightarrow> map_of m' = map_of m \<or> (\<exists>k v. map_of m' = (map_of m)(k \<mapsto> v))"

definition peers_step :: "'hs runtime \<Rightarrow> 'hs runtime \<Rightarrow> bool" where
  "peers_step r r' \<longleftrightarrow> put_at_most_one (rt_pk_to_addr r) (rt_pk_to_addr r') \<and>
     put_at_most_one (rt_peer_keys r) (rt_peer_keys r') \<and> rt_seen_tags r \<subseteq> rt_seen_tags r'"

definition same_peers :: "'hs runtime \<Rightarrow> 'hs runtime \<Rightarrow> bool" where
  "same_peers r r' \<longleftrightarrow> rt_pk_to_addr r' = rt_pk_to_addr r \<and> rt_peer_keys r' = rt_peer_keys r \<and> rt_seen_tags r' = rt_seen_tags r"

interpretation same_peers: runtime_frame "same_peers a" for a
  by unfold_locales (simp_all add: same_peers_def)

lemma same_peers_refl [simp]: "same_peers r r"
  by (simp add: same_peers_def)

lemma put_at_most_one_simps [simp]:
  "put_at_most_one m m" "put_at_most_one m (AList.update k v m)"
  by (auto simp: put_at_most_one_def update_conv')

lemma same_peers_step: "same_peers r r' \<Longrightarrow> peers_step r r'"
  by (simp add: same_peers_def peers_step_def)

lemma peers_step_same: "same_peers r0 r \<Longrightarrow> peers_step r r' \<Longrightarrow> peers_step r0 r'"
  by (simp add: same_peers_def peers_step_def)

lemma peers_step_frame [simp]:
  "peers_step r (rt_pending_update f r') = peers_step r r'" "peers_step r (confirm_if_required p s r') = peers_step r r'"
  "peers_step r (adopt_session C c pk ses r') = peers_step r r'" "peers_step r (send_packet p a i r') = peers_step r r'"
  by (simp_all add: peers_step_def confirm_if_required_def confirm_def adopt_session_def send_packet_def
      draw_u128_def draw_def Let_def)

lemma learn_key_peers: "same_peers a r \<Longrightarrow> peers_step a (learn_key s ses r)"
  by (auto simp: peers_step_def same_peers_def learn_key_def split: option.split)

lemma try_complete_peers:
  assumes "try_complete N C u pkt sender r = Ok (r', out)"
  shows "if out = None then same_peers r r' else peers_step r r'"
  using assms
  by (auto simp: try_complete_def Let_def same_peers.draws intro!: learn_key_peers
      split: option.splits prod.splits res.splits if_splits)

lemma try_respond_peers:
  assumes "try_respond N C u pkt sender r = Ok (r', out)"
  shows "peers_step r r'"
  using assms
  by (auto simp: try_respond_def Let_def peers_step_def learn_key_def set_peer_addr_def adopt_session_def draw_def draw_u128_def
      split: option.splits prod.splits res.splits if_splits)

lemma tick_handshake_peers:
  assumes t: "tick_handshake N C u r = Ok r'"
  shows "peers_step r r'"
proof (cases "rt_handshake_pile r")
  case (Cons ps rest)
  obtain pkt sender where ps: "ps = (pkt, sender)" by (cases ps)
  from t Cons ps obtain r1 out where 1: "try_complete N C u pkt sender (r\<lparr>rt_handshake_pile := rest\<rparr>) = Ok (r1, out)"
    by (auto simp: tick_handshake_def Let_def res_simps)
  have r: "same_peers r (r\<lparr>rt_handshake_pile := rest\<rparr>)" by simp
  show ?thesis
  proof (cases out)
    case (Some cp)
    then have "peers_step r r1" using try_complete_peers [OF 1] peers_step_same [OF r] by simp
    then show ?thesis using t Cons ps 1 Some by (auto simp: tick_handshake_def Let_def split: option.splits prod.splits)
  next
    case None
    then have r1: "same_peers r r1" using try_complete_peers [OF 1] by (simp add: same_peers_def)
    show ?thesis
    proof (cases "connection_id (payload pkt) \<in> rt_seen_tags r1")
      case True
      then show ?thesis using t Cons ps 1 None same_peers_step [OF r1] by (simp add: tick_handshake_def Let_def)
    next
      case False
      from t Cons ps 1 None False obtain r2 reply where 2: "try_respond N C u pkt sender r1 = Ok (r2, reply)"
        and r': "r' = confirm_if_required pkt sender (case reply of None \<Rightarrow> r2
          | Some (p, addr, peer_pk) \<Rightarrow> send_packet p addr (derive_id C peer_pk) r2)"
        by (auto simp: tick_handshake_def Let_def res_simps)
      have "peers_step r r2" using peers_step_same [OF r1 try_respond_peers [OF 2]] .
      then show ?thesis unfolding r' by (simp split: option.split prod.split)
    qed
  qed
qed (use t in \<open>simp add: tick_handshake_def same_peers_step\<close>)

lemmas same_peers_keeps = same_peers.keeps_server same_peers.keeps_relay same_peers.keeps_message same_peers.keeps_initiator
  same_peers.keeps_initiate same_peers.keeps_send same_peers.keeps_join same_peers.keeps_lookup_node
  same_peers.keeps_find_value same_peers.keeps_store same_peers.keeps_publish

lemma runtime_step_peers:
  assumes "runtime_step N C r r'"
  shows "(\<exists>d. r' = fst (load_peer_state C d r)) \<or> peers_step r r'"
proof -
  have set: "peers_step r (set_peer_addr pk a r)" for pk a
    by (simp add: peers_step_def set_peer_addr_def)
  have flags: "same_peers r (enable_server r)" "same_peers r (enable_relay reg r)" "same_peers r (set_master_pubkey pk r)"
    "same_peers r (set_device_cert cert r)" for reg pk cert
    by (simp_all add: same_peers_def enable_server_def enable_relay_def set_master_pubkey_def set_device_cert_def)
  have sorted: "same_peers r (sort_packet pkt sender r)" for pkt sender by simp
  from assms show ?thesis
    by cases (auto intro: set sorted [THEN same_peers_step] flags [THEN same_peers_step] tick_handshake_peers
        same_peers_keeps [OF same_peers_refl, THEN same_peers_step])
qed

section \<open>What the invariant says of the tables\<close>

lemma runtime_ok_linked:
  assumes "runtime_ok r"
  shows "case map_of (rt_sessions r) c of
      None \<Rightarrow> map_of (rt_conn_to_pk r) c = None
    | Some s \<Rightarrow> is_established s \<and> s_connection_id s = Some c \<and>
        (\<exists>pk cs. map_of (rt_conn_to_pk r) c = Some pk \<and> map_of (rt_pk_to_conn r) pk = Some cs \<and> c \<in> set cs)"
proof -
  have l: "links_ok (rt_sessions r) (rt_conn_to_pk r) (rt_pk_to_conn r)" using assms by (simp add: runtime_ok_def)
  show ?thesis
    using runtime_ok_conn [OF assms, of c] runtime_ok_session [OF assms, of c] links_ok_listed [OF l, of c]
    by (auto simp: session_good_def is_established_def split: option.split)
qed

lemma runtime_ok_established:
  "runtime_ok r \<Longrightarrow> session_established c r \<longleftrightarrow> map_of (rt_conn_to_pk r) c \<noteq> None"
  using runtime_ok_linked [of r c] by (auto simp: session_established_def split: option.splits)

lemma runtime_ok_active:
  assumes "runtime_ok r"
  shows "length (active_conn_ids r) = length (rt_sessions r)"
proof -
  have "hm_ok (rt_sessions r)" using assms by (simp add: runtime_ok_def links_ok_def)
  then have "map_of (rt_sessions r) c = Some x" if "(c, x) \<in> set (rt_sessions r)" for c x
    using that by (simp add: hm_ok_def)
  then have all: "is_established x \<and> map_of (rt_conn_to_pk r) c \<noteq> None" if "(c, x) \<in> set (rt_sessions r)" for c x
    using runtime_ok_linked [OF assms, of c] that by fastforce
  then have "filter (\<lambda>(_, s). is_established s) (rt_sessions r) = rt_sessions r"
    by (auto simp: filter_id_conv)
  moreover have "length (List.map_filter (\<lambda>(conn, _). map_option (Pair conn) (map_of (rt_conn_to_pk r) conn)) xs) = length xs"
    if "set xs \<subseteq> set (rt_sessions r)" for xs
    using that all by (induction xs) (auto simp: List.map_filter_simps split: option.split)
  ultimately show ?thesis by (simp add: active_conn_ids_def)
qed

end
