(* ===== verification/RuntimeMessages.thy ===== *)
theory RuntimeMessages
  imports RuntimeInvariant
begin

text \<open>
  Messages between runtimes: what \<open>send_message\<close> puts on the wire and when it fails, how a relay frame
  reaches the handler of the runtime it is for, and a message from end to end.
\<close>

section \<open>One session sends, the other receives\<close>

lemma session_turn_steps:
  assumes "session_turn C bs rnd i fresh unix (s, t) = ((t', s'), Ok x)"
  obtains pkt where "session_send C rnd i bs s = (s', Ok pkt)" "session_receive C fresh unix pkt t = (t', Ok x)"
proof -
  obtain s1 out where 1: "session_send C rnd i bs s = (s1, out)" by fastforce
  with assms obtain pkt where out: "out = Ok pkt" by (auto simp: session_turn_def split: res.splits) (auto simp: res_simps)
  with 1 assms show thesis
    using that [of pkt] by (auto simp: session_turn_def split: prod.splits)
qed

lemma not_ack_required: "\<not> flags_contains (hflags (header (packet_new 0 i p))) AckRequired"
  by (simp add: flags_contains_bit packet_new_def flags_from_int_def)

lemma session_send_packet:
  "session_send C rnd i bs s = (s', Ok pkt) \<Longrightarrow>
     \<not> flags_contains (hflags (header pkt)) AckRequired \<and> tag (payload pkt) = Message \<and>
     s_connection_id s = Some (connection_id (payload pkt))"
  by (auto simp: session_send_def Let_def res_simps not_ack_required split: option.splits prod.splits)

section \<open>From the wire to the handler\<close>

text \<open>A frame for our own id is unwrapped onto the pile of the inner packet's tag.\<close>

definition frame_for :: "crypto \<Rightarrow> 32 arr \<Rightarrow> packet \<Rightarrow> packet \<Rightarrow> bool" where
  "frame_for C pk inner outer \<longleftrightarrow> tag (payload outer) = RelayFrame \<and>
     data (payload outer) = relay_frame_serialize (relay_frame_new (derive_id C pk) (packet_serialize inner))"

lemma send_packet_frame:
  "\<exists>outer. send_packet inner addr (derive_id C pk) r = (fst (draw_u128 r))\<lparr>rt_out := rt_out r @ [(outer, addr)]\<rparr> \<and>
     frame_for C pk inner outer"
  by (auto simp: send_packet_def draw_u128_def draw_def Let_def frame_for_def)

lemma tick_relay_unwraps:
  assumes "frame_for C pk inner outer" and "rt_master_pubkey r = Some pk" and "rt_relay_fwd r \<noteq> None"
    and "rt_relay_pile r = []" and "tag (payload inner) \<in> {DhtOperation, Handshake, Message}"
  shows "tick_relay C (sort_packet outer sender r) = Ok (confirm_if_required outer sender (sort_packet inner sender r))"
proof -
  obtain fwd where fwd: "rt_relay_fwd r = Some fwd" using assms(3) by blast
  have f: "relay_frame_from_serialized (data (payload outer)) = Ok (relay_frame_new (derive_id C pk) (packet_serialize inner))"
    using assms(1) by (simp add: frame_for_def relay_frame.dec_enc)
  have s: "sort_packet outer sender r = r\<lparr>rt_relay_pile := [(outer, sender)]\<rparr>"
    using assms(1,4) by (simp add: sort_packet_def frame_for_def)
  have "r\<lparr>rt_relay_pile := []\<rparr> = r" using assms(4) by (cases r) simp
  then show ?thesis
    using assms(2,5) by (simp add: s tick_relay_def fwd f relay_frame_new_def)
qed

section \<open>Linked runtimes\<close>

text \<open>
  \<open>half_link r me peer c\<close>: the runtime \<open>r\<close> of \<open>me\<close> takes relay frames and knows \<open>peer\<close> under the one
  connection \<open>c\<close>. Two runtimes are linked when each is half linked to the other and their sessions are
  paired.
\<close>

definition half_link :: "'hs runtime \<Rightarrow> 32 arr \<Rightarrow> 32 arr \<Rightarrow> 16 arr \<Rightarrow> bool" where
  "half_link r me peer c \<longleftrightarrow> rt_master_pubkey r = Some me \<and> rt_relay_fwd r \<noteq> None \<and>
     map_of (rt_pk_to_conn r) peer = Some [c] \<and> map_of (rt_pk_to_addr r) peer \<noteq> None"

definition linked :: "crypto \<Rightarrow> 32 arr \<times> 'hs runtime \<Rightarrow> 32 arr \<times> 'hs runtime \<Rightarrow> 16 arr \<Rightarrow> bool" where
  "linked C A B c \<longleftrightarrow> (case (A, B) of ((ma, a), (mb, b)) \<Rightarrow>
     half_link a ma mb c \<and> half_link b mb ma c \<and>
     (\<exists>s t. map_of (rt_sessions a) c = Some s \<and> map_of (rt_sessions b) c = Some t \<and> paired C s t \<and>
        s_connection_id s = Some c \<and> s_our_master_pubkey s = Some ma \<and> s_our_master_pubkey t = Some mb))"

text \<open>The current ratchet secret of a session.\<close>

definition session_key :: "'hs session \<Rightarrow> 32 arr option" where
  "session_key s = map_option our_dh_priv (s_ratchet s)"

definition session_secret :: "'hs runtime \<Rightarrow> 16 arr \<Rightarrow> 32 arr option" where
  "session_secret r c = Option.bind (map_of (rt_sessions r) c) session_key"

text \<open>
  The way of a message: the sender puts a frame on the wire, the transport brings its payload to the
  receiver from the address \<open>sender\<close> (with a header of its own), and the receiver's next round
  unwraps and reads it.
\<close>

definition exchange ::
    "crypto \<Rightarrow> message \<Rightarrow> 32 arr \<Rightarrow> packet_header \<Rightarrow> socket_addr \<Rightarrow> instant \<Rightarrow> u64 \<Rightarrow> 'hs runtime \<times> 'hs runtime \<Rightarrow>
     ('hs runtime \<times> 'hs runtime) res" where
  "exchange C msg peer hdr sender now unix ab =
     (case ab of (a, b) \<Rightarrow>
      case send_message C msg peer a of (a', out) \<Rightarrow>
      and_then out (\<lambda>_.
      and_then (tick_relay C (sort_packet ((fst (last (rt_out a')))\<lparr>header := hdr\<rparr>) sender b)) (\<lambda>b.
      and_then (tick_message C now unix b) (\<lambda>b. Ok (a', b)))))"

lemma frame_for_header: "frame_for C pk inner outer \<Longrightarrow> frame_for C pk inner (outer\<lparr>header := h\<rparr>)"
  by (simp add: frame_for_def)

text \<open>The values that the next operations will draw.\<close>

definition next_draw :: "'hs runtime \<Rightarrow> nat \<Rightarrow> 32 arr" where
  "next_draw r k = rt_draws r (rt_drawn r + k)"

lemma draw_tag: "draw_u128 r = (r\<lparr>rt_drawn := Suc (rt_drawn r)\<rparr>, from_be (take 16 (bytes_of (next_draw r 0))))"
  by (simp add: draw_u128_def draw_def next_draw_def)

lemma send_message_eq:
  assumes "map_of (rt_pk_to_conn a) peer = Some [c]" and "map_of (rt_pk_to_addr a) peer = Some addr"
    and "map_of (rt_sessions a) c = Some s" and "is_established s"
    and "cipher_encrypt C (arr_of (take 12 (bytes_of (next_draw a 1)))) (message_bytes msg) (next_draw a 0) = Ok (ct, rnd)"
    and "session_send C (arr_of (take 12 (bytes_of (next_draw a 2)))) (from_be (take 16 (bytes_of (next_draw a 3))))
      (inner_of (next_draw a 0) rnd ct) s = (s', Ok pkt)"
  shows "send_message C msg peer a = (send_packet pkt addr (derive_id C peer)
    (a\<lparr>rt_drawn := rt_drawn a + 4, rt_sessions := AList.update c s' (rt_sessions a)\<rparr>), Ok ())"
  using assms
  by (simp add: send_message_def draw_def draw_u128_def message_serialize_bytes Let_def next_draw_def numeral_eq_Suc)

lemma deliver_inner_new:
  assumes "aead_ok C" and "message_ok msg" and "cipher_encrypt C n (message_bytes msg) key = Ok (ct, rnd)"
    and "map_of (rt_received_keys r) (sha256 C (bytes_of pk @ bytes_of key)) = None"
  shows "deliver_inner C now pkt sender (inner_of key rnd ct) pk r = Ok (confirm_if_required pkt sender
    (r\<lparr>rt_received_keys := AList.update (sha256 C (bytes_of pk @ bytes_of key)) now
         (retain (\<lambda>_ t. duration_since now t < DEDUP_WINDOW) (rt_received_keys r)),
       rt_msgs := rt_msgs r @ [(msg, pk)]\<rparr>))"
  using conjunct1 [OF cipher_roundtrip [OF assms(1,3)]] conjunct2 [OF cipher_roundtrip [OF assms(1,3)]] assms(2,4)
  by (simp add: deliver_inner_eq inner_of_def Let_def message.dec_enc)

lemma confirm_frame [simp]:
  "rt_msgs (confirm_if_required p s r) = rt_msgs r" "rt_sessions (confirm_if_required p s r) = rt_sessions r"
  "rt_message_pile (confirm_if_required p s r) = rt_message_pile r" "rt_relay_pile (confirm_if_required p s r) = rt_relay_pile r"
  "rt_received_keys (confirm_if_required p s r) = rt_received_keys r" "rt_pending (confirm_if_required p s r) = rt_pending r"
  "rt_handshake_pile (confirm_if_required p s r) = rt_handshake_pile r" "rt_sess (confirm_if_required p s r) = rt_sess r"
  "rt_out (confirm_if_required p s r) = rt_out r" "rt_seen_tags (confirm_if_required p s r) = rt_seen_tags r"
  "rt_drawn (confirm_if_required p s r) = rt_drawn r" "rt_draws (confirm_if_required p s r) = rt_draws r"
  "rt_master_pubkey (confirm_if_required p s r) = rt_master_pubkey r" "rt_device_cert (confirm_if_required p s r) = rt_device_cert r"
  "rt_relay_fwd (confirm_if_required p s r) = rt_relay_fwd r" "rt_x25519_priv (confirm_if_required p s r) = rt_x25519_priv r"
  "rt_pk_to_conn (confirm_if_required p s r) = rt_pk_to_conn r" "rt_pk_to_addr (confirm_if_required p s r) = rt_pk_to_addr r"
  "rt_conn_to_pk (confirm_if_required p s r) = rt_conn_to_pk r" "rt_address (confirm_if_required p s r) = rt_address r"
  by (simp_all add: confirm_if_required_def confirm_def)

lemma half_link_confirm [simp]: "half_link (confirm_if_required p s r) me peer c = half_link r me peer c"
  by (simp add: half_link_def)

lemma exchange_delivers:
  assumes C: "crypto_ok C" and seal: "seals_all C" and link: "linked C (ma, a) (mb, b) c"
    and msg: "message_ok msg" and piles: "rt_relay_pile b = []" "rt_message_pile b = []"
    and fresh: "map_option (x_pub C) (session_secret b c) \<noteq> Some (x_pub C (next_draw b 0))"
    and new: "map_of (rt_received_keys b) (sha256 C (bytes_of ma @ bytes_of (next_draw a 0))) = None"
  shows "\<exists>a' b'. exchange C msg mb hdr sender now unix (a, b) = Ok (a', b') \<and>
    rt_msgs b' = rt_msgs b @ [(msg, ma)] \<and> rt_msgs a' = rt_msgs a \<and> linked C (mb, b') (ma, a') c \<and>
    (\<exists>outer. rt_out a' = rt_out a @ [(outer, the (map_of (rt_pk_to_addr a) mb))]) \<and> rt_out b' = rt_out b \<and>
    rt_pk_to_addr a' = rt_pk_to_addr a \<and> rt_pk_to_addr b' = rt_pk_to_addr b \<and>
    rt_relay_pile b' = [] \<and> rt_message_pile b' = [] \<and> rt_relay_pile a' = rt_relay_pile a \<and> rt_message_pile a' = rt_message_pile a \<and>
    session_secret b' c = Some (next_draw b 0) \<and> session_secret a' c = session_secret a c \<and>
    rt_received_keys a' = rt_received_keys a \<and> rt_draws a' = rt_draws a \<and> rt_draws b' = rt_draws b \<and>
    rt_drawn a' = rt_drawn a + 5 \<and> rt_drawn b' = rt_drawn b + 1"
proof -
  have aead: "aead_ok C" using C by (simp add: crypto_ok_def)
  from link obtain s t where ha: "half_link a ma mb c" and hb: "half_link b mb ma c"
    and s: "map_of (rt_sessions a) c = Some s" "s_connection_id s = Some c" "s_our_master_pubkey s = Some ma"
    and t: "map_of (rt_sessions b) c = Some t" "s_our_master_pubkey t = Some mb" and p: "paired C s t"
    by (auto simp: linked_def)
  obtain x y where x: "s_ratchet s = Some x" and y: "s_ratchet t = Some y" using p by (auto simp: paired_def)
  have f: "x_pub C (next_draw b 0) \<noteq> x_pub C (our_dh_priv y)" using fresh t(1) y by (auto simp: session_secret_def session_key_def)
  obtain addr where addr: "map_of (rt_pk_to_conn a) mb = Some [c]" "map_of (rt_pk_to_addr a) mb = Some addr"
    using ha by (auto simp: half_link_def)
  let ?rnd = "arr_of (take 12 (bytes_of (next_draw a 1))) :: 12 arr"
  obtain ct where "aead_seal C (next_draw a 0) ?rnd (message_bytes msg) = Some ct" using seal unfolding seals_all_def by blast
  then have ct: "cipher_encrypt C ?rnd (message_bytes msg) (next_draw a 0) = Ok (ct, ?rnd)" by (simp add: cipher_encrypt_def)
  let ?inner = "inner_of (next_draw a 0) ?rnd ct"
  from session_turn_paired [OF C seal p x y s(3) f] obtain s' t' where
    turn: "session_turn C ?inner (arr_of (take 12 (bytes_of (next_draw a 2)))) (from_be (take 16 (bytes_of (next_draw a 3))))
      (next_draw b 0) unix (s, t) = ((t', s'), Ok (?inner, ma))" and p': "paired C t' s'"
    and sec: "session_key t' = Some (next_draw b 0)" "session_key s' = session_key s"
    and m': "s_our_master_pubkey t' = s_our_master_pubkey t" "s_our_master_pubkey s' = s_our_master_pubkey s"
    unfolding session_key_def x by fastforce
  from session_turn_steps [OF turn] obtain pkt where
    send: "session_send C (arr_of (take 12 (bytes_of (next_draw a 2)))) (from_be (take 16 (bytes_of (next_draw a 3)))) ?inner s = (s', Ok pkt)"
    and recv: "session_receive C (next_draw b 0) unix pkt t = (t', Ok (?inner, ma))" by metis
  have pkt: "\<not> flags_contains (hflags (header pkt)) AckRequired" "tag (payload pkt) = Message" "connection_id (payload pkt) = c"
    using session_send_packet [OF send] s(2) by simp_all
  define a1 where "a1 = a\<lparr>rt_drawn := rt_drawn a + 4, rt_sessions := AList.update c s' (rt_sessions a)\<rparr>"
  obtain outer where outer: "send_packet pkt addr (derive_id C mb) a1 = (fst (draw_u128 a1))\<lparr>rt_out := rt_out a1 @ [(outer, addr)]\<rparr>"
    "frame_for C mb pkt outer" using send_packet_frame by blast
  define a2 where "a2 = (fst (draw_u128 a1))\<lparr>rt_out := rt_out a1 @ [(outer, addr)]\<rparr>"
  have sent: "send_message C msg mb a = (a2, Ok ())"
    using send_message_eq [OF addr s(1) _ ct send] x outer(1) by (simp add: is_established_def a1_def a2_def)
  let ?outer = "outer\<lparr>header := hdr\<rparr>"
  define b1 where "b1 = confirm_if_required ?outer sender (sort_packet pkt sender b)"
  have b1: "tick_relay C (sort_packet ?outer sender b) = Ok b1"
    unfolding b1_def using hb piles(1) pkt(2)
    by (intro tick_relay_unwraps [OF frame_for_header [OF outer(2)]]) (simp_all add: half_link_def)
  have b1f: "rt_message_pile b1 = [(pkt, sender)]" "rt_sessions b1 = rt_sessions b"
    "rt_received_keys b1 = rt_received_keys b" "rt_msgs b1 = rt_msgs b" "half_link b1 mb ma c" "rt_out b1 = rt_out b"
    "rt_relay_pile b1 = []" "rt_drawn b1 = rt_drawn b" "rt_draws b1 = rt_draws b"
    "rt_pk_to_addr b1 = rt_pk_to_addr b"
    using hb piles pkt(2) by (simp_all add: b1_def sort_packet_def next_draw_def half_link_def)
  define b2 where "b2 = b1\<lparr>rt_message_pile := [], rt_drawn := Suc (rt_drawn b1), rt_sessions := AList.update c t' (rt_sessions b)\<rparr>"
  have rec: "deliver_inner C now pkt sender ?inner ma b2 = Ok (confirm_if_required pkt sender
    (b2\<lparr>rt_received_keys := AList.update (sha256 C (bytes_of ma @ bytes_of (next_draw a 0))) now
         (retain (\<lambda>_ t. duration_since now t < DEDUP_WINDOW) (rt_received_keys b2)),
       rt_msgs := rt_msgs b2 @ [(msg, ma)]\<rparr>))" (is "_ = Ok (confirm_if_required pkt sender ?b3)")
    using new by (intro deliver_inner_new [OF aead msg ct]) (simp add: b2_def b1f)
  have "tick_message C now unix b1 = deliver_inner C now pkt sender ?inner ma b2"
    using recv t(1) by (simp add: tick_message_def b1f pkt(3) Let_def draw_def b2_def next_draw_def)
  with rec have got: "tick_message C now unix b1 = Ok ?b3"
    using pkt(1) by (simp add: confirm_if_required_def)
  have "exchange C msg mb hdr sender now unix (a, b) = Ok (a2, ?b3)"
    by (simp add: exchange_def sent a2_def [symmetric] b1 got) (simp add: a2_def b1 got)
  moreover have "linked C (mb, ?b3) (ma, a2) c"
  proof -
    have "half_link a2 ma mb c" "half_link ?b3 mb ma c"
      using ha b1f(5) by (simp_all add: half_link_def a2_def a1_def b2_def draw_u128_def draw_def)
    moreover have "map_of (rt_sessions ?b3) c = Some t'" "map_of (rt_sessions a2) c = Some s'"
      by (simp_all add: b2_def a2_def a1_def draw_u128_def draw_def)
    moreover have "s_connection_id t' = Some c"
    proof -
      have "s_connection_id s' = Some c" using send s(2) by (auto simp: session_send_def Let_def split: option.splits prod.splits)
      then show ?thesis using p' by (auto simp: paired_def)
    qed
    ultimately show ?thesis using p' m' s(3) t(2) by (simp add: linked_def)
  qed
  ultimately show ?thesis
    using s(1) sec addr(2) by (auto simp: b2_def a2_def a1_def draw_u128_def draw_def b1f session_secret_def)
qed

section \<open>What goes on the wire\<close>

lemma send_all_out:
  assumes "runtime_ok r"
  shows "\<exists>outs. rt_out (fst (send_all C inner addr (derive_id C pk) conns sent r)) = rt_out r @ map (\<lambda>p. (p, addr)) outs \<and>
    (\<forall>p \<in> set outs. \<exists>i. frame_for C pk i p) \<and>
    (\<forall>b. snd (send_all C inner addr (derive_id C pk) conns sent r) = Ok b \<longrightarrow>
       length outs = length (filter (\<lambda>c. session_established c r) conns) \<and> b = (sent \<or> outs \<noteq> []))"
  using assms
proof (induction conns arbitrary: sent r)
  case Nil
  then show ?case by simp
next
  case (Cons c cs)
  show ?case
  proof (cases "map_of (rt_sessions r) c")
    case None
    then show ?thesis using Cons by (simp add: session_established_def)
  next
    case (Some s)
    have good: "session_good c s" using runtime_ok_session [OF Cons.prems Some] .
    obtain r1 nonce r2 n where d: "draw r = (r1, nonce)" "draw_u128 r1 = (r2, n)" by (metis prod.exhaust)
    have r2: "runtime_ok r2" "rt_sessions r2 = rt_sessions r" "rt_out r2 = rt_out r"
      using Cons.prems d runtime_ok_small(1) [of r] runtime_ok_small(2) [of r1]
      by (auto simp: draw_def draw_u128_def)
    obtain s' out where s': "session_send C (arr_of (take 12 (bytes_of nonce))) n inner s = (s', out)" by fastforce
    have good': "session_good c s'" using session_send_good [OF good] s' by (metis fst_conv)
    let ?r = "r2\<lparr>rt_sessions := AList.update c s' (rt_sessions r2)\<rparr>"
    have ok: "runtime_ok ?r" using r2 Some good' by (intro runtime_ok_put) simp_all
    have e: "is_established s" "is_established s'" using good good' by (simp_all add: session_good_def is_established_def)
    show ?thesis
    proof (cases out)
      case (Ok pkt)
      obtain outer where o: "send_packet pkt addr (derive_id C pk) ?r = (fst (draw_u128 ?r))\<lparr>rt_out := rt_out ?r @ [(outer, addr)]\<rparr>"
        "frame_for C pk pkt outer" using send_packet_frame by blast
      let ?r3 = "send_packet pkt addr (derive_id C pk) ?r"
      have same: "session_established c' ?r3 = session_established c' r" for c'
        using Some e r2 unfolding o(1) by (simp add: session_established_def draw_tag)
      have out3: "rt_out ?r3 = rt_out r @ [(outer, addr)]" unfolding o(1) using r2 by simp
      have ok3: "runtime_ok ?r3" using ok by simp
      from Cons.IH [OF ok3, of True] obtain outs where
        outs: "rt_out (fst (send_all C inner addr (derive_id C pk) cs True ?r3)) = rt_out r @ map (\<lambda>p. (p, addr)) (outer # outs)"
        "\<forall>p \<in> set outs. \<exists>i. frame_for C pk i p"
        "\<forall>b. snd (send_all C inner addr (derive_id C pk) cs True ?r3) = Ok b \<longrightarrow>
           length outs = length (filter (\<lambda>c. session_established c r) cs) \<and> b"
        unfolding same out3 by auto
      have "send_all C inner addr (derive_id C pk) (c # cs) sent r = send_all C inner addr (derive_id C pk) cs True ?r3"
        using Some e d s' Ok by (simp add: Let_def)
      then show ?thesis
        using outs o(2) Some e(1) by (auto simp: session_established_def intro!: exI [of _ "outer # outs"])
    next
      case (Err x)
      then show ?thesis using Some e d s' r2 by (auto simp: Let_def intro!: exI [of _ "[]"])
    next
      case Panic
      then show ?thesis using Some e d s' r2 by (auto simp: Let_def intro!: exI [of _ "[]"])
    qed
  qed
qed

section \<open>Duplicates\<close>

text \<open>What a sequence of decrypted messages does, one after the other.\<close>

fun deliver_all :: "crypto \<Rightarrow> (instant \<times> packet \<times> socket_addr \<times> bytes \<times> 32 arr) list \<Rightarrow> 'hs runtime \<Rightarrow> 'hs runtime res" where
  "deliver_all C [] r = Ok r"
| "deliver_all C ((now, pkt, sender, inner, pk) # es) r = and_then (deliver_inner C now pkt sender inner pk r) (deliver_all C es)"

definition dedup_key :: "crypto \<Rightarrow> 32 arr \<Rightarrow> bytes \<Rightarrow> 32 arr" where
  "dedup_key C pk inner = sha256 C (bytes_of pk @ take 32 inner)"

lemma deliver_inner_dup:
  assumes "map_of (rt_received_keys r) (dedup_key C pk inner) \<noteq> None" and "44 \<le> length inner"
  shows "deliver_inner C now pkt sender inner pk r = Ok (confirm_if_required pkt sender r)"
  using assms by (simp add: deliver_inner_eq dedup_key_def Let_def)

lemma deliver_inner_keeps:
  assumes d: "deliver_inner C now pkt sender inner pk r = Ok r'" and ok: "hm_ok (rt_received_keys r)"
    and k: "map_of (rt_received_keys r) k = Some t" and now: "duration_since now t < DEDUP_WINDOW"
  shows "map_of (rt_received_keys r') k = Some t \<and> hm_ok (rt_received_keys r')"
proof (cases "length inner < 44 \<or> map_of (rt_received_keys r) (dedup_key C pk inner) \<noteq> None")
  case True
  then show ?thesis using d ok k deliver_inner_dup [of r C pk inner now pkt sender]
    by (cases "length inner < 44") (auto simp: deliver_inner_eq)
next
  case False
  let ?R = "retain (\<lambda>_ t. duration_since now t < DEDUP_WINDOW) (rt_received_keys r)"
  have R: "map_of ?R k = Some t" "hm_ok ?R" using k now ok by (simp_all add: map_of_retain)
  have "k \<noteq> dedup_key C pk inner" using False k by auto
  moreover have "rt_received_keys r' = ?R \<or> rt_received_keys r' = AList.update (dedup_key C pk inner) now ?R"
    using d False by (auto simp: deliver_inner_eq dedup_key_def Let_def split: res.splits)
  ultimately show ?thesis using R by auto
qed

lemma deliver_all_keeps:
  "deliver_all C es r = Ok r' \<Longrightarrow> hm_ok (rt_received_keys r) \<Longrightarrow> map_of (rt_received_keys r) k = Some t \<Longrightarrow>
     \<forall>e \<in> set es. duration_since (fst e) t < DEDUP_WINDOW \<Longrightarrow> map_of (rt_received_keys r') k = Some t"
proof (induction es arbitrary: r)
  case (Cons e es)
  obtain now pkt sender inner pk where e: "e = (now, pkt, sender, inner, pk)" by (metis prod.exhaust)
  with Cons.prems(1) obtain r1 where r1: "deliver_inner C now pkt sender inner pk r = Ok r1" "deliver_all C es r1 = Ok r'"
    by (auto simp: res_simps)
  have "map_of (rt_received_keys r1) k = Some t \<and> hm_ok (rt_received_keys r1)"
    using deliver_inner_keeps [OF r1(1) Cons.prems(2,3)] Cons.prems(4) e by simp
  then show ?case using Cons.IH [OF r1(2)] Cons.prems(4) by simp
qed simp

lemma deliver_inner_delivers:
  assumes "deliver_inner C now pkt sender inner pk r = Ok r'" and "rt_msgs r' \<noteq> rt_msgs r"
  shows "44 \<le> length inner \<and> map_of (rt_received_keys r') (dedup_key C pk inner) = Some now \<and>
    (\<exists>msg. rt_msgs r' = rt_msgs r @ [(msg, pk)])"
  using assms
  by (auto simp: deliver_inner_eq dedup_key_def Let_def confirm_if_required_def confirm_def split: if_splits res.splits)

section \<open>Properties\<close>

text \<open>
  C18. What \<open>send_message\<close> does, in every reachable state: without a connection or an address of the
  peer it fails and changes nothing; when it succeeds it has put one relay frame for the peer on the
  wire for each of the peer's established connections, at least one, all to the peer's address; what
  it sends before a failure are such frames too.
\<close>

theorem send_message_outcome:
  assumes "reach runtime_start (runtime_step N C) r" and "send_message C msg pk r = (r', out)"
  shows "case (map_of (rt_pk_to_conn r) pk, map_of (rt_pk_to_addr r) pk) of
     (None, _) \<Rightarrow> r' = r \<and> out = Err (Msg ''no session for peer'')
   | (Some _, None) \<Rightarrow> r' = r \<and> out = Err (Msg ''no address for peer'')
   | (Some conns, Some addr) \<Rightarrow> \<exists>outs. rt_out r' = rt_out r @ map (\<lambda>p. (p, addr)) outs \<and>
       (\<forall>p \<in> set outs. \<exists>i. frame_for C pk i p) \<and>
       (out = Ok () \<longrightarrow> outs \<noteq> [] \<and> length outs = length (filter (\<lambda>c. session_established c r) conns))"
proof (cases "map_of (rt_pk_to_conn r) pk")
  case None
  then show ?thesis using assms(2) by (simp add: send_message_def)
next
  case (Some conns)
  note conns = this
  show ?thesis
  proof (cases "map_of (rt_pk_to_addr r) pk")
    case None
    then show ?thesis using assms(2) conns by (simp add: send_message_def)
  next
    case (Some addr)
    have ok: "runtime_ok r" using runtime.reach_inv [OF assms(1)] .
    let ?r = "r\<lparr>rt_drawn := Suc (Suc (rt_drawn r))\<rparr>"
    let ?rnd = "arr_of (take 12 (bytes_of (next_draw r 1))) :: 12 arr"
    have eq: "send_message C msg pk r =
      (case cipher_encrypt C ?rnd (message_bytes msg) (next_draw r 0) of Err e \<Rightarrow> (?r, Err e) | Panic \<Rightarrow> (?r, Panic)
       | Ok (ct, nonce) \<Rightarrow> (case send_all C (inner_of (next_draw r 0) nonce ct) addr (derive_id C pk) conns False ?r of
           (r, Ok sent) \<Rightarrow> (r, if sent then Ok () else Err (Msg ''no active session for peer''))
         | (r, Err e) \<Rightarrow> (r, Err e) | (r, Panic) \<Rightarrow> (r, Panic)))"
      by (cases "cipher_encrypt C ?rnd (message_bytes msg) (next_draw r 0)")
        (simp_all add: send_message_def conns Some draw_def next_draw_def message_serialize_bytes Let_def split: prod.split)
    show ?thesis
    proof (cases "cipher_encrypt C ?rnd (message_bytes msg) (next_draw r 0)")
      case (Ok cn)
      obtain ct nonce where cn: "cn = (ct, nonce)" by (cases cn)
      obtain r1 res where s: "send_all C (inner_of (next_draw r 0) nonce ct) addr (derive_id C pk) conns False ?r = (r1, res)" by fastforce
      have "runtime_ok ?r" using ok by simp
      from send_all_out [OF this, of C "inner_of (next_draw r 0) nonce ct" addr pk conns False] s obtain outs where outs:
        "rt_out r1 = rt_out r @ map (\<lambda>p. (p, addr)) outs" "\<forall>p \<in> set outs. \<exists>i. frame_for C pk i p"
        "\<forall>b. res = Ok b \<longrightarrow> length outs = length (filter (\<lambda>c. session_established c r) conns) \<and> b = (outs \<noteq> [])"
        by (auto simp: session_established_def)
      have "r' = r1" "out = Ok () \<longrightarrow> res = Ok True"
        using assms(2) eq Ok cn s by (auto split: res.splits if_splits)
      then show ?thesis using outs conns Some by auto
    qed (use assms(2) eq conns Some in auto)
  qed
qed

definition demo_runtime :: "u8 \<Rightarrow> u8 \<Rightarrow> u8 \<Rightarrow> demo_noise_state runtime" where
  "demo_runtime m d base = enable_relay registry_new (set_device_cert (demo_cert m d) (set_master_pubkey (demo_key m)
     (runtime_bind (NodeID (demo_key d)) (V4 zero_arr (ucast d)) None (demo_key d) (\<lambda>k. demo_key (base + of_nat k)))))"

lemma demo_runtime_reach: "reach runtime_start (runtime_step demo_noise demo_crypto) (demo_runtime m d base)"
proof -
  let ?R = "reach runtime_start (runtime_step demo_noise demo_crypto)"
  let ?r = "runtime_bind (NodeID (demo_key d)) (V4 zero_arr (ucast d)) None (demo_key d) (\<lambda>k. demo_key (base + of_nat k)) :: demo_noise_state runtime"
  have "runtime_start ?r" unfolding runtime_start_def by blast
  then have "?R ?r" by (rule reach_init)
  then have "?R (set_master_pubkey (demo_key m) ?r)" by (rule reach_step) (rule rs_master)
  then have "?R (set_device_cert (demo_cert m d) (set_master_pubkey (demo_key m) ?r))" by (rule reach_step) (rule rs_cert)
  then show ?thesis unfolding demo_runtime_def by (rule reach_step) (rule rs_relay_on)
qed

definition demo_message :: message where
  "demo_message = message_new 1 2 [104, 105] None"

theorem send_message_outcome_witness:
  "send_message demo_crypto demo_message (demo_key 2) (demo_runtime 1 1 20) = (demo_runtime 1 1 20, Err (Msg ''no session for peer''))"
proof -
  have "map_of (rt_pk_to_conn (demo_runtime 1 1 20)) (demo_key 2) = None"
    by (simp add: demo_runtime_def enable_relay_def set_device_cert_def set_master_pubkey_def runtime_bind_def)
  moreover obtain r' out where s: "send_message demo_crypto demo_message (demo_key 2) (demo_runtime 1 1 20) = (r', out)" by fastforce
  ultimately show ?thesis using send_message_outcome [OF demo_runtime_reach s] by simp
qed

text \<open>
  C19. A message is delivered once: after it has been delivered, a copy of it from the same sender
  (another packet, another session, another address) is confirmed and dropped, whatever other
  messages came between, as long as these came within the 60 seconds of the window.
\<close>

theorem duplicate_dropped:
  assumes "reach runtime_start (runtime_step N C) r"
    and "deliver_inner C t pkt sender inner pk r = Ok r1" and "rt_msgs r1 \<noteq> rt_msgs r"
    and "deliver_all C es r1 = Ok r2" and "\<forall>e \<in> set es. duration_since (fst e) t < DEDUP_WINDOW"
    and "take 32 inner' = take 32 inner" and "44 \<le> length inner'"
  shows "deliver_inner C now pkt' sender' inner' pk r2 = Ok (confirm_if_required pkt' sender' r2) \<and>
    rt_msgs (confirm_if_required pkt' sender' r2) = rt_msgs r2"
proof -
  have ok: "runtime_ok r" using runtime.reach_inv [OF assms(1)] .
  then have "hm_ok (rt_received_keys r1)"
    using runtime_ok_received_hm [OF deliver_inner_ok [OF ok assms(2)]] by simp
  from deliver_all_keeps [OF assms(4) this _ assms(5)] deliver_inner_delivers [OF assms(2,3)]
  have "map_of (rt_received_keys r2) (dedup_key C pk inner) = Some t" by blast
  then have "map_of (rt_received_keys r2) (dedup_key C pk inner') \<noteq> None" using assms(6) by (simp add: dedup_key_def)
  from deliver_inner_dup [OF this assms(7)] show ?thesis by simp
qed

lemma demo_message_ok: "message_ok demo_message"
  by (simp add: message_ok_def demo_message_def message_new_def utf8_valid_ascii)

theorem duplicate_dropped_witness:
  "\<forall>p sender sender'. \<exists>r1 inner. deliver_inner demo_crypto (Instant 5) (packet_new 0 1 p) sender inner (demo_key 3) (demo_runtime 1 1 20) = Ok r1 \<and>
     rt_msgs r1 = [(demo_message, demo_key 3)] \<and>
     deliver_inner demo_crypto (Instant 6) (packet_new 0 2 p) sender' inner (demo_key 3) r1 = Ok (confirm_if_required (packet_new 0 2 p) sender' r1)"
  (is "\<forall>p sender sender'. ?P p sender sender'")
proof (intro allI)
  fix p sender sender'
  let ?ct = "replicate 16 7 @ message_bytes demo_message"
  have c: "cipher_encrypt demo_crypto zero_arr (message_bytes demo_message) (demo_key 9) = Ok (?ct, zero_arr)"
    by (simp add: cipher_encrypt_def demo_crypto_def)
  let ?inner = "inner_of (demo_key 9) zero_arr ?ct"
  have m: "rt_msgs (demo_runtime 1 1 20) = []" "rt_received_keys (demo_runtime 1 1 20) = []"
    by (simp_all add: demo_runtime_def enable_relay_def set_device_cert_def set_master_pubkey_def runtime_bind_def)
  have "aead_ok demo_crypto" using demo_crypto_ok by (simp add: crypto_ok_def)
  from deliver_inner_new [OF this demo_message_ok c, of "demo_runtime 1 1 20" "demo_key 3" "Instant 5" "packet_new 0 1 p" sender]
  obtain r1 where r1: "deliver_inner demo_crypto (Instant 5) (packet_new 0 1 p) sender ?inner (demo_key 3) (demo_runtime 1 1 20) = Ok r1"
    "rt_msgs r1 = [(demo_message, demo_key 3)]" by (auto simp: m)
  have 3: "rt_msgs r1 \<noteq> rt_msgs (demo_runtime 1 1 20)" using r1(2) m by simp
  have 4: "deliver_all demo_crypto [] r1 = Ok r1" "44 \<le> length ?inner" by (simp_all add: inner_of_def)
  have "\<forall>e \<in> set []. duration_since (fst e) (Instant 5) < DEDUP_WINDOW" by simp
  from conjunct1 [OF duplicate_dropped [OF demo_runtime_reach r1(1) 3 4(1) this refl 4(2)]] r1 show "?P p sender sender'" by blast
qed

end
