(* ===== verification/RuntimeConnect.thy ===== *)
theory RuntimeConnect
  imports RuntimeMessages
begin

text \<open>
  The handshake between two runtimes, from end to end: contact, relay frame, reply and completion
  leave the two linked, so that the messages of RuntimeMessages.thy flow; and what the same steps let
  a peer do that holds no certificate of the master key it claims. At the end, the invariant of every
  reachable state, with the connected runtimes as an instance.
\<close>

section \<open>The initiator's side\<close>

definition next_tag :: "'hs runtime \<Rightarrow> 16 arr" where
  "next_tag r = arr_of (take 16 (bytes_of (next_draw r 0)))"

text \<open>The packets of a handshake.\<close>

definition handshake_of :: "packet \<Rightarrow> 16 arr \<Rightarrow> bytes \<Rightarrow> bool" where
  "handshake_of pkt t m \<longleftrightarrow> tag (payload pkt) = Handshake \<and> connection_id (payload pkt) = t \<and> data (payload pkt) = m \<and>
     \<not> flags_contains (hflags (header pkt)) AckRequired"

lemma handshake_packet_of: "handshake_of (handshake_packet i t m) t m"
  by (simp add: handshake_of_def handshake_packet_def not_ack_required)

lemma initiates:
  assumes "rt_master_pubkey a = Some ma" and "rt_device_cert a = Some ca" and "map_of (rt_pk_to_addr a) mb = Some addr"
    and "new_initiator N (rt_x25519_priv a) px ca ma (UserID mb) = Ok s0"
    and "initiate_handshake N C (next_draw a 1) (next_draw a 2) (rt_address a) s0 = (s1, Ok m1)"
  shows "\<exists>a1 inner outer. enable_session_initiator N px (UserID mb) a = (a1, Ok (next_tag a)) \<and>
    rt_initiate_handshake N C (next_tag a) a1 =
      (a\<lparr>rt_pending := AList.update (next_tag a) (s1, Some mb) (rt_pending a), rt_drawn := rt_drawn a + 5,
         rt_out := rt_out a @ [(outer, addr)]\<rparr>, Ok ()) \<and>
    frame_for C mb inner outer \<and> handshake_of inner (next_tag a) m1"
proof -
  let ?a1 = "a\<lparr>rt_drawn := Suc (rt_drawn a), rt_pending := AList.update (next_tag a) (s0, Some mb) (rt_pending a)\<rparr>"
  have e: "enable_session_initiator N px (UserID mb) a = (?a1, Ok (next_tag a))"
    using assms(1,2,4)
    by (simp add: enable_session_initiator_def draw_tag Let_def next_tag_def be_bytes_from_be)
  let ?a2 = "a\<lparr>rt_pending := AList.update (next_tag a) (s1, Some mb) (rt_pending a), rt_drawn := rt_drawn a + 4\<rparr>"
  define inner where "inner = handshake_packet (from_be (take 16 (bytes_of (next_draw a 3)))) (next_tag a) m1"
  obtain outer where o: "send_packet inner addr (derive_id C mb) ?a2 = (fst (draw_u128 ?a2))\<lparr>rt_out := rt_out ?a2 @ [(outer, addr)]\<rparr>"
    "frame_for C mb inner outer" using send_packet_frame by blast
  have "rt_initiate_handshake N C (next_tag a) ?a1 = (send_packet inner addr (derive_id C mb) ?a2, Ok ())"
    using assms(3,5) by (simp add: rt_initiate_handshake_def draw_def draw_tag next_draw_def Let_def inner_def numeral_eq_Suc)
  also have "send_packet inner addr (derive_id C mb) ?a2 =
      a\<lparr>rt_pending := AList.update (next_tag a) (s1, Some mb) (rt_pending a), rt_drawn := rt_drawn a + 5,
         rt_out := rt_out a @ [(outer, addr)]\<rparr>"
    unfolding o(1) by (simp add: draw_tag numeral_eq_Suc)
  finally show ?thesis using e o(2) handshake_packet_of [of _ "next_tag a" m1] unfolding inner_def by blast
qed

section \<open>The responder's side\<close>

text \<open>A runtime that opens no session itself: \<open>try_complete\<close> leaves such a packet alone.\<close>

lemma responds:
  assumes r: "rt_handshake_pile b = [(inner, sender)]" and h: "handshake_of inner t m1"
    and new: "map_of (rt_pending b) t = None" "t \<notin> rt_seen_tags b"
    and s: "spawn_responder N b = Ok s0" "accept_handshake N C m1 s0 = (s1, Ok ())"
    and peer: "s_peer_master_pubkey s1 = Some ma" "s_peer_addr s1 = Some addr"
    and rep: "reply_handshake N C (next_draw b 0) (next_draw b 1) u s1 = (s2, Ok m2)"
    and s2: "s_connection_id s2 = Some c" "s_peer_cert s2 = Some ca"
    and me: "rt_master_pubkey b = Some mb" and sn: "safety_number C mb ma s2 = Some n"
  shows "\<exists>b' inner2 outer2. tick_handshake N C u b = Ok b' \<and> frame_for C ma inner2 outer2 \<and> handshake_of inner2 t m2 \<and>
    rt_sessions b' = AList.update c s2 (rt_sessions b) \<and> rt_conn_to_pk b' = AList.update c ma (rt_conn_to_pk b) \<and>
    rt_pk_to_conn b' = push_conn ma c (rt_pk_to_conn b) \<and> rt_pk_to_addr b' = AList.update ma addr (rt_pk_to_addr b) \<and>
    rt_sess b' = rt_sess b @ [(ma, n)] \<and> rt_out b' = rt_out b @ [(outer2, addr)] \<and>
    rt_peer_keys b' = AList.update sender (device_ed25519_pubkey ca) (rt_peer_keys b) \<and>
    rt_drawn b' = rt_drawn b + 4 \<and> rt_draws b' = rt_draws b \<and> rt_master_pubkey b' = Some mb \<and>
    rt_relay_fwd b' = rt_relay_fwd b \<and> rt_relay_pile b' = rt_relay_pile b \<and> rt_handshake_pile b' = [] \<and>
    rt_message_pile b' = rt_message_pile b \<and> rt_received_keys b' = rt_received_keys b \<and> rt_msgs b' = rt_msgs b"
proof -
  let ?b = "b\<lparr>rt_handshake_pile := []\<rparr>"
  let ?r1 = "set_peer_addr ma addr ?b"
  let ?ra = "?r1\<lparr>rt_drawn := Suc (rt_drawn b)\<rparr>" and ?r2 = "?r1\<lparr>rt_drawn := Suc (Suc (rt_drawn b))\<rparr>"
  let ?r3 = "?r1\<lparr>rt_drawn := Suc (Suc (Suc (rt_drawn b)))\<rparr>"
  define inner2 where "inner2 = handshake_packet (from_be (take 16 (bytes_of (next_draw b 2)))) t m2"
  have d: "draw ?r1 = (?ra, next_draw b 0)" "draw ?ra = (?r2, next_draw b 1)"
    "draw_u128 ?r2 = (?r3, from_be (take 16 (bytes_of (next_draw b 2))))"
    by (simp_all add: draw_def draw_u128_def next_draw_def set_peer_addr_def numeral_eq_Suc)
  have hi: "connection_id (payload inner) = t" "data (payload inner) = m1" using h by (simp_all add: handshake_of_def)
  have sp: "spawn_responder N ?b = Ok s0" using s(1) by (simp add: spawn_responder_def)
  have p1: "(case s_peer_master_pubkey s1 of None \<Rightarrow> zero_arr | Some pk \<Rightarrow> pk) = ma" using peer by simp
  have p2: "(case s_peer_addr s1 of None \<Rightarrow> ?b | Some addr \<Rightarrow> set_peer_addr ma addr ?b) = ?r1" using peer by simp
  define r5 where "r5 = (adopt_session C c ma s2 (learn_key sender s2 ?r3))\<lparr>rt_seen_tags := insert t (rt_seen_tags ?r3)\<rparr>"
  have resp: "try_respond N C u inner sender ?b = Ok (r5, Some (inner2, addr, ma))"
    unfolding try_respond_eq [OF sp s(2) [folded hi(2)] p1 p2 d rep]
    using s2(1) by (simp add: Let_def hi(1) r5_def inner2_def set_peer_addr_def)
  obtain outer2 where o: "send_packet inner2 addr (derive_id C ma) r5 = (fst (draw_u128 r5))\<lparr>rt_out := rt_out r5 @ [(outer2, addr)]\<rparr>"
    "frame_for C ma inner2 outer2" using send_packet_frame by blast
  have "try_complete N C u inner sender ?b = Ok (?b, None)" using new(1) by (simp add: try_complete_def hi)
  then have "tick_handshake N C u b = Ok (send_packet inner2 addr (derive_id C ma) r5)"
    using resp r new(2) h by (simp add: tick_handshake_def Let_def hi handshake_of_def confirm_if_required_def)
  moreover have "handshake_of inner2 t m2" by (simp add: inner2_def handshake_packet_of)
  ultimately show ?thesis
    using o s2(2) me sn
    by (auto simp: draw_tag r5_def adopt_session_def learn_key_def Let_def set_peer_addr_def)
qed

section \<open>The initiator completes\<close>

lemma completes:
  assumes r: "rt_handshake_pile a = [(inner, sender)]" and h: "handshake_of inner t m2"
    and pend: "map_of (rt_pending a) t = Some (s1, Some mb)" and init: "is_initiator s1"
    and fin: "complete_handshake N C (next_draw a 0) u m2 s1 = (s2, Ok ())"
    and s2: "s_connection_id s2 = Some c" "s_peer_cert s2 = Some cb"
    and me: "rt_master_pubkey a = Some ma" and sn: "safety_number C ma mb s2 = Some n"
  shows "\<exists>a'. tick_handshake N C u a = Ok a' \<and>
    rt_sessions a' = AList.update c s2 (rt_sessions a) \<and> rt_conn_to_pk a' = AList.update c mb (rt_conn_to_pk a) \<and>
    rt_pk_to_conn a' = push_conn mb c (rt_pk_to_conn a) \<and> rt_pk_to_addr a' = rt_pk_to_addr a \<and>
    rt_sess a' = rt_sess a @ [(mb, n)] \<and> rt_out a' = rt_out a \<and> map_of (rt_pending a') t = None \<and>
    rt_peer_keys a' = AList.update sender (device_ed25519_pubkey cb) (rt_peer_keys a) \<and>
    rt_drawn a' = rt_drawn a + 1 \<and> rt_draws a' = rt_draws a \<and> rt_master_pubkey a' = Some ma \<and>
    rt_relay_fwd a' = rt_relay_fwd a \<and> rt_relay_pile a' = rt_relay_pile a \<and> rt_handshake_pile a' = [] \<and>
    rt_message_pile a' = rt_message_pile a \<and> rt_received_keys a' = rt_received_keys a \<and> rt_msgs a' = rt_msgs a"
proof -
  let ?a = "a\<lparr>rt_handshake_pile := []\<rparr>"
  have hi: "connection_id (payload inner) = t" "data (payload inner) = m2" using h by (simp_all add: handshake_of_def)
  define r1 where "r1 = learn_key sender s2 (?a\<lparr>rt_drawn := Suc (rt_drawn a), rt_pending := AList.update t (s2, Some mb) (rt_pending a)\<rparr>)"
  have "try_complete N C u inner sender ?a = Ok (r1, Some (c, mb))"
    using pend init fin s2(1) by (simp add: try_complete_def hi draw_def next_draw_def Let_def r1_def)
  moreover have p: "map_of (rt_pending r1) t = Some (s2, Some mb)" by (simp add: r1_def learn_key_def s2(2))
  ultimately have "tick_handshake N C u a = Ok (adopt_session C c mb s2 (r1\<lparr>rt_pending := AList.delete t (rt_pending r1)\<rparr>))"
    using r h by (simp add: tick_handshake_def Let_def hi handshake_of_def confirm_if_required_def)
  then show ?thesis
    using me sn s2(2) by (simp add: adopt_session_def r1_def learn_key_def Let_def)
qed

section \<open>Both sides\<close>

text \<open>
  The way of a contact: the initiator's two calls, its frame brought to the responder from the address
  \<open>sa\<close>, the responder's round, its frame brought back from \<open>sb\<close>, and the initiator's round. The headers
  \<open>h1\<close> and \<open>h2\<close> are what the transport made of them.
\<close>

definition connect ::
    "'hs noise \<Rightarrow> crypto \<Rightarrow> 32 arr \<Rightarrow> 32 arr \<Rightarrow> packet_header \<times> packet_header \<Rightarrow> socket_addr \<times> socket_addr \<Rightarrow> u64 \<Rightarrow>
     'hs runtime \<times> 'hs runtime \<Rightarrow> ('hs runtime \<times> 'hs runtime) res" where
  "connect N C px mb hs ss u ab =
     (case ab of (a, b) \<Rightarrow>
      case enable_session_initiator N px (UserID mb) a of (a, out) \<Rightarrow>
      and_then out (\<lambda>t. case rt_initiate_handshake N C t a of (a, out) \<Rightarrow>
      and_then out (\<lambda>_.
      and_then (tick_relay C (sort_packet ((fst (last (rt_out a)))\<lparr>header := fst hs\<rparr>) (fst ss) b)) (\<lambda>b.
      and_then (tick_handshake N C u b) (\<lambda>b.
      and_then (tick_relay C (sort_packet ((fst (last (rt_out b)))\<lparr>header := snd hs\<rparr>) (snd ss) a)) (\<lambda>a.
      and_then (tick_handshake N C u a) (\<lambda>a. Ok (a, b))))))))"

text \<open>What a runtime needs to take part: an identity, a certificate for its key, no work in its piles.\<close>

definition ready :: "crypto \<Rightarrow> 'hs runtime \<Rightarrow> 32 arr \<Rightarrow> device_cert \<Rightarrow> bool" where
  "ready C r me cert \<longleftrightarrow> rt_master_pubkey r = Some me \<and> rt_device_cert r = Some cert \<and> cert_ok C cert \<and>
     device_x25519_pubkey cert = x_pub C (rt_x25519_priv r) \<and> rt_relay_fwd r \<noteq> None \<and>
     rt_relay_pile r = [] \<and> rt_handshake_pile r = [] \<and> rt_message_pile r = []"

lemma safety_number_symmetric:
  assumes "s_handshake_hash t = s_handshake_hash s"
  shows "safety_number C a b t = safety_number C b a s"
  using assms by (cases a b rule: linorder_cases) (auto simp: safety_number_def Let_def split: option.split)

lemma confirm_acks: "\<exists>acks. confirm_if_required p sender r = r\<lparr>rt_acks := acks\<rparr>"
proof (cases "flags_contains (hflags (header p)) AckRequired")
  case False
  then show ?thesis by (auto simp: confirm_if_required_def intro!: exI [of _ "rt_acks r"])
qed (auto simp: confirm_if_required_def confirm_def)

lemma tick_relay_handshake:
  assumes "frame_for C pk inner outer" and "handshake_of inner t m" and "rt_master_pubkey r = Some pk"
    and "rt_relay_fwd r \<noteq> None" and "rt_relay_pile r = []" and "rt_handshake_pile r = []"
  shows "\<exists>r'. tick_relay C (sort_packet (outer\<lparr>header := h\<rparr>) sender r) = Ok r' \<and> rt_handshake_pile r' = [(inner, sender)] \<and>
    (\<exists>acks. r' = r\<lparr>rt_handshake_pile := [(inner, sender)], rt_acks := acks\<rparr>)"
proof -
  have i: "tag (payload inner) = Handshake" using assms(2) by (simp add: handshake_of_def)
  have "tick_relay C (sort_packet (outer\<lparr>header := h\<rparr>) sender r) =
      Ok (confirm_if_required (outer\<lparr>header := h\<rparr>) sender (sort_packet inner sender r))"
    using assms i by (intro tick_relay_unwraps [OF frame_for_header [OF assms(1)]]) simp_all
  moreover have "sort_packet inner sender r = r\<lparr>rt_handshake_pile := [(inner, sender)]\<rparr>"
    using i assms(6) by (simp add: sort_packet_def)
  moreover obtain acks where "confirm_if_required (outer\<lparr>header := h\<rparr>) sender (r\<lparr>rt_handshake_pile := [(inner, sender)]\<rparr>) =
      (r\<lparr>rt_handshake_pile := [(inner, sender)]\<rparr>)\<lparr>rt_acks := acks\<rparr>"
    using confirm_acks by metis
  ultimately show ?thesis by auto
qed

lemma connect_links:
  assumes noise: "noise_ok N C" and C: "crypto_ok C"
    and a: "ready C a ma ca" and b: "ready C b mb cb" and cb: "cert_verify C cb (UserID mb)"
    and addr: "map_of (rt_pk_to_addr a) mb \<noteq> None" and fresh: "x_pub C (next_draw a 5) \<noteq> x_pub C (next_draw a 1)"
    and new: "map_of (rt_pk_to_conn a) mb = None" "map_of (rt_pk_to_conn b) ma = None"
    and t: "map_of (rt_pending b) (next_tag a) = None" "next_tag a \<notin> rt_seen_tags b"
  shows "\<exists>a' b' c n. connect N C (x_pub C (rt_x25519_priv b)) mb hs ss u (a, b) = Ok (a', b') \<and>
    linked C (ma, a') (mb, b') c \<and>
    rt_sess a' = rt_sess a @ [(mb, n)] \<and> rt_sess b' = rt_sess b @ [(ma, n)] \<and>
    map_of (rt_peer_keys a') (snd ss) = Some (device_ed25519_pubkey cb) \<and>
    map_of (rt_peer_keys b') (fst ss) = Some (device_ed25519_pubkey ca) \<and>
    map_of (rt_pk_to_addr b') ma = Some (canon_addr (rt_address a)) \<and>
    session_secret b' c = Some (next_draw b 0) \<and> session_secret a' c = Some (next_draw a 5) \<and>
    rt_drawn a' = rt_drawn a + 6 \<and> rt_draws a' = rt_draws a \<and> rt_drawn b' = rt_drawn b + 4 \<and> rt_draws b' = rt_draws b \<and>
    rt_received_keys a' = rt_received_keys a \<and> rt_received_keys b' = rt_received_keys b \<and>
    rt_relay_pile a' = [] \<and> rt_message_pile a' = [] \<and> rt_relay_pile b' = [] \<and> rt_message_pile b' = [] \<and>
    rt_msgs a' = rt_msgs a \<and> rt_msgs b' = rt_msgs b"
proof -
  obtain addr where addr: "map_of (rt_pk_to_addr a) mb = Some addr" using addr by blast
  have ca: "cert_ok C ca" "device_x25519_pubkey ca = x_pub C (rt_x25519_priv a)"
    and cb': "cert_ok C cb" "device_x25519_pubkey cb = x_pub C (rt_x25519_priv b)"
    using a b by (simp_all add: ready_def)
  from establish_paired [OF noise C ca cb' cb fresh, of ma mb "next_draw a 2" "next_draw b 0" "next_draw b 1" "rt_address a" u]
  obtain si0 sr0 si sr where s0: "new_initiator N (rt_x25519_priv a) (x_pub C (rt_x25519_priv b)) ca ma (UserID mb) = Ok si0"
    "new_responder N (rt_x25519_priv b) cb mb = Ok sr0"
    and est: "establish N C (next_draw a 1, next_draw a 2, next_draw a 5) (next_draw b 0, next_draw b 1) (rt_address a) u (si0, sr0) = Ok (si, sr)"
    and p: "paired C si sr" and sec: "session_key sr = Some (next_draw b 0)" "session_key si = Some (next_draw a 5)"
    and hash: "s_handshake_hash sr = s_handshake_hash si" and ms: "s_our_master_pubkey si = Some ma" "s_our_master_pubkey sr = Some mb"
    and certs: "s_peer_cert si = Some cb" "s_peer_cert sr = Some ca" and pm: "s_peer_master_pubkey sr = Some ma"
    and pa: "s_peer_addr sr = Some (canon_addr (rt_address a))"
    unfolding session_key_def by blast
  obtain c where c: "s_connection_id si = Some c" "s_connection_id sr = Some c" using p by (auto simp: paired_def)
  from establish_steps [OF est] obtain si1 m1 sr1 m2 where
    st: "initiate_handshake N C (next_draw a 1) (next_draw a 2) (rt_address a) si0 = (si1, Ok m1)"
      "accept_handshake N C m1 sr0 = (sr1, Ok ())" "reply_handshake N C (next_draw b 0) (next_draw b 1) u sr1 = (sr, Ok m2)"
      "complete_handshake N C (next_draw a 5) u m2 si1 = (si, Ok ())" by metis
  have keep: "s_peer_master_pubkey sr1 = Some ma" "s_peer_addr sr1 = Some (canon_addr (rt_address a))"
    using st(3) pm pa by (auto simp: reply_handshake_def Let_def split: option.splits res.splits prod.splits)
  have init: "is_initiator si1"
    using st(1) by (auto simp: initiate_handshake_def is_initiator_def Let_def split: option.splits prod.splits)
  have "s_handshake_hash si \<noteq> None"
    using st(4) by (auto simp: complete_handshake_def Let_def split: option.splits res.splits prod.splits)
  then obtain n where n: "safety_number C ma mb si = Some n" by (cases "ma < mb") (auto simp: safety_number_def Let_def)
  have n': "safety_number C mb ma sr = Some n" using safety_number_symmetric [OF hash] n by metis
  have "rt_master_pubkey a = Some ma" "rt_device_cert a = Some ca" using a by (simp_all add: ready_def)
  from initiates [OF this addr s0(1) st(1)] obtain a1 i1 o1 where
    1: "enable_session_initiator N (x_pub C (rt_x25519_priv b)) (UserID mb) a = (a1, Ok (next_tag a))"
    and 2: "rt_initiate_handshake N C (next_tag a) a1 =
      (a\<lparr>rt_pending := AList.update (next_tag a) (si1, Some mb) (rt_pending a), rt_drawn := rt_drawn a + 5,
         rt_out := rt_out a @ [(o1, addr)]\<rparr>, Ok ())" (is "_ = (?a2, _)")
    and f1: "frame_for C mb i1 o1" "handshake_of i1 (next_tag a) m1" by blast
  have rb: "rt_master_pubkey b = Some mb" "rt_relay_fwd b \<noteq> None" "rt_relay_pile b = []" "rt_handshake_pile b = []"
    using b by (simp_all add: ready_def)
  from tick_relay_handshake [OF f1 rb, of "fst hs" "fst ss"] obtain b1 acks where
    3: "tick_relay C (sort_packet (o1\<lparr>header := fst hs\<rparr>) (fst ss) b) = Ok b1"
    and b1: "b1 = b\<lparr>rt_handshake_pile := [(i1, fst ss)], rt_acks := acks\<rparr>" by blast
  have sp: "spawn_responder N b1 = Ok sr0" using b s0(2) by (simp add: b1 spawn_responder_def ready_def)
  have nd: "next_draw b1 k = next_draw b k" for k by (simp add: b1 next_draw_def)
  have "\<exists>b2 i2 o2. tick_handshake N C u b1 = Ok b2 \<and> frame_for C ma i2 o2 \<and> handshake_of i2 (next_tag a) m2 \<and>
    rt_sessions b2 = AList.update c sr (rt_sessions b1) \<and> rt_conn_to_pk b2 = AList.update c ma (rt_conn_to_pk b1) \<and>
    rt_pk_to_conn b2 = push_conn ma c (rt_pk_to_conn b1) \<and> rt_pk_to_addr b2 = AList.update ma (canon_addr (rt_address a)) (rt_pk_to_addr b1) \<and>
    rt_sess b2 = rt_sess b1 @ [(ma, n)] \<and> rt_out b2 = rt_out b1 @ [(o2, canon_addr (rt_address a))] \<and>
    rt_peer_keys b2 = AList.update (fst ss) (device_ed25519_pubkey ca) (rt_peer_keys b1) \<and>
    rt_drawn b2 = rt_drawn b1 + 4 \<and> rt_draws b2 = rt_draws b1 \<and> rt_master_pubkey b2 = Some mb \<and>
    rt_relay_fwd b2 = rt_relay_fwd b1 \<and> rt_relay_pile b2 = rt_relay_pile b1 \<and> rt_handshake_pile b2 = [] \<and>
    rt_message_pile b2 = rt_message_pile b1 \<and> rt_received_keys b2 = rt_received_keys b1 \<and> rt_msgs b2 = rt_msgs b1"
    using st(3) t rb(1)
    by (intro responds [OF _ f1(2) _ _ sp st(2) keep _ c(2) certs(2) _ n']) (simp_all add: b1 nd [unfolded b1])
  then obtain b2 i2 o2 where 4: "tick_handshake N C u b1 = Ok b2" and f2: "frame_for C ma i2 o2" "handshake_of i2 (next_tag a) m2"
    and b2: "rt_sessions b2 = AList.update c sr (rt_sessions b1)" "rt_conn_to_pk b2 = AList.update c ma (rt_conn_to_pk b1)"
    "rt_pk_to_conn b2 = push_conn ma c (rt_pk_to_conn b1)" "rt_pk_to_addr b2 = AList.update ma (canon_addr (rt_address a)) (rt_pk_to_addr b1)"
    "rt_sess b2 = rt_sess b1 @ [(ma, n)]" "rt_out b2 = rt_out b1 @ [(o2, canon_addr (rt_address a))]"
    "rt_peer_keys b2 = AList.update (fst ss) (device_ed25519_pubkey ca) (rt_peer_keys b1)"
    "rt_drawn b2 = rt_drawn b1 + 4" "rt_draws b2 = rt_draws b1" "rt_master_pubkey b2 = Some mb"
    "rt_relay_fwd b2 = rt_relay_fwd b1" "rt_relay_pile b2 = rt_relay_pile b1"
    "rt_message_pile b2 = rt_message_pile b1" "rt_received_keys b2 = rt_received_keys b1" "rt_msgs b2 = rt_msgs b1" by blast
  have ra: "rt_master_pubkey ?a2 = Some ma" "rt_relay_fwd ?a2 \<noteq> None" "rt_relay_pile ?a2 = []" "rt_handshake_pile ?a2 = []"
    using a by (simp_all add: ready_def)
  from tick_relay_handshake [OF f2 ra, of "snd hs" "snd ss"] obtain a3 acks' where
    5: "tick_relay C (sort_packet (o2\<lparr>header := snd hs\<rparr>) (snd ss) ?a2) = Ok a3"
    and a3: "a3 = ?a2\<lparr>rt_handshake_pile := [(i2, snd ss)], rt_acks := acks'\<rparr>" by blast
  have "next_draw a3 0 = next_draw a 5" by (simp add: a3 next_draw_def)
  then have "complete_handshake N C (next_draw a3 0) u m2 si1 = (si, Ok ())" using st(4) by simp
  then obtain a4 where 6: "tick_handshake N C u a3 = Ok a4"
    and a4: "rt_sessions a4 = AList.update c si (rt_sessions a3)" "rt_pk_to_conn a4 = push_conn mb c (rt_pk_to_conn a3)"
      "rt_pk_to_addr a4 = rt_pk_to_addr a3" "rt_sess a4 = rt_sess a3 @ [(mb, n)]"
      "rt_peer_keys a4 = AList.update (snd ss) (device_ed25519_pubkey cb) (rt_peer_keys a3)"
      "rt_drawn a4 = rt_drawn a3 + 1" "rt_draws a4 = rt_draws a3" "rt_master_pubkey a4 = Some ma"
      "rt_relay_fwd a4 = rt_relay_fwd a3" "rt_relay_pile a4 = rt_relay_pile a3" "rt_message_pile a4 = rt_message_pile a3"
      "rt_received_keys a4 = rt_received_keys a3" "rt_msgs a4 = rt_msgs a3"
    using completes [of a3 i2 "snd ss" "next_tag a" m2 si1 mb N C u si c cb ma n] f2(2) init c(1) certs(1) n ra(1)
    by (auto simp: a3)
  have run: "connect N C (x_pub C (rt_x25519_priv b)) mb hs ss u (a, b) = Ok (a4, b2)"
    using 1 2 3 4 5 6 b2(6) by (simp add: connect_def)
  have "linked C (ma, a4) (mb, b2) c"
    using p ms c(1) a b addr new a4 b2
    by (auto simp: linked_def half_link_def a3 b1 push_conn_def ready_def)
  then show ?thesis
    using run a b a4 b2 sec by (auto simp: a3 b1 session_secret_def ready_def)
qed

text \<open>Every step of it is a step of the two runtimes.\<close>

lemma enable_step: "enable_session_initiator N px pu r = (r', out) \<Longrightarrow> runtime_step N C r r'"
  by (metis fst_conv rs_initiator)

lemma initiate_step: "rt_initiate_handshake N C t r = (r', out) \<Longrightarrow> runtime_step N C r r'"
  by (metis fst_conv rs_initiate)

lemma connect_reach:
  assumes "connect N C px mb hs ss u (a, b) = Ok (a', b')"
    and "reach runtime_start (runtime_step N C) a" and "reach runtime_start (runtime_step N C) b"
  shows "reach runtime_start (runtime_step N C) a' \<and> reach runtime_start (runtime_step N C) b'"
proof -
  obtain a1 o1 where 1: "enable_session_initiator N px (UserID mb) a = (a1, o1)" by fastforce
  with assms(1) obtain t where t: "o1 = Ok t" by (auto simp: connect_def res_simps)
  obtain a2 o2 where 2: "rt_initiate_handshake N C t a1 = (a2, o2)" by fastforce
  from assms(1) 1 t 2 obtain b1 b2 a3 where
    3: "tick_relay C (sort_packet ((fst (last (rt_out a2)))\<lparr>header := fst hs\<rparr>) (fst ss) b) = Ok b1"
    "tick_handshake N C u b1 = Ok b'"
    "tick_relay C (sort_packet ((fst (last (rt_out b')))\<lparr>header := snd hs\<rparr>) (snd ss) a2) = Ok a3"
    "tick_handshake N C u a3 = Ok a'" by (auto simp: connect_def res_simps)
  let ?R = "reach runtime_start (runtime_step N C)"
  have "?R (sort_packet ((fst (last (rt_out a2)))\<lparr>header := fst hs\<rparr>) (fst ss) b)" using assms(3) by (rule reach_step) (rule rs_arrive)
  then have "?R b1" by (rule reach_step) (rule rs_relay [OF 3(1)])
  then have b: "?R b'" by (rule reach_step) (rule rs_handshake [OF 3(2)])
  have "?R a1" using assms(2) by (rule reach_step) (rule enable_step [OF 1])
  then have "?R a2" by (rule reach_step) (rule initiate_step [OF 2])
  then have "?R (sort_packet ((fst (last (rt_out b')))\<lparr>header := snd hs\<rparr>) (snd ss) a2)" by (rule reach_step) (rule rs_arrive)
  then have "?R a3" by (rule reach_step) (rule rs_relay [OF 3(3)])
  then have "?R a'" by (rule reach_step) (rule rs_handshake [OF 3(4)])
  with b show ?thesis by blast
qed

section \<open>Contact, message and answer\<close>

lemma contact_message_answer_lemma:
  assumes noise: "noise_ok N C" and C: "crypto_ok C" and seal: "seals_all C"
    and a: "ready C a ma ca" and b: "ready C b mb cb" and cb: "cert_verify C cb (UserID mb)"
    and addr: "map_of (rt_pk_to_addr a) mb \<noteq> None"
    and new: "map_of (rt_pk_to_conn a) mb = None" "map_of (rt_pk_to_conn b) ma = None"
    and t: "map_of (rt_pending b) (next_tag a) = None" "next_tag a \<notin> rt_seen_tags b"
    and fresh: "distinct (map (x_pub C) [next_draw a 1, next_draw a 5, next_draw a 11])" "x_pub C (next_draw b 0) \<noteq> x_pub C (next_draw b 4)"
    and msgs: "message_ok msg" "message_ok ans"
    and dedup: "map_of (rt_received_keys b) (sha256 C (bytes_of ma @ bytes_of (next_draw a 6))) = None"
      "map_of (rt_received_keys a) (sha256 C (bytes_of mb @ bytes_of (next_draw b 5))) = None"
  shows "\<exists>a1 b1 a2 b2 a3 b3 n. connect N C (x_pub C (rt_x25519_priv b)) mb hs ss u (a, b) = Ok (a1, b1) \<and>
    rt_sess a1 = rt_sess a @ [(mb, n)] \<and> rt_sess b1 = rt_sess b @ [(ma, n)] \<and>
    map_of (rt_pk_to_addr b1) ma = Some (canon_addr (rt_address a)) \<and>
    exchange C msg mb h1 sa now u1 (a1, b1) = Ok (a2, b2) \<and> rt_msgs b2 = rt_msgs b @ [(msg, ma)] \<and>
    exchange C ans ma h2 sb now' u2 (b2, a2) = Ok (b3, a3) \<and> rt_msgs a3 = rt_msgs a @ [(ans, mb)] \<and>
    snd (last (rt_out b3)) = canon_addr (rt_address a)"
proof -
  have f: "x_pub C (next_draw a 5) \<noteq> x_pub C (next_draw a 1)" "x_pub C (next_draw a 5) \<noteq> x_pub C (next_draw a 11)"
    using fresh(1) by auto
  from connect_links [OF noise C a b cb addr f(1) new t, of hs ss u] obtain a1 b1 c n where
    1: "connect N C (x_pub C (rt_x25519_priv b)) mb hs ss u (a, b) = Ok (a1, b1)" "linked C (ma, a1) (mb, b1) c"
      "rt_sess a1 = rt_sess a @ [(mb, n)]" "rt_sess b1 = rt_sess b @ [(ma, n)]"
      "map_of (rt_pk_to_addr b1) ma = Some (canon_addr (rt_address a))"
      "session_secret b1 c = Some (next_draw b 0)" "session_secret a1 c = Some (next_draw a 5)"
      "rt_drawn a1 = rt_drawn a + 6" "rt_draws a1 = rt_draws a" "rt_drawn b1 = rt_drawn b + 4" "rt_draws b1 = rt_draws b"
      "rt_received_keys a1 = rt_received_keys a" "rt_received_keys b1 = rt_received_keys b"
      "rt_relay_pile a1 = []" "rt_message_pile a1 = []" "rt_relay_pile b1 = []" "rt_message_pile b1 = []"
      "rt_msgs a1 = rt_msgs a" "rt_msgs b1 = rt_msgs b" by blast
  have "map_option (x_pub C) (session_secret b1 c) \<noteq> Some (x_pub C (next_draw b1 0))"
    "map_of (rt_received_keys b1) (sha256 C (bytes_of ma @ bytes_of (next_draw a1 0))) = None"
    using fresh(2) dedup(1) by (simp_all add: 1 next_draw_def)
  from exchange_delivers [OF C seal 1(2) msgs(1) 1(16,17) this, of h1 sa now u1] obtain a2 b2 where
    2: "exchange C msg mb h1 sa now u1 (a1, b1) = Ok (a2, b2)" "rt_msgs b2 = rt_msgs b1 @ [(msg, ma)]" "rt_msgs a2 = rt_msgs a1"
      "linked C (mb, b2) (ma, a2) c" "rt_relay_pile a2 = rt_relay_pile a1" "rt_message_pile a2 = rt_message_pile a1"
      "session_secret a2 c = session_secret a1 c" "rt_received_keys a2 = rt_received_keys a1"
      "rt_draws a2 = rt_draws a1" "rt_draws b2 = rt_draws b1" "rt_drawn a2 = rt_drawn a1 + 5" "rt_drawn b2 = rt_drawn b1 + 1"
      "rt_pk_to_addr b2 = rt_pk_to_addr b1"
    by blast
  have 3: "rt_relay_pile a2 = []" "rt_message_pile a2 = []" using 1 2 by simp_all
  have "map_option (x_pub C) (session_secret a2 c) \<noteq> Some (x_pub C (next_draw a2 0))"
    "map_of (rt_received_keys a2) (sha256 C (bytes_of mb @ bytes_of (next_draw b2 0))) = None"
    using f(2) dedup(2) by (simp_all add: 1 2 next_draw_def add.commute)
  from exchange_delivers [OF C seal 2(4) msgs(2) 3 this, of h2 sb now' u2] obtain b3 a3 where
    4: "exchange C ans ma h2 sb now' u2 (b2, a2) = Ok (b3, a3)" "rt_msgs a3 = rt_msgs a2 @ [(ans, mb)]"
      "\<exists>outer. rt_out b3 = rt_out b2 @ [(outer, the (map_of (rt_pk_to_addr b2) ma))]" by blast
  then have "snd (last (rt_out b3)) = canon_addr (rt_address a)" using 1(5) 2(13) by auto
  then show ?thesis using 1 2 4 by auto
qed

section \<open>Properties\<close>

text \<open>
  C2. Two runtimes from first contact to answer, end to end: the initiator asks for the peer by master
  key over its relay address, the handshake frames and then a message and its answer pass between the
  two, each unwrapped by the handlers of its receiver. Both applications are told of the session with
  the same safety number, the responder learns the initiator's address, and the message and the answer
  arrive as they were sent, each under its sender's master key. The transport may give the outer
  packets any headers and addresses.
\<close>

theorem contact_message_answer:
  assumes "noise_ok N C" and "crypto_ok C" and "seals_all C"
    and "ready C a ma ca" and "ready C b mb cb" and "cert_verify C cb (UserID mb)"
    and "map_of (rt_pk_to_addr a) mb \<noteq> None"
    and "map_of (rt_pk_to_conn a) mb = None" and "map_of (rt_pk_to_conn b) ma = None"
    and "map_of (rt_pending b) (next_tag a) = None" and "next_tag a \<notin> rt_seen_tags b"
    and "distinct (map (x_pub C) [next_draw a 1, next_draw a 5, next_draw a 11])" and "x_pub C (next_draw b 0) \<noteq> x_pub C (next_draw b 4)"
    and "message_ok msg" and "message_ok ans"
    and "map_of (rt_received_keys b) (sha256 C (bytes_of ma @ bytes_of (next_draw a 6))) = None"
    and "map_of (rt_received_keys a) (sha256 C (bytes_of mb @ bytes_of (next_draw b 5))) = None"
  shows "\<exists>a1 b1 a2 b2 a3 b3 n. connect N C (x_pub C (rt_x25519_priv b)) mb hs ss u (a, b) = Ok (a1, b1) \<and>
    rt_sess a1 = rt_sess a @ [(mb, n)] \<and> rt_sess b1 = rt_sess b @ [(ma, n)] \<and>
    map_of (rt_pk_to_addr b1) ma = Some (canon_addr (rt_address a)) \<and>
    exchange C msg mb h1 sa now u1 (a1, b1) = Ok (a2, b2) \<and> rt_msgs b2 = rt_msgs b @ [(msg, ma)] \<and>
    exchange C ans ma h2 sb now' u2 (b2, a2) = Ok (b3, a3) \<and> rt_msgs a3 = rt_msgs a @ [(ans, mb)]"
  using contact_message_answer_lemma [OF assms, where hs = hs and ss = ss and u = u and ?h1.0 = h1 and sa = sa and now = now
      and ?u1.0 = u1 and ?h2.0 = h2 and sb = sb and now' = now' and ?u2.0 = u2]
  by (elim exE conjE) (intro exI conjI, assumption+)

lemma demo_runtime_simps [simp]:
  "rt_master_pubkey (demo_runtime m d k) = Some (demo_key m)" "rt_device_cert (demo_runtime m d k) = Some (demo_cert m d)"
  "rt_x25519_priv (demo_runtime m d k) = demo_key d" "rt_relay_fwd (demo_runtime m d k) = Some registry_new"
  "rt_relay_pile (demo_runtime m d k) = []" "rt_handshake_pile (demo_runtime m d k) = []" "rt_message_pile (demo_runtime m d k) = []"
  "rt_pk_to_conn (demo_runtime m d k) = []" "rt_pk_to_addr (demo_runtime m d k) = []" "rt_pending (demo_runtime m d k) = []"
  "rt_seen_tags (demo_runtime m d k) = {}" "rt_received_keys (demo_runtime m d k) = []" "rt_msgs (demo_runtime m d k) = []"
  "rt_drawn (demo_runtime m d k) = 0" "rt_draws (demo_runtime m d k) = (\<lambda>i. demo_key (k + of_nat i))"
  "rt_address (demo_runtime m d k) = V4 zero_arr (ucast d)"
  by (simp_all add: demo_runtime_def enable_relay_def set_device_cert_def set_master_pubkey_def runtime_bind_def)

text \<open>Two runtimes, the first of which has the other's address.\<close>

definition demo_pair :: "u8 \<Rightarrow> demo_noise_state runtime \<times> demo_noise_state runtime" where
  "demo_pair m = (set_peer_addr (demo_key 12) (V4 zero_arr 7) (demo_runtime m 1 20), demo_runtime 12 2 60)"

lemma demo_pair_ready:
  "ready demo_crypto (fst (demo_pair m)) (demo_key m) (demo_cert m 1)" "ready demo_crypto (snd (demo_pair m)) (demo_key 12) (demo_cert 12 2)"
  by (simp_all add: ready_def demo_pair_def set_peer_addr_def)

lemma demo_cert_user: "cert_verify demo_crypto (demo_cert 12 2) (UserID (demo_key 12))"
  using demo_cert_verify [of 12 2] by (simp add: user_of_def demo_owner_def from_signing_key_bytes_def demo_crypto_def)

lemma demo_pair_fresh:
  "distinct (map (x_pub demo_crypto) [next_draw (fst (demo_pair m)) 1, next_draw (fst (demo_pair m)) 5, next_draw (fst (demo_pair m)) 11])"
  "x_pub demo_crypto (next_draw (snd (demo_pair m)) 0) \<noteq> x_pub demo_crypto (next_draw (snd (demo_pair m)) 4)"
  by (simp_all add: demo_pair_def set_peer_addr_def next_draw_def)

lemma demo_pair_new:
  "map_of (rt_pk_to_addr (fst (demo_pair m))) (demo_key 12) \<noteq> None" "map_of (rt_pk_to_conn (fst (demo_pair m))) (demo_key 12) = None"
  "map_of (rt_pk_to_conn (snd (demo_pair m))) k = None" "map_of (rt_pending (snd (demo_pair m))) t = None"
  "t \<notin> rt_seen_tags (snd (demo_pair m))" "map_of (rt_received_keys (fst (demo_pair m))) d = None"
  "map_of (rt_received_keys (snd (demo_pair m))) d = None"
  by (simp_all add: demo_pair_def set_peer_addr_def)

theorem contact_message_answer_witness:
  "\<forall>hs ss h1 h2 sa sb. \<exists>a1 b1 a2 b2 a3 b3. connect demo_noise demo_crypto (demo_key 2) (demo_key 12) hs ss 0 (demo_pair 11) = Ok (a1, b1) \<and>
    exchange demo_crypto demo_message (demo_key 12) h1 sa (Instant 1) 0 (a1, b1) = Ok (a2, b2) \<and>
    exchange demo_crypto demo_message (demo_key 11) h2 sb (Instant 2) 0 (b2, a2) = Ok (b3, a3) \<and>
    rt_msgs a3 = [(demo_message, demo_key 12)] \<and> rt_msgs b2 = [(demo_message, demo_key 11)]"
  (is "\<forall>hs ss h1 h2 sa sb. ?P hs ss h1 h2 sa sb")
proof (intro allI)
  fix hs ss h1 h2 sa sb
  have x: "x_pub demo_crypto (rt_x25519_priv (snd (demo_pair 11))) = demo_key 2" "rt_msgs (fst (demo_pair 11)) = []" "rt_msgs (snd (demo_pair 11)) = []"
    by (simp_all add: demo_pair_def set_peer_addr_def)
  note new = demo_pair_new [where m = 11]
  from contact_message_answer [OF demo_noise_ok demo_crypto_ok demo_seals_all demo_pair_ready [of 11] demo_cert_user new(1-5)
      demo_pair_fresh [of 11] demo_message_ok demo_message_ok new(7,6), where ?h1.0 = h1 and ?h2.0 = h2 and ?u1.0 = 0 and ?u2.0 = 0 and u = 0 and hs = hs and ss = ss
      and sa = sa and sb = sb and now = "Instant 1" and now' = "Instant 2"]
  show "?P hs ss h1 h2 sa sb" unfolding x by fastforce
qed

text \<open>
  C28. Nothing ties the master key that an initiator claims to its certificate: with a certificate that
  the victim's master key did not sign, an initiator is announced to the application as the victim,
  replaces the address the responder had for the victim by its own, has its messages delivered as the
  victim's, and the answer for the victim is sent to it and read by it.
\<close>

theorem impostor_takes_over:
  assumes "noise_ok N C" and "crypto_ok C" and "seals_all C"
    and "ready C a victim ca" and "\<not> cert_verify C ca (UserID victim)"
    and "ready C b mb cb" and "cert_verify C cb (UserID mb)"
    and "map_of (rt_pk_to_addr a) mb \<noteq> None" and "map_of (rt_pk_to_addr b) victim = Some address"
    and "map_of (rt_pk_to_conn a) mb = None" and "map_of (rt_pk_to_conn b) victim = None"
    and "map_of (rt_pending b) (next_tag a) = None" and "next_tag a \<notin> rt_seen_tags b"
    and "distinct (map (x_pub C) [next_draw a 1, next_draw a 5, next_draw a 11])" and "x_pub C (next_draw b 0) \<noteq> x_pub C (next_draw b 4)"
    and "message_ok msg" and "message_ok ans"
    and "map_of (rt_received_keys b) (sha256 C (bytes_of victim @ bytes_of (next_draw a 6))) = None"
    and "map_of (rt_received_keys a) (sha256 C (bytes_of mb @ bytes_of (next_draw b 5))) = None"
  shows "\<exists>a1 b1 a2 b2 a3 b3 n. connect N C (x_pub C (rt_x25519_priv b)) mb hs ss u (a, b) = Ok (a1, b1) \<and>
    rt_sess b1 = rt_sess b @ [(victim, n)] \<and> map_of (rt_pk_to_addr b1) victim = Some (canon_addr (rt_address a)) \<and>
    exchange C msg mb h1 sa now u1 (a1, b1) = Ok (a2, b2) \<and> rt_msgs b2 = rt_msgs b @ [(msg, victim)] \<and>
    exchange C ans victim h2 sb now' u2 (b2, a2) = Ok (b3, a3) \<and>
    snd (last (rt_out b3)) = canon_addr (rt_address a) \<and> rt_msgs a3 = rt_msgs a @ [(ans, mb)]"
  using contact_message_answer_lemma [OF assms(1-4,6-8,10-19), where hs = hs and ss = ss and u = u and ?h1.0 = h1 and sa = sa and now = now
      and ?u1.0 = u1 and ?h2.0 = h2 and sb = sb and now' = now' and ?u2.0 = u2]
  by (elim exE conjE) (intro exI conjI, assumption+)

theorem impostor_takes_over_witness:
  "\<forall>hs ss h1 h2 sa sb. \<exists>a1 b1 a2 b2 a3 b3. connect demo_noise demo_crypto (demo_key 2) (demo_key 12) hs ss 0
      (set_device_cert (demo_cert 11 1) (fst (demo_pair 13)), set_peer_addr (demo_key 13) (V4 zero_arr 5) (snd (demo_pair 13))) = Ok (a1, b1) \<and>
    map_of (rt_pk_to_addr b1) (demo_key 13) = Some (V4 zero_arr 1) \<and>
    exchange demo_crypto demo_message (demo_key 12) h1 sa (Instant 1) 0 (a1, b1) = Ok (a2, b2) \<and>
    rt_msgs b2 = [(demo_message, demo_key 13)] \<and>
    exchange demo_crypto demo_message (demo_key 13) h2 sb (Instant 2) 0 (b2, a2) = Ok (b3, a3) \<and>
    rt_msgs a3 = [(demo_message, demo_key 12)]"
  (is "\<forall>hs ss h1 h2 sa sb. ?P hs ss h1 h2 sa sb")
proof (intro allI)
  fix hs ss h1 h2 sa sb
  let ?a = "set_device_cert (demo_cert 11 1) (fst (demo_pair 13))" and ?b = "set_peer_addr (demo_key 13) (V4 zero_arr 5) (snd (demo_pair 13))"
  have b: "ready demo_crypto ?b (demo_key 12) (demo_cert 12 2)" "map_of (rt_pk_to_addr ?b) (demo_key 13) = Some (V4 zero_arr 5)"
    "map_of (rt_pk_to_conn ?b) (demo_key 13) = None" "map_of (rt_pending ?b) (next_tag ?a) = None" "next_tag ?a \<notin> rt_seen_tags ?b"
    "x_pub demo_crypto (next_draw ?b 0) \<noteq> x_pub demo_crypto (next_draw ?b 4)" "map_of (rt_received_keys ?b) d = None" for d
    by (simp_all add: ready_def demo_pair_def set_peer_addr_def next_draw_def set_device_cert_def)
  have x: "x_pub demo_crypto (rt_x25519_priv ?b) = demo_key 2" "rt_msgs ?a = []" "rt_msgs ?b = []"
    "canon_addr (rt_address ?a) = V4 zero_arr 1"
    by (simp_all add: demo_pair_def set_peer_addr_def set_device_cert_def)
  have a: "ready demo_crypto ?a (demo_key 13) (demo_cert 11 1)" "map_of (rt_pk_to_addr ?a) (demo_key 12) \<noteq> None"
    "map_of (rt_pk_to_conn ?a) (demo_key 12) = None" "map_of (rt_received_keys ?a) d = None"
    "distinct (map (x_pub demo_crypto) [next_draw ?a 1, next_draw ?a 5, next_draw ?a 11])" for d
    by (simp_all add: ready_def demo_pair_def set_peer_addr_def set_device_cert_def next_draw_def)
  from impostor_takes_over [OF demo_noise_ok demo_crypto_ok demo_seals_all a(1) demo_cert_other_master b(1) demo_cert_user a(2)
      b(2) a(3) b(3-5) a(5) b(6) demo_message_ok demo_message_ok b(7) a(4),
      where ?h1.0 = h1 and ?h2.0 = h2 and ?u1.0 = 0 and ?u2.0 = 0 and u = 0 and hs = hs and ss = ss
      and sa = sa and sb = sb and now = "Instant 1" and now' = "Instant 2"]
  show "?P hs ss h1 h2 sa sb" unfolding x by fastforce
qed

text \<open>
  C29. Anyone can end a session: a packet with its connection id and less than 48 bytes of data, from
  any address and without any key, makes the receiver drop the session and the connection, so that
  the peer can no longer be written to if it was the only one.
\<close>

theorem short_packet_ends_session:
  assumes "reach runtime_start (runtime_step N C) r" and "rt_message_pile r = (pkt, sender) # rest"
    and "connection_id (payload pkt) = c" and "length (data (payload pkt)) < 48"
    and "map_of (rt_conn_to_pk r) c = Some pk"
  shows "\<exists>r'. tick_message C now unix r = Ok r' \<and> \<not> session_established c r' \<and> map_of (rt_conn_to_pk r') c = None \<and>
    rt_msgs r' = rt_msgs r \<and>
    (map_of (rt_pk_to_conn r) pk = Some [c] \<longrightarrow> send_message C msg pk r' = (r', Err (Msg ''no session for peer'')))"
proof -
  have ok: "runtime_ok r" using runtime.reach_inv [OF assms(1)] .
  then have "links_ok (rt_sessions r) (rt_conn_to_pk r) (rt_pk_to_conn r)" by (simp add: runtime_ok_def)
  then have "map_of (rt_sessions r) c \<noteq> None" using assms(5) by (simp add: links_ok_def)
  then obtain s where s: "map_of (rt_sessions r) c = Some s" by blast
  obtain e where e: "session_receive C (rt_draws r (rt_drawn r)) unix pkt s = (s, Err e)"
    using assms(4) by (cases "tag (payload pkt) = Message") (auto simp: session_receive_unfold Let_def)
  let ?r = "r\<lparr>rt_message_pile := rest, rt_drawn := Suc (rt_drawn r), rt_sessions := AList.update c s (rt_sessions r)\<rparr>"
  have t: "tick_message C now unix r = Ok (remove_stale_conn c ?r)"
    using e s assms(2,3) by (simp add: tick_message_def draw_def Let_def)
  have "\<not> session_established c (remove_stale_conn c ?r)" "map_of (rt_conn_to_pk (remove_stale_conn c ?r)) c = None"
    "rt_msgs (remove_stale_conn c ?r) = rt_msgs r"
    using assms(5) by (simp_all add: remove_stale_conn_def session_established_def Let_def)
  moreover have "send_message C msg pk (remove_stale_conn c ?r) = (remove_stale_conn c ?r, Err (Msg ''no session for peer''))"
    if "map_of (rt_pk_to_conn r) pk = Some [c]"
    using that assms(5) by (simp add: remove_stale_conn_def send_message_def map_of_drop_conn Let_def)
  ultimately show ?thesis using t by blast
qed


text \<open>Two demo runtimes after one handshake: the responder is reachable and has the session.\<close>

lemma demo_connected:
  obtains b c where "reach runtime_start (runtime_step demo_noise demo_crypto) b" "session_established c b"
    "map_of (rt_conn_to_pk b) c \<noteq> None" "rt_message_pile b = []"
proof -
  have f: "x_pub demo_crypto (next_draw (fst (demo_pair 11)) 5) \<noteq> x_pub demo_crypto (next_draw (fst (demo_pair 11)) 1)"
    using demo_pair_fresh(1) [of 11] by auto
  note new = demo_pair_new [where m = 11]
  from connect_links [OF demo_noise_ok demo_crypto_ok demo_pair_ready [of 11] demo_cert_user new(1) f new(2-5)]
  obtain a b c where con: "connect demo_noise demo_crypto (x_pub demo_crypto (rt_x25519_priv (snd (demo_pair 11)))) (demo_key 12)
      (h, h) (V4 zero_arr 1, V4 zero_arr 1) 0 (fst (demo_pair 11), snd (demo_pair 11)) = Ok (a, b)"
    and l: "linked demo_crypto (demo_key 11, a) (demo_key 12, b) c" "rt_message_pile b = []" by (metis prod.collapse)
  have "reach runtime_start (runtime_step demo_noise demo_crypto) (fst (demo_pair 11))"
    using demo_runtime_reach [of 11 1 20] unfolding demo_pair_def fst_conv by (rule reach_step) (rule rs_peer)
  moreover have "reach runtime_start (runtime_step demo_noise demo_crypto) (snd (demo_pair 11))"
    using demo_runtime_reach [of 12 2 60] by (simp add: demo_pair_def)
  ultimately have reach: "reach runtime_start (runtime_step demo_noise demo_crypto) b" using connect_reach [OF con] by blast
  then have ok: "runtime_ok b" by (rule runtime.reach_inv)
  from l obtain t where t: "map_of (rt_sessions b) c = Some t" by (auto simp: linked_def)
  have "session_established c b"
    using runtime_ok_session [OF ok t] t by (simp add: session_established_def session_good_def is_established_def)
  then show thesis using that reach l(2) runtime_ok_established [OF ok] by blast
qed

theorem short_packet_ends_session_witness:
  "\<exists>r r' :: demo_noise_state runtime. \<exists>c. session_established c r \<and>
     tick_message demo_crypto (Instant 9) 0 (sort_packet (packet_new 0 1 ((payload_new Message [1, 2, 3])\<lparr>connection_id := c\<rparr>)) (V4 zero_arr 3) r) = Ok r' \<and>
     \<not> session_established c r'"
proof -
  obtain b c where b: "reach runtime_start (runtime_step demo_noise demo_crypto) b" "session_established c b"
    "map_of (rt_conn_to_pk b) c \<noteq> None" "rt_message_pile b = []" by (rule demo_connected)
  let ?b = "sort_packet (packet_new 0 1 ((payload_new Message [1, 2, 3])\<lparr>connection_id := c\<rparr>)) (V4 zero_arr 3) b"
  have reach: "reach runtime_start (runtime_step demo_noise demo_crypto) ?b" using b(1) by (rule reach_step) (rule rs_arrive)
  obtain pk where pk: "map_of (rt_conn_to_pk ?b) c = Some pk" using b(3) by (auto simp: sort_packet_def)
  have pile: "rt_message_pile ?b = (packet_new 0 1 ((payload_new Message [1, 2, 3])\<lparr>connection_id := c\<rparr>), V4 zero_arr 3) # []"
    using b(4) by (simp add: sort_packet_def)
  from short_packet_ends_session [OF reach pile _ _ pk, where now = "Instant 9" and unix = 0] b(2) show ?thesis by fastforce
qed

text \<open>
  C6. In every reachable state of a runtime, whatever arrives and whatever is called: every session
  in the table is established under the connection id it is filed by, exactly the connections with a
  session have a peer, that peer lists the connection, no peer is listed without connections, no
  table has two entries for a key, and the routing table is well-formed. A step writes at most one
  peer's address and at most one address's key and loses none, nor a tag of an answered handshake;
  only a peer state file replaces the two tables.
\<close>

theorem runtime_invariant:
  assumes "reach runtime_start (runtime_step N C) r"
  shows "(session_established c r \<longleftrightarrow> map_of (rt_conn_to_pk r) c \<noteq> None) \<and>
    (case map_of (rt_sessions r) c of
       None \<Rightarrow> map_of (rt_conn_to_pk r) c = None
     | Some s \<Rightarrow> is_established s \<and> s_connection_id s = Some c \<and>
         (\<exists>pk cs. map_of (rt_conn_to_pk r) c = Some pk \<and> map_of (rt_pk_to_conn r) pk = Some cs \<and> c \<in> set cs)) \<and>
    map_of (rt_pk_to_conn r) pk \<noteq> Some [] \<and>
    length (active_conn_ids r) = length (rt_sessions r) \<and>
    hm_ok (rt_sessions r) \<and> hm_ok (rt_conn_to_pk r) \<and> hm_ok (rt_pk_to_conn r) \<and> hm_ok (rt_pending r) \<and>
    hm_ok (rt_pk_to_addr r) \<and> hm_ok (rt_peer_keys r) \<and> hm_ok (rt_received_keys r) \<and> rt_ok (rt_routing r) \<and>
    (\<forall>r'. runtime_step N C r r' \<longrightarrow> (\<exists>d. r' = fst (load_peer_state C d r)) \<or>
       put_at_most_one (rt_pk_to_addr r) (rt_pk_to_addr r') \<and> put_at_most_one (rt_peer_keys r) (rt_peer_keys r') \<and>
       rt_seen_tags r \<subseteq> rt_seen_tags r')"
proof -
  have ok: "runtime_ok r" using runtime.reach_inv [OF assms] .
  then have l: "links_ok (rt_sessions r) (rt_conn_to_pk r) (rt_pk_to_conn r)" by (simp add: runtime_ok_def)
  then have "map_of (rt_pk_to_conn r) pk \<noteq> Some []" "hm_ok (rt_sessions r)" "hm_ok (rt_conn_to_pk r)" "hm_ok (rt_pk_to_conn r)"
    unfolding links_ok_def by blast+
  moreover have "hm_ok (rt_pending r)" "hm_ok (rt_pk_to_addr r)" "hm_ok (rt_peer_keys r)" "hm_ok (rt_received_keys r)"
    "rt_ok (rt_routing r)"
    using ok by (simp_all add: runtime_ok_def)
  moreover have "\<forall>r'. runtime_step N C r r' \<longrightarrow> (\<exists>d. r' = fst (load_peer_state C d r)) \<or>
      put_at_most_one (rt_pk_to_addr r) (rt_pk_to_addr r') \<and> put_at_most_one (rt_peer_keys r) (rt_peer_keys r') \<and>
      rt_seen_tags r \<subseteq> rt_seen_tags r'"
    using runtime_step_peers by (fastforce simp: peers_step_def)
  ultimately show ?thesis
    using runtime_ok_established [OF ok] runtime_ok_linked [OF ok] runtime_ok_active [OF ok] by (intro conjI)
qed

theorem runtime_invariant_witness:
  "\<exists>r :: demo_noise_state runtime. \<exists>c pk cs. session_established c r \<and> map_of (rt_conn_to_pk r) c = Some pk \<and>
     map_of (rt_pk_to_conn r) pk = Some cs \<and> c \<in> set cs \<and> hm_ok (rt_pk_to_addr r)"
proof -
  obtain b c where b: "reach runtime_start (runtime_step demo_noise demo_crypto) b" "session_established c b"
    by (rule demo_connected)
  obtain t where t: "map_of (rt_sessions b) c = Some t" using b(2) by (auto simp: session_established_def split: option.splits)
  from runtime_invariant [OF b(1), of c undefined] b(2) show ?thesis by (auto simp: t)
qed

end
