(* ===== verification/Node.thy ===== *)
theory Node
  imports RuntimeConnect Reliable
begin

text \<open>
  A running node: the runtime, its transport and the three threads that work on them, after
  \<open>Runtime::bind\<close> (runtime.rs) and \<open>ReliableTransport::bind\<close> (transport/reliable.rs). The sorting thread moves the
  runtime's packets to the transport and the transport's packets to the runtime's piles; the receive
  thread answers datagrams and time-outs; either can die of a panic, and the second can leave its lock
  poisoned. The key table is one, shared by both sides. Lemmas: the invariant of a node; a message
  from one node to another, datagram by datagram; what is acknowledged; what makes a node deaf or mute.
\<close>

section \<open>The state\<close>

text \<open>
  \<open>n_recv\<close> and \<open>n_sort\<close> say whether the receive and the sorting thread are alive, \<open>n_poisoned\<close> whether the
  receive thread died with the lock on the pending packets.
\<close>

record 'hs node =
  n_rt :: "'hs runtime"
  n_tp :: transport
  n_recv :: bool
  n_sort :: bool
  n_poisoned :: bool

definition node_bind :: "node_id \<Rightarrow> socket_addr \<Rightarrow> 32 arr option \<Rightarrow> 32 arr \<Rightarrow> (nat \<Rightarrow> 32 arr) \<Rightarrow> 'hs node" where
  "node_bind i actual_addr signing_key x25519_priv draws =
     \<lparr>n_rt = runtime_bind i actual_addr signing_key x25519_priv draws, n_tp = transport_bind signing_key [],
      n_recv = True, n_sort = True, n_poisoned = False\<rparr>"

text \<open>The key table is shared: who changes it changes it for both.\<close>

definition put_rt :: "'hs runtime \<Rightarrow> 'hs node \<Rightarrow> 'hs node" where
  "put_rt r n = n\<lparr>n_rt := r, n_tp := (n_tp n)\<lparr>t_peer_keys := rt_peer_keys r\<rparr>\<rparr>"

definition put_tp :: "transport \<Rightarrow> 'hs node \<Rightarrow> 'hs node" where
  "put_tp t n = n\<lparr>n_tp := t, n_rt := (n_rt n)\<lparr>rt_peer_keys := t_peer_keys t\<rparr>\<rparr>"

section \<open>The sorting thread\<close>

text \<open>\<open>send\<close> when the lock on the pending packets is poisoned: it panics after the first datagram.\<close>

definition send_poisoned ::
    "(bytes \<Rightarrow> bool) \<Rightarrow> (nat \<Rightarrow> u128) \<Rightarrow> packet \<Rightarrow> socket_addr \<Rightarrow> transport \<Rightarrow> transport \<times> unit res" where
  "send_poisoned io rnd pkt dst t =
     (case split_packet rnd pkt of
        Ok [] \<Rightarrow> (t, Ok ())
      | Ok (frag # _) \<Rightarrow>
          (let bs = packet_serialize (with_ack_required frag)
           in if io bs then (t\<lparr>t_sent := t_sent t @ [(bs, dst)]\<rparr>, Panic) else (t, Err (Msg ''send failed'')))
      | Err e \<Rightarrow> (t, Err e)
      | Panic \<Rightarrow> (t, Panic))"

text \<open>The loop over the packets to send; the errors of \<open>send\<close> are dropped, a panic ends the thread.\<close>

fun sort_sends ::
    "(bytes \<Rightarrow> bool) \<Rightarrow> (nat \<Rightarrow> nat \<Rightarrow> u128) \<Rightarrow> instant \<Rightarrow> bool \<Rightarrow> pile \<Rightarrow> transport \<Rightarrow> transport \<times> bool" where
  "sort_sends io rnd now poisoned [] t = (t, True)"
| "sort_sends io rnd now poisoned ((pkt, dst) # out) t =
     (case (if poisoned then send_poisoned io (rnd 0) pkt dst t else transport_send io (rnd 0) now pkt dst t) of
        (t, Panic) \<Rightarrow> (t, False)
      | (t, _) \<Rightarrow> sort_sends io (\<lambda>k. rnd (Suc k)) now poisoned out t)"

fun sort_acks :: "crypto \<Rightarrow> (u128 \<times> socket_addr) list \<Rightarrow> transport \<Rightarrow> transport" where
  "sort_acks C [] t = t"
| "sort_acks C ((i, dst) # acks) t = sort_acks C acks (transport_confirm C i dst t)"

text \<open>
  One turn: all packets to send, then all acks, then one packet of the transport. With the thread the
  transport's channel goes.
\<close>

definition sort_turn ::
    "crypto \<Rightarrow> (bytes \<Rightarrow> bool) \<Rightarrow> (nat \<Rightarrow> nat \<Rightarrow> u128) \<Rightarrow> instant \<Rightarrow> 'hs node \<Rightarrow> 'hs node" where
  "sort_turn C io rnd now n =
     (if \<not> n_sort n then n
      else
        (let r = n_rt n; (t, alive) = sort_sends io rnd now (n_poisoned n) (rt_out r) (n_tp n);
             r = r\<lparr>rt_out := []\<rparr>
         in if \<not> alive then n\<lparr>n_rt := r, n_tp := t\<lparr>t_inbox := []\<rparr>, n_sort := False\<rparr>
            else
              (let t = sort_acks C (rt_acks r) t; r = r\<lparr>rt_acks := []\<rparr>
               in case t_inbox t of
                    [] \<Rightarrow> n\<lparr>n_rt := r, n_tp := t\<rparr>
                  | (pkt, sender) # rest \<Rightarrow> n\<lparr>n_rt := sort_packet pkt sender r, n_tp := t\<lparr>t_inbox := rest\<rparr>\<rparr>)))"

section \<open>The receive thread\<close>

text \<open>Whether a datagram that makes the thread panic does so in \<open>verify_ack\<close>, under the lock, and not in \<open>feed\<close>.\<close>

definition dies_locked :: "instant \<Rightarrow> bytes \<Rightarrow> socket_addr \<Rightarrow> transport \<Rightarrow> bool" where
  "dies_locked now buf sender t =
     (case packet_from_serialized buf of
        Ok pkt \<Rightarrow> fragment_id (payload pkt) = 0 \<or> feed now pkt sender (t_reasm t) \<noteq> Panic
      | _ \<Rightarrow> False)"

text \<open>A datagram arrives. When the sorting thread is gone, so is the channel, and the first packet for it ends the loop.\<close>

definition node_datagram :: "crypto \<Rightarrow> instant \<Rightarrow> bytes \<Rightarrow> socket_addr \<Rightarrow> 'hs node \<Rightarrow> 'hs node" where
  "node_datagram C now buf sender n =
     (if \<not> n_recv n then n
      else
        (case on_datagram C now buf sender (n_tp n) of
           Ok t \<Rightarrow>
             if \<not> n_sort n \<and> t_inbox t \<noteq> t_inbox (n_tp n) then n\<lparr>n_recv := False\<rparr> else put_tp t n
         | _ \<Rightarrow> n\<lparr>n_recv := False, n_poisoned := dies_locked now buf sender (n_tp n)\<rparr>))"

fun node_datagrams :: "crypto \<Rightarrow> socket_addr \<Rightarrow> (instant \<times> bytes) list \<Rightarrow> 'hs node \<Rightarrow> 'hs node" where
  "node_datagrams C s [] n = n"
| "node_datagrams C s ((now, buf) # ds) n = node_datagrams C s ds (node_datagram C now buf s n)"

definition node_timeout :: "instant \<Rightarrow> 'hs node \<Rightarrow> 'hs node" where
  "node_timeout now n = (if n_recv n then n\<lparr>n_tp := on_timeout now (n_tp n)\<rparr> else n)"

text \<open>Any other error of the socket ends the loop.\<close>

definition node_recv_error :: "'hs node \<Rightarrow> 'hs node" where
  "node_recv_error n = n\<lparr>n_recv := False\<rparr>"

section \<open>The invariant\<close>

text \<open>
  The threads interleave; a turn of the sorting thread counts as one step, and so does a handler of the
  runtime (the packets that arrive while it runs are those of \<open>runtime_step\<close>, any packets).
\<close>

inductive node_step :: "'hs noise \<Rightarrow> crypto \<Rightarrow> 'hs node \<Rightarrow> 'hs node \<Rightarrow> bool" for N C where
  ns_call: "runtime_step N C (n_rt n) r \<Longrightarrow> node_step N C n (put_rt r n)"
| ns_sort: "node_step N C n (sort_turn C io rnd now n)"
| ns_datagram: "node_step N C n (node_datagram C now buf sender n)"
| ns_timeout: "node_step N C n (node_timeout now n)"
| ns_recv_error: "node_step N C n (node_recv_error n)"

inductive_cases node_stepE: "node_step N C n n'"

definition node_start :: "'hs node \<Rightarrow> bool" where
  "node_start n \<longleftrightarrow> (\<exists>i addr k x draws. n = node_bind i addr k x draws)"

definition threads_ok :: "'hs node \<Rightarrow> bool" where
  "threads_ok n \<longleftrightarrow> runtime_ok (n_rt n) \<and> transport_ok (n_tp n) \<and> t_peer_keys (n_tp n) = rt_peer_keys (n_rt n) \<and>
     (n_poisoned n \<longrightarrow> \<not> n_recv n)"

lemma transport_ok_frame [simp]:
  "transport_ok (t_inbox_update f t) = transport_ok t" "transport_ok (t_sent_update f1 t) = transport_ok t"
  by (simp_all add: transport_ok_def)

lemma send_loop_frame [simp]:
  "t_peer_keys (fst (send_loop io now dst fs t)) = t_peer_keys t" "t_inbox (fst (send_loop io now dst fs t)) = t_inbox t"
  "t_signing_key (fst (send_loop io now dst fs t)) = t_signing_key t" "t_seen (fst (send_loop io now dst fs t)) = t_seen t"
  "t_reasm (fst (send_loop io now dst fs t)) = t_reasm t"
  by (induction io now dst fs t rule: send_loop.induct) (simp_all add: Let_def)

lemma transport_send_frame [simp]:
  "t_peer_keys (fst (transport_send io rnd now pkt dst t)) = t_peer_keys t" "t_inbox (fst (transport_send io rnd now pkt dst t)) = t_inbox t"
  "t_signing_key (fst (transport_send io rnd now pkt dst t)) = t_signing_key t" "t_seen (fst (transport_send io rnd now pkt dst t)) = t_seen t"
  "t_reasm (fst (transport_send io rnd now pkt dst t)) = t_reasm t"
  by (simp_all add: transport_send_def split: res.split)

lemma send_poisoned_eq: "\<exists>out. fst (send_poisoned io rnd pkt dst t) = t\<lparr>t_sent := t_sent t @ out\<rparr> \<and> length out \<le> 1"
  by (auto simp: send_poisoned_def Let_def intro: exI [of _ "[]"] split: res.split list.split)

lemma sort_sends_Cons:
  "sort_sends io rnd now p ((pkt, dst) # out) t =
     (let (t1, res) = (if p then send_poisoned io (rnd 0) pkt dst t else transport_send io (rnd 0) now pkt dst t)
      in if res = Panic then (t1, False) else sort_sends io (\<lambda>k. rnd (Suc k)) now p out t1)"
  by (auto split: res.split prod.split)

lemma sort_sends_ok:
  "transport_ok t \<Longrightarrow> transport_ok (fst (sort_sends io rnd now p out t)) \<and>
     t_peer_keys (fst (sort_sends io rnd now p out t)) = t_peer_keys t \<and> t_inbox (fst (sort_sends io rnd now p out t)) = t_inbox t"
proof (induction out arbitrary: t rnd)
  case (Cons x out)
  obtain pkt dst where x: "x = (pkt, dst)" by (cases x)
  define s where "s = (if p then send_poisoned io (rnd 0) pkt dst t else transport_send io (rnd 0) now pkt dst t)"
  have "transport_ok (fst s) \<and> t_peer_keys (fst s) = t_peer_keys t \<and> t_inbox (fst s) = t_inbox t"
    using Cons.prems send_poisoned_eq [of io "rnd 0" pkt dst t] by (auto simp: s_def transport_send_ok)
  then show ?case
    using Cons.IH [of "fst s" "\<lambda>k. rnd (Suc k)"] unfolding x sort_sends_Cons s_def [symmetric] by (simp add: case_prod_beta Let_def)
qed simp

lemma sort_acks_eq: "\<exists>out. sort_acks C acks t = t\<lparr>t_sent := t_sent t @ out\<rparr> \<and> length out \<le> length acks"
proof (induction C acks t rule: sort_acks.induct)
  case (2 C i dst acks t)
  then obtain out where "sort_acks C ((i, dst) # acks) t =
      (transport_confirm C i dst t)\<lparr>t_sent := t_sent (transport_confirm C i dst t) @ out\<rparr>" "length out \<le> length acks" by auto
  then show ?case by (auto simp: transport_confirm_def intro: exI [of _ "_ # out"] split: option.split)
qed (simp add: exI [of _ "[]"])

lemma sort_turn_ok: "threads_ok n \<Longrightarrow> threads_ok (sort_turn C io rnd now n)"
proof -
  assume n: "threads_ok n"
  obtain t alive where s: "sort_sends io rnd now (n_poisoned n) (rt_out (n_rt n)) (n_tp n) = (t, alive)" by fastforce
  have t: "transport_ok t" "t_peer_keys t = t_peer_keys (n_tp n)"
    using n sort_sends_ok [of "n_tp n" io rnd now "n_poisoned n" "rt_out (n_rt n)"] s by (auto simp: threads_ok_def)
  obtain acked where a: "sort_acks C (rt_acks (n_rt n)) t = t\<lparr>t_sent := t_sent t @ acked\<rparr>" using sort_acks_eq by blast
  have p: "rt_peer_keys (sort_packet pkt d r) = rt_peer_keys r" for pkt d and r :: "'a runtime"
    by (auto simp: sort_packet_def split: payload_tag.split)
  show ?thesis using n s t
    by (auto simp: sort_turn_def threads_ok_def Let_def a p split: list.split)
qed

lemma put_tp_ok: "threads_ok n \<Longrightarrow> transport_ok t \<Longrightarrow> threads_ok (put_tp t n)"
  by (simp add: put_tp_def threads_ok_def runtime_ok_def transport_ok_def)

lemma node_datagram_ok: "threads_ok n \<Longrightarrow> threads_ok (node_datagram C now buf s n)"
proof -
  assume n: "threads_ok n"
  have "transport_ok t" if "on_datagram C now buf s (n_tp n) = Ok t" for t
    using on_datagram_ok [OF _ that] n by (simp add: threads_ok_def)
  moreover have "threads_ok (n\<lparr>n_recv := False, n_poisoned := b\<rparr>)" "threads_ok (n\<lparr>n_recv := False\<rparr>)" for b
    using n by (simp_all add: threads_ok_def)
  ultimately show ?thesis using n put_tp_ok by (auto simp: node_datagram_def split: res.split)
qed

lemma node_timeout_ok: "threads_ok n \<Longrightarrow> threads_ok (node_timeout now n)"
proof -
  have "t_peer_keys (on_timeout now t) = t_peer_keys t" for t by (simp add: on_timeout_def case_prod_beta)
  then show "threads_ok n \<Longrightarrow> ?thesis" by (auto simp: node_timeout_def threads_ok_def on_timeout_ok)
qed

lemma node_recv_error_ok: "threads_ok n \<Longrightarrow> threads_ok (node_recv_error n)"
  by (simp add: node_recv_error_def threads_ok_def)

lemma put_rt_ok: "threads_ok n \<Longrightarrow> runtime_step N C (n_rt n) r \<Longrightarrow> threads_ok (put_rt r n)"
proof -
  assume n: "threads_ok n" and "runtime_step N C (n_rt n) r"
  then have "runtime_ok r" using runtime.step_inv unfolding threads_ok_def by blast
  then show ?thesis using n by (simp add: put_rt_def threads_ok_def transport_ok_def runtime_ok_def)
qed

lemma node_bind_ok: "threads_ok (node_bind i addr k x draws)"
proof -
  have "rt_peer_keys (runtime_bind i addr k x draws :: 'a runtime) = []" "t_peer_keys (transport_bind k []) = []"
    by (simp_all add: runtime_bind_def transport_bind_def)
  then show ?thesis by (simp add: threads_ok_def node_bind_def runtime_bind_ok transport_bind_ok)
qed

interpretation threads: machine node_start "node_step N C" threads_ok for N C
proof
  show "threads_ok n" if "node_start n" for n :: "'a node"
    using that by (auto simp: node_start_def node_bind_ok)
next
  fix n n' :: "'a node"
  assume ok: "threads_ok n" and "node_step N C n n'"
  from this(2) show "threads_ok n'"
    by cases (use ok in \<open>simp_all add: put_rt_ok sort_turn_ok node_datagram_ok node_timeout_ok node_recv_error_ok\<close>)
qed

section \<open>From one node's queue to the other's pile\<close>

lemma with_ack_required_flags [simp]:
  "flags_contains (hflags (header (with_ack_required p))) f \<longleftrightarrow> f = AckRequired \<or> flags_contains (hflags (header p)) f"
proof -
  have "hflags (header (with_ack_required p)) = flags_set (hflags (header p)) AckRequired"
    by (simp add: with_ack_required_def flags_set_def flags_from_int_def flags_to_int_def)
  then show ?thesis by auto
qed

text \<open>The datagrams of a packet, and what the other side's application gets of them.\<close>

definition wire :: "(nat \<Rightarrow> u128) \<Rightarrow> packet \<Rightarrow> bytes list" where
  "wire rnd pkt =
     (if n_chunks pkt \<le> 1 then [packet_serialize (with_ack_required pkt)]
      else map (fragment_datagram rnd pkt) [0..<n_chunks pkt])"

definition arrived :: "packet \<Rightarrow> packet" where
  "arrived pkt = (if n_chunks pkt \<le> 1 then with_ack_required pkt else pkt)"

lemma arrived_header: "\<exists>h. arrived pkt = pkt\<lparr>header := h\<rparr> \<and> pid h = pid (header pkt)"
  by (rule exI [of _ "header (arrived pkt)"]) (cases pkt, simp add: arrived_def with_ack_required_def)

lemma send_loop_all:
  "\<exists>pend. send_loop (\<lambda>_. True) now dst fs t =
     (t\<lparr>t_sent := t_sent t @ map (\<lambda>f. (packet_serialize (with_ack_required f), dst)) fs, t_pending := pend\<rparr>, Ok ())"
proof (induction fs arbitrary: t)
  case (Cons f fs)
  let ?t = "t\<lparr>t_sent := t_sent t @ [(packet_serialize (with_ack_required f), dst)],
    t_pending := AList.update (pid (header f)) \<lparr>serialized = packet_serialize (with_ack_required f), dest = dst, retries = 0, last_sent = now\<rparr> (t_pending t)\<rparr>"
  show ?case using Cons [of ?t] by (simp add: Let_def)
next
  case Nil
  show ?case by (rule exI [of _ "t_pending t"]) simp
qed

lemma split_wire:
  "n_chunks pkt \<le> 255 \<Longrightarrow> \<exists>fs. split_packet rnd pkt = Ok fs \<and> map (\<lambda>f. packet_serialize (with_ack_required f)) fs = wire rnd pkt"
  by (auto simp: split_packet_eq wire_def fragment_datagram_def)

lemma transport_send_wire:
  assumes "n_chunks pkt \<le> 255"
  shows "\<exists>pend. transport_send (\<lambda>_. True) rnd now pkt dst t =
    (t\<lparr>t_sent := t_sent t @ map (\<lambda>bs. (bs, dst)) (wire rnd pkt), t_pending := pend\<rparr>, Ok ())"
proof -
  obtain fs where fs: "split_packet rnd pkt = Ok fs" "wire rnd pkt = map (\<lambda>f. packet_serialize (with_ack_required f)) fs"
    using split_wire [OF assms] by metis
  then show ?thesis using send_loop_all [of now dst fs t] by (simp add: transport_send_def comp_def)
qed

text \<open>A node at rest: all threads run, nothing waits between them.\<close>

definition idle :: "'hs node \<Rightarrow> bool" where
  "idle n \<longleftrightarrow> n_recv n \<and> n_sort n \<and> \<not> n_poisoned n \<and> rt_out (n_rt n) = [] \<and> rt_acks (n_rt n) = [] \<and>
     t_inbox (n_tp n) = [] \<and> t_peer_keys (n_tp n) = rt_peer_keys (n_rt n)"

text \<open>A turn puts the datagrams of the one packet that waits on the wire.\<close>

lemma sort_turn_sends:
  assumes "n_sort n" and "\<not> n_poisoned n" and "t_inbox (n_tp n) = []" and "n_chunks pkt \<le> 255"
    and "rt_out r = [(pkt, dst)]" and "rt_acks r = []"
  shows "t_sent (n_tp (sort_turn C (\<lambda>_. True) rnd now (put_rt r n))) =
    t_sent (n_tp n) @ map (\<lambda>bs. (bs, dst)) (wire (rnd 0) pkt)"
proof -
  let ?t = "(n_tp n)\<lparr>t_peer_keys := rt_peer_keys r\<rparr>"
  obtain pend where "transport_send (\<lambda>_. True) (rnd 0) now pkt dst ?t =
      (?t\<lparr>t_sent := t_sent ?t @ map (\<lambda>bs. (bs, dst)) (wire (rnd 0) pkt), t_pending := pend\<rparr>, Ok ())"
    using transport_send_wire [OF assms(4), of "rnd 0" now dst ?t] by blast
  then show ?thesis using assms by (simp add: sort_turn_def put_rt_def)
qed

lemma node_datagrams_Ok:
  "on_datagrams C s ds (n_tp n) = Ok t \<Longrightarrow> n_recv n \<Longrightarrow> n_sort n \<Longrightarrow> t_peer_keys (n_tp n) = rt_peer_keys (n_rt n) \<Longrightarrow>
     node_datagrams C s ds n = put_tp t n"
proof (induction C s ds n rule: node_datagrams.induct)
  case (2 C s now buf ds n)
  then obtain t1 where 1: "on_datagram C now buf s (n_tp n) = Ok t1" "on_datagrams C s ds t1 = Ok t" by (auto simp: res_simps)
  then have "node_datagram C now buf s n = put_tp t1 n" using 2 by (simp add: node_datagram_def)
  then show ?case using 2 1(2) by (simp add: put_tp_def)
qed (simp add: put_tp_def)

lemma repeats_dropped:
  "map_of (t_seen t) (pid (header pkt)) = Some t0 \<Longrightarrow> fragment_id (payload pkt) = 0 \<Longrightarrow> \<not> flags_contains (hflags (header pkt)) Ack \<Longrightarrow>
     \<forall>(now, buf) \<in> set ds. buf = packet_serialize pkt \<and> duration_since now t0 < DEDUP_TTL \<Longrightarrow> on_datagrams C s ds t = Ok t"
  by (induction ds) (auto simp: on_datagram_def accept_packet_def is_duplicate_def)

definition within_dedup :: "(instant \<times> bytes) list \<Rightarrow> bool" where
  "within_dedup ds \<longleftrightarrow> (\<forall>(t, _) \<in> set ds. \<forall>(t', _) \<in> set ds. duration_since t' t < DEDUP_TTL)"

lemma fragment_datagram_inj: "n_chunks pkt \<le> 255 \<Longrightarrow> inj_on (fragment_datagram rnd pkt) {..<n_chunks pkt}"
proof (rule inj_onI)
  fix i j
  assume n: "n_chunks pkt \<le> 255" and ij: "i \<in> {..<n_chunks pkt}" "j \<in> {..<n_chunks pkt}"
    and "fragment_datagram rnd pkt i = fragment_datagram rnd pkt j"
  then have "with_ack_required (fragment rnd pkt i) = with_ack_required (fragment rnd pkt j)"
    unfolding fragment_datagram_def using packet_roundtrip by (metis res.inject(1))
  then have "payload (fragment rnd pkt i) = payload (fragment rnd pkt j)" by (metis payload_with_ack(1))
  then have "(of_nat i :: u8) = of_nat j" by (simp add: fragment_def payload_new_fragment_def)
  then show "i = j" using n ij by (simp add: of_nat_u8_eq)
qed

text \<open>
  The datagrams of one packet arrive from one address, each at least once, in any order: the packet
  lands once in the inbox.
\<close>

lemma packet_arrives:
  assumes n: "n_chunks pkt \<le> 255" and id: "n_chunks pkt \<le> 1 \<or> pid (header pkt) \<noteq> 0" "fragment_id (payload pkt) = 0"
    and ack: "\<not> flags_contains (hflags (header pkt)) Ack"
    and new: "map_of (t_reasm t) (pid (header pkt), s) = None" "map_of (t_seen t) (pid (header pkt)) = None"
    and ds: "snd ` set ds = set (wire rnd pkt)" "within_dedup ds"
  shows "\<exists>t'. on_datagrams C s ds t = Ok t' \<and> t_inbox t' = t_inbox t @ [(arrived pkt, s)] \<and> t_peer_keys t' = t_peer_keys t"
proof (cases "n_chunks pkt \<le> 1")
  case True
  let ?p = "with_ack_required pkt"
  have all: "\<forall>(now, buf) \<in> set ds. buf = packet_serialize ?p" using ds(1) True by (force simp: wire_def)
  obtain now buf ds' where d: "ds = (now, buf) # ds'" using ds(1) True by (cases ds) (auto simp: wire_def)
  let ?t = "t\<lparr>t_seen := remember now (pid (header pkt)) (t_seen t), t_inbox := t_inbox t @ [(?p, s)]\<rparr>"
  have "on_datagram C now buf s t = Ok ?t"
    using all d id new ack by (simp add: on_datagram_def accept_packet_def is_duplicate_def)
  moreover have "on_datagrams C s ds' ?t = Ok ?t"
    by (rule repeats_dropped [where pkt = ?p and ?t0.0 = now])
      (use all d id ack ds(2) in \<open>auto simp: within_dedup_def\<close>)
  ultimately show ?thesis using True by (simp add: d arrived_def)
next
  case False
  define evs where "evs = map (\<lambda>(now, buf). (now, inv_into {..<n_chunks pkt} (fragment_datagram rnd pkt) buf)) ds"
  have im: "snd ` set ds = fragment_datagram rnd pkt ` {..<n_chunks pkt}" using ds(1) False by (auto simp: wire_def)
  have pre: "fragment_datagram rnd pkt (inv_into {..<n_chunks pkt} (fragment_datagram rnd pkt) buf) = buf \<and>
      inv_into {..<n_chunks pkt} (fragment_datagram rnd pkt) buf < n_chunks pkt" if "(now, buf) \<in> set ds" for now buf
  proof -
    have "buf \<in> fragment_datagram rnd pkt ` {..<n_chunks pkt}" using im that by force
    then show ?thesis using f_inv_into_f inv_into_into by (metis lessThan_iff)
  qed
  have e: "map (\<lambda>(now, i). (now, fragment_datagram rnd pkt i)) evs = ds"
    unfolding evs_def map_map using pre by (intro map_idI) auto
  have "snd ` set evs = inv_into {..<n_chunks pkt} (fragment_datagram rnd pkt) ` snd ` set ds"
    by (force simp: evs_def)
  then have cover: "{..<n_chunks pkt} \<subseteq> {} \<union> snd ` set evs"
    unfolding im using inv_into_image_cancel [OF fragment_datagram_inj [OF n]] by simp
  have "\<forall>(now, i) \<in> set evs. i < n_chunks pkt \<and> (\<forall>(now', _) \<in> set evs. duration_since now' now < DEDUP_TTL)"
    using pre ds(2) by (fastforce simp: evs_def within_dedup_def)
  moreover have "holds_parts pkt s {} (t_reasm t)" using new(1) by (simp add: holds_parts_def)
  moreover have "\<not> {..<n_chunks pkt} \<subseteq> {}" using False by (simp add: lessThan_empty_iff)
  ultimately obtain t' where "on_datagrams C s ds t = Ok t'" "t_peer_keys t' = t_peer_keys t"
    "t_inbox t' = t_inbox t @ (if {..<n_chunks pkt} \<subseteq> {} \<union> snd ` set evs then [(pkt, s)] else [])"
    using fragments_deliver [OF n _ ack, of s "{}" t evs C rnd] new(2) id(1) False unfolding e by blast
  then show ?thesis using cover False by (auto simp: arrived_def)
qed

lemma runtime_same:
  "rt_out r = [] \<Longrightarrow> rt_acks r = [] \<Longrightarrow> r\<lparr>rt_out := [], rt_acks := []\<rparr> = r" "k = rt_peer_keys r \<Longrightarrow> r\<lparr>rt_peer_keys := k\<rparr> = r"
  by (cases r, simp)+

text \<open>What receiving leaves alone.\<close>

lemma accept_packet_quiet:
  "accept_packet C now pkt s t = Ok t' \<Longrightarrow> t_sent t' = t_sent t \<and> t_signing_key t' = t_signing_key t \<and> set (t_pending t') \<subseteq> set (t_pending t)"
  by (auto simp: accept_packet_def res_simps AList.delete_eq split: if_splits)

lemma on_datagram_quiet:
  assumes "on_datagram C now buf s t = Ok t'"
  shows "t_sent t' = t_sent t \<and> t_signing_key t' = t_signing_key t \<and> set (t_pending t') \<subseteq> set (t_pending t)"
proof -
  obtain p r where "t' = t \<or> t' = t\<lparr>t_reasm := r\<rparr> \<or> accept_packet C now p s t = Ok t' \<or> accept_packet C now p s (t\<lparr>t_reasm := r\<rparr>) = Ok t'"
    using assms by (auto simp: on_datagram_def res_simps Let_def split: res.splits if_splits option.splits)
  then show ?thesis using accept_packet_quiet by fastforce
qed

lemma on_datagrams_key: "on_datagrams C s ds t = Ok t' \<Longrightarrow> t_signing_key t' = t_signing_key t"
proof (induction C s ds t rule: on_datagrams.induct)
  case (2 C s now buf ds t)
  then show ?case using on_datagram_quiet by (fastforce simp: res_simps)
qed simp

text \<open>The whole way: sent in a turn of one node, on the pile after a turn of the other.\<close>

lemma packet_crosses:
  assumes a: "n_sort a" "\<not> n_poisoned a" "t_inbox (n_tp a) = []" "rt_out r = [(pkt, dst)]" "rt_acks r = []"
    and b: "idle b"
    and pkt: "n_chunks pkt \<le> 255" "n_chunks pkt \<le> 1 \<or> pid (header pkt) \<noteq> 0" "fragment_id (payload pkt) = 0" "\<not> flags_contains (hflags (header pkt)) Ack"
    and new: "map_of (t_reasm (n_tp b)) (pid (header pkt), s) = None" "map_of (t_seen (n_tp b)) (pid (header pkt)) = None"
    and ds: "snd ` set ds = fst ` set (drop (length (t_sent (n_tp a))) (t_sent (n_tp (sort_turn C (\<lambda>_. True) rnd now (put_rt r a)))))"
      "within_dedup ds"
  shows "\<exists>t. node_datagrams C s ds b = put_tp t b \<and> t_inbox t = [(arrived pkt, s)] \<and> t_peer_keys t = rt_peer_keys (n_rt b) \<and>
    t_signing_key t = t_signing_key (n_tp b) \<and> n_rt (sort_turn C io rnd' now' (node_datagrams C s ds b)) = sort_packet (arrived pkt) s (n_rt b)"
proof -
  have "snd ` set ds = set (wire (rnd 0) pkt)"
    using ds(1) unfolding sort_turn_sends [OF a(1-3) pkt(1) a(4,5)] by (simp add: image_image)
  from packet_arrives [OF pkt new this ds(2)] obtain t where t: "on_datagrams C s ds (n_tp b) = Ok t"
    "t_inbox t = [(arrived pkt, s)]" "t_peer_keys t = t_peer_keys (n_tp b)" using b by (auto simp: idle_def)
  have 1: "node_datagrams C s ds b = put_tp t b" using node_datagrams_Ok [OF t(1)] b by (simp add: idle_def)
  define rb where "rb = n_rt b"
  have q: "rt_out rb = []" "rt_acks rb = []" "t_peer_keys t = rt_peer_keys rb" using b t(3) by (simp_all add: idle_def rb_def)
  have r: "rb\<lparr>rt_peer_keys := t_peer_keys t\<rparr> = rb" "rb\<lparr>rt_out := [], rt_acks := []\<rparr> = rb"
    by (rule runtime_same(2) [OF q(3)], rule runtime_same(1) [OF q(1,2)])
  from r(1) have p: "put_tp t b = b\<lparr>n_tp := t\<rparr>" by (simp add: put_tp_def rb_def)
  have "n_rt (sort_turn C io rnd' now' (b\<lparr>n_tp := t\<rparr>)) = sort_packet (arrived pkt) s rb"
    using b t(2) q(1,2) by (simp add: r(2) sort_turn_def idle_def rb_def [symmetric])
  with p have "n_rt (sort_turn C io rnd' now' (put_tp t b)) = sort_packet (arrived pkt) s (n_rt b)" by (simp add: rb_def)
  then show ?thesis using 1 t b on_datagrams_key [OF t(1)] by (auto simp: idle_def)
qed

section \<open>How long the packets of a message are\<close>

lemma cipher_encrypt_length: "aead_ok C \<Longrightarrow> cipher_encrypt C nonce bs key = Ok (ct, n) \<Longrightarrow> length ct = length bs + 16"
  by (auto simp: cipher_encrypt_def aead_ok_def res_simps)

lemma session_send_length:
  assumes "aead_ok C" and "session_send C rnd i bs s = (s', Ok pkt)"
  shows "length (packet_serialize pkt) = 159 + length bs"
proof -
  have "length ct = length bs + 16 + 32" if "dr_encrypt C rnd (bytes_of k @ bs) q = (r, Ok (n, ct, nonce, pub))" for k :: "32 arr" and q r n ct nonce pub
    using that cipher_encrypt_length [OF assms(1)] by (fastforce simp: dr_encrypt_def res_simps split: res.splits)
  then show ?thesis using assms(2)
    by (auto simp: session_send_def Let_def res_simps split: option.splits prod.splits)
qed

text \<open>A packet as \<open>send_packet\<close> makes it: no flag set, not a fragment, of a given length.\<close>

definition frame_packet :: "nat \<Rightarrow> packet \<Rightarrow> bool" where
  "frame_packet l p \<longleftrightarrow> length (packet_serialize p) = l \<and> fragment_id (payload p) = 0 \<and> flags (hflags (header p)) = 0"

lemma send_packet_size:
  assumes "length (packet_serialize pkt) = l"
  shows "\<exists>p. rt_out (send_packet pkt addr i r) = rt_out r @ [(p, addr)] \<and> frame_packet (79 + l) p \<and>
    rt_acks (send_packet pkt addr i r) = rt_acks r \<and> rt_peer_keys (send_packet pkt addr i r) = rt_peer_keys r"
proof -
  have "length (relay_frame_serialize (relay_frame_new i (packet_serialize pkt))) = 16 + l"
    using assms by (simp add: relay_frame_serialize_def relay_frame_new_def)
  then show ?thesis by (simp add: send_packet_def draw_u128_def draw_def frame_packet_def)
qed

lemma send_all_sizes:
  assumes C: "aead_ok C"
  shows "send_all C inner addr i conns sent r = (r', res) \<Longrightarrow>
    \<exists>outs. rt_out r' = rt_out r @ map (\<lambda>p. (p, addr)) outs \<and> (\<forall>p \<in> set outs. frame_packet (238 + length inner) p) \<and>
      (\<forall>b. res = Ok b \<longrightarrow> b = (sent \<or> outs \<noteq> [])) \<and> rt_acks r' = rt_acks r \<and> rt_peer_keys r' = rt_peer_keys r"
proof (induction conns arbitrary: sent r)
  case (Cons c cs)
  show ?case
  proof (cases "\<exists>s. map_of (rt_sessions r) c = Some s \<and> is_established s")
    case False
    then have "send_all C inner addr i (c # cs) sent r = send_all C inner addr i cs sent r" by (auto split: option.split)
    then show ?thesis using Cons by simp
  next
    case True
    then obtain s where s: "map_of (rt_sessions r) c = Some s" "is_established s" by blast
    obtain r1 nonce r2 n where d: "draw r = (r1, nonce)" "draw_u128 r1 = (r2, n)" by (metis prod.exhaust)
    obtain s' out where s': "session_send C (arr_of (take 12 (bytes_of nonce))) n inner s = (s', out)" by fastforce
    define r3 where "r3 = r2\<lparr>rt_sessions := AList.update c s' (rt_sessions r2)\<rparr>"
    have same: "rt_out r3 = rt_out r" "rt_acks r3 = rt_acks r" "rt_peer_keys r3 = rt_peer_keys r"
      using d by (auto simp: r3_def draw_def draw_u128_def)
    show ?thesis
    proof (cases out)
      case (Ok pkt)
      have "length (packet_serialize pkt) = 159 + length inner" using session_send_length [OF C] s' Ok by blast
      from send_packet_size [OF this, of addr i r3] obtain p where p: "rt_out (send_packet pkt addr i r3) = rt_out r3 @ [(p, addr)]"
        "frame_packet (238 + length inner) p" "rt_acks (send_packet pkt addr i r3) = rt_acks r3"
        "rt_peer_keys (send_packet pkt addr i r3) = rt_peer_keys r3" by auto
      have "send_all C inner addr i cs True (send_packet pkt addr i r3) = (r', res)"
        using Cons.prems s d s' Ok by (simp add: Let_def r3_def)
      from Cons.IH [OF this] obtain outs where "rt_out r' = rt_out r @ map (\<lambda>p. (p, addr)) (p # outs)"
        "\<forall>q \<in> set (p # outs). frame_packet (238 + length inner) q" "\<forall>b. res = Ok b \<longrightarrow> b"
        "rt_acks r' = rt_acks r" "rt_peer_keys r' = rt_peer_keys r" using p same by auto
      then show ?thesis by blast
    next
      case (Err e)
      then show ?thesis using Cons.prems s d s' same by (auto simp: Let_def r3_def intro!: exI [of _ "[]"])
    next
      case Panic
      then show ?thesis using Cons.prems s d s' same by (auto simp: Let_def r3_def intro!: exI [of _ "[]"])
    qed
  qed
qed (auto intro!: exI [of _ "[]"])

text \<open>A text of \<open>l\<close> bytes makes packets of \<open>l + 338\<close>.\<close>

lemma send_message_sizes:
  assumes "aead_ok C" and "send_message C msg pk r = (r', Ok ())"
  shows "\<exists>addr outs. outs \<noteq> [] \<and> rt_out r' = rt_out r @ map (\<lambda>p. (p, addr)) outs \<and>
    (\<forall>p \<in> set outs. frame_packet (338 + length (content msg)) p) \<and> rt_acks r' = rt_acks r \<and> rt_peer_keys r' = rt_peer_keys r"
proof -
  obtain r1 key r2 rnd where d: "draw r = (r1, key)" "draw r1 = (r2, rnd)" by (metis prod.exhaust)
  have same: "rt_out r2 = rt_out r" "rt_acks r2 = rt_acks r" "rt_peer_keys r2 = rt_peer_keys r"
    using d by (auto simp: draw_def)
  from assms(2) d obtain addr conns ct nonce where
    ct: "cipher_encrypt C (arr_of (take 12 (bytes_of rnd))) (message_bytes msg) key = Ok (ct, nonce)"
    and s: "send_all C (inner_of key nonce ct) addr (derive_id C pk) conns False r2 = (r', Ok True)"
    by (auto simp: send_message_def message_serialize_bytes split: option.splits res.splits prod.splits if_splits)
  have "length (message_bytes msg) = length (content msg) + 40"
    by (simp add: message_bytes_def message_serialize_def)
  then have "length (inner_of key nonce ct) + 238 = 338 + length (content msg)"
    using cipher_encrypt_length [OF assms(1) ct] by (simp add: inner_of_def)
  then show ?thesis using send_all_sizes [OF assms(1) s] same by auto
qed

lemma n_chunks_frame: "frame_packet l p \<Longrightarrow> n_chunks p = (l + 1199) div 1200"
  by (simp add: frame_packet_def n_chunks_def)

section \<open>Threads that have died\<close>

text \<open>What the pending packets of a transport can still make it send.\<close>

definition copies :: "transport \<Rightarrow> (bytes \<times> socket_addr) set" where
  "copies t = (\<lambda>(i, e). (serialized e, dest e)) ` set (t_pending t)"

lemma retransmit_copies:
  "set (snd (retransmit now m)) \<subseteq> (\<lambda>(i, e). (serialized e, dest e)) ` set m \<and>
     (\<lambda>(i, e). (serialized e, dest e)) ` set (fst (retransmit now m)) \<subseteq> (\<lambda>(i, e). (serialized e, dest e)) ` set m"
proof (induction m)
  case (Cons p m)
  then show ?case by (cases p) (auto simp: case_prod_beta Let_def)
qed simp

text \<open>
  Without its sorting thread a node sends copies of what is pending and nothing else, and without the
  receive thread not even these.
\<close>

definition silent :: "'hs node \<Rightarrow> 'hs node \<Rightarrow> bool" where
  "silent n m \<longleftrightarrow> \<not> n_sort m \<and> set (t_sent (n_tp m)) \<subseteq> set (t_sent (n_tp n)) \<union> copies (n_tp n) \<and>
     copies (n_tp m) \<subseteq> copies (n_tp n) \<and> (\<not> n_recv n \<longrightarrow> \<not> n_recv m \<and> t_sent (n_tp m) = t_sent (n_tp n))"

lemma silent_datagram: "silent n m \<Longrightarrow> silent n (node_datagram C now buf s m)"
proof -
  assume m: "silent n m"
  have "copies t \<subseteq> copies (n_tp m)" "t_sent t = t_sent (n_tp m)" if "on_datagram C now buf s (n_tp m) = Ok t" for t
    using on_datagram_quiet [OF that] by (auto simp: copies_def)
  then show ?thesis using m by (fastforce simp: node_datagram_def silent_def put_tp_def split: res.split)
qed

lemma silent_timeout: "silent n m \<Longrightarrow> silent n (node_timeout now m)"
proof -
  assume m: "silent n m"
  obtain pend out where r: "retransmit now (t_pending (n_tp m)) = (pend, out)" by fastforce
  then have "set out \<subseteq> copies (n_tp m)" "(\<lambda>(i, e). (serialized e, dest e)) ` set pend \<subseteq> copies (n_tp m)"
    using retransmit_copies [of now "t_pending (n_tp m)"] by (simp_all add: copies_def)
  then show ?thesis using m
    by (cases "n_recv m") (auto simp: node_timeout_def on_timeout_def r silent_def copies_def [of "_\<lparr>t_pending := _, t_sent := _, t_reasm := _\<rparr>"])
qed

lemma silent_step: "silent n m \<Longrightarrow> node_step N C m m' \<Longrightarrow> silent n m'"
proof -
  assume m: "silent n m"
  then have "\<not> n_sort m" by (simp add: silent_def)
  then have "sort_turn C io rnd now m = m" for io rnd now by (simp add: sort_turn_def)
  moreover have "silent n (put_rt r m)" for r using m by (simp add: silent_def put_rt_def copies_def)
  moreover have "silent n (node_recv_error m)" using m by (auto simp: silent_def node_recv_error_def)
  ultimately show "node_step N C m m' \<Longrightarrow> silent n m'"
    using m silent_datagram silent_timeout by (auto elim!: node_stepE)
qed

lemma stays_silent:
  assumes "\<not> n_sort n" and "reach (\<lambda>x. x = n) (node_step N C) m"
  shows "silent n m"
  using assms(2)
proof (induction rule: reach.induct)
  case (reach_init s)
  then show ?case using assms(1) by (simp add: silent_def)
qed (rule silent_step)

lemma split_packet_ne: "split_packet rnd pkt = Ok fs \<Longrightarrow> fs \<noteq> []"
  by (auto simp: split_packet_eq split: if_splits)

text \<open>A poisoned lock ends the sorting thread at the first packet to send, after one datagram at most.\<close>

lemma sort_sends_poisoned:
  assumes "out \<noteq> []"
  shows "\<not> snd (sort_sends (\<lambda>_. True) rnd now True out t) \<and>
    length (t_sent (fst (sort_sends (\<lambda>_. True) rnd now True out t))) \<le> Suc (length (t_sent t))"
proof -
  obtain pkt dst out' where "out = (pkt, dst) # out'" using assms by (cases out) auto
  then show ?thesis using split_packet_ne [of "rnd 0" pkt]
    by (auto simp: send_poisoned_def Let_def split_packet_eq neq_Nil_conv split: list.splits)
qed

lemma poisoned_stays:
  assumes "\<not> n_recv n" and "n_poisoned n" and "reach (\<lambda>x. x = n) (node_step N C) m"
  shows "\<not> n_recv m \<and> n_poisoned m"
  using assms(3)
proof (induction rule: reach.induct)
  case (reach_step s s')
  from reach_step(2) show ?case
    by (rule node_stepE) (use reach_step(3) in \<open>auto simp: put_rt_def sort_turn_def Let_def node_datagram_def node_timeout_def node_recv_error_def
        split: prod.split list.split\<close>)
qed (use assms(1,2) in simp)

text \<open>A packet that cannot be split ends the sorting thread too.\<close>

lemma sort_sends_unsplittable:
  "(pkt, dst) \<in> set out \<Longrightarrow> \<forall>rnd. split_packet rnd pkt = Panic \<Longrightarrow> \<not> snd (sort_sends io rnd now p out t)"
proof (induction out arbitrary: rnd t)
  case (Cons x out)
  obtain q d where x: "x = (q, d)" by (cases x)
  define s where "s = (if p then send_poisoned io (rnd 0) q d t else transport_send io (rnd 0) now q d t)"
  have "snd s = Panic" if "q = pkt"
    using Cons.prems(2) that by (simp add: s_def send_poisoned_def transport_send_def)
  then show ?case using Cons unfolding x sort_sends_Cons s_def [symmetric] by (auto simp: case_prod_beta Let_def)
qed simp

lemma sort_sends_unsplittable_first:
  "\<forall>rnd. split_packet rnd pkt = Panic \<Longrightarrow> sort_sends io rnd now p ((pkt, dst) # out) t = (t, False)"
  by (simp add: send_poisoned_def transport_send_def)

section \<open>Acknowledgement across two nodes\<close>

lemma send_loop_enters:
  "(\<exists>e. map_of (t_pending t) i = Some e \<and> dest e = dst) \<or> i \<in> (\<lambda>f. pid (header f)) ` set fs \<Longrightarrow>
     \<exists>e. map_of (t_pending (fst (send_loop (\<lambda>_. True) now dst fs t))) i = Some e \<and> dest e = dst"
proof (induction fs arbitrary: t)
  case (Cons f fs)
  let ?t = "t\<lparr>t_sent := t_sent t @ [(packet_serialize (with_ack_required f), dst)],
    t_pending := AList.update (pid (header f)) \<lparr>serialized = packet_serialize (with_ack_required f), dest = dst, retries = 0, last_sent = now\<rparr> (t_pending t)\<rparr>"
  have "(\<exists>e. map_of (t_pending ?t) i = Some e \<and> dest e = dst) \<or> i \<in> (\<lambda>f. pid (header f)) ` set fs"
    using Cons.prems by (auto simp: update_conv')
  from Cons.IH [OF this] show ?case by (simp add: Let_def)
qed simp

text \<open>The ids under which a packet waits for its acks.\<close>

definition awaited :: "(nat \<Rightarrow> u128) \<Rightarrow> packet \<Rightarrow> u128 set" where
  "awaited rnd pkt = (if n_chunks pkt \<le> 1 then {pid (header pkt)} else rnd ` {..<n_chunks pkt})"

lemma transport_send_enters:
  assumes "n_chunks pkt \<le> 255" and "i \<in> awaited rnd pkt"
  shows "\<exists>e. map_of (t_pending (fst (transport_send (\<lambda>_. True) rnd now pkt dst t))) i = Some e \<and> dest e = dst"
proof -
  obtain fs where fs: "split_packet rnd pkt = Ok fs" "(\<lambda>f. pid (header f)) ` set fs = awaited rnd pkt"
    using assms(1) by (cases "n_chunks pkt \<le> 1") (auto simp: split_packet_eq awaited_def fragment_def image_image atLeast0LessThan)
  then show ?thesis using send_loop_enters [of t i dst fs now] assms(2) by (simp add: transport_send_def)
qed

text \<open>The state of the sender after its turn.\<close>

lemma sort_turn_sent_one:
  assumes "n_sort a" and "\<not> n_poisoned a" and "t_inbox (n_tp a) = []" and "n_chunks pkt \<le> 255"
    and "rt_out r = [(pkt, dst)]" and "rt_acks r = []" and a1: "a1 = sort_turn C (\<lambda>_. True) rnd now (put_rt r a)"
  shows "n_sort a1" "n_recv a1 = n_recv a" "t_peer_keys (n_tp a1) = rt_peer_keys r"
    "\<forall>i \<in> awaited (rnd 0) pkt. \<exists>e. map_of (t_pending (n_tp a1)) i = Some e \<and> dest e = dst"
proof -
  let ?t = "(n_tp a)\<lparr>t_peer_keys := rt_peer_keys r\<rparr>"
  obtain t1 where t1: "transport_send (\<lambda>_. True) (rnd 0) now pkt dst ?t = (t1, Ok ())" "t_inbox t1 = []" "t_peer_keys t1 = rt_peer_keys r"
    using transport_send_wire [OF assms(4), of "rnd 0" now dst ?t] assms(3) by auto
  have "a1 = (put_rt r a)\<lparr>n_rt := r\<lparr>rt_out := [], rt_acks := []\<rparr>, n_tp := t1\<rparr>"
    using assms(1-3,5,6) t1 by (simp add: a1 sort_turn_def put_rt_def)
  then show "n_sort a1" "n_recv a1 = n_recv a" "t_peer_keys (n_tp a1) = rt_peer_keys r"
    "\<forall>i \<in> awaited (rnd 0) pkt. \<exists>e. map_of (t_pending (n_tp a1)) i = Some e \<and> dest e = dst"
    using assms(1) t1 transport_send_enters [OF assms(4), of _ "rnd 0" now dst ?t] by (auto simp: put_rt_def)
qed

text \<open>A turn with nothing to send but acks.\<close>

lemma sort_turn_acks:
  assumes "n_sort n" and "rt_out r = []"
  shows "t_sent (n_tp (sort_turn C io rnd now (put_rt r n))) =
    t_sent (sort_acks C (rt_acks r) ((n_tp n)\<lparr>t_peer_keys := rt_peer_keys r\<rparr>))"
  using assms by (simp add: sort_turn_def put_rt_def Let_def split: list.split)

lemma put_tp_turn:
  assumes "idle b" and "t_inbox t = [x]"
  shows "n_tp (sort_turn C io rnd now (put_tp t b)) = t\<lparr>t_inbox := []\<rparr>" "n_sort (sort_turn C io rnd now (put_tp t b))"
  using assms by (simp_all add: sort_turn_def put_tp_def idle_def Let_def split: prod.split)

section \<open>Example nodes\<close>

text \<open>A node at rest around a given runtime.\<close>

definition at_rest :: "'hs runtime \<Rightarrow> 32 arr option \<Rightarrow> 'hs node" where
  "at_rest r key = \<lparr>n_rt = r\<lparr>rt_out := [], rt_acks := []\<rparr>, n_tp = transport_bind key (rt_peer_keys r),
     n_recv = True, n_sort = True, n_poisoned = False\<rparr>"

lemma at_rest_simps [simp]:
  "idle (at_rest r key)" "n_recv (at_rest r key)" "n_sort (at_rest r key)" "\<not> n_poisoned (at_rest r key)"
  "t_inbox (n_tp (at_rest r key)) = []" "t_sent (n_tp (at_rest r key)) = []" "t_seen (n_tp (at_rest r key)) = []"
  "t_reasm (n_tp (at_rest r key)) = []" "t_signing_key (n_tp (at_rest r key)) = key"
  "n_rt (at_rest r key) = r\<lparr>rt_out := [], rt_acks := []\<rparr>"
  by (simp_all add: at_rest_def idle_def transport_bind_def reassembler_new_def)

lemma demo_linked:
  "\<exists>a b c. linked demo_crypto (demo_key 11, n_rt (at_rest a ka)) (demo_key 12, n_rt (at_rest b kb) :: demo_noise_state runtime) c \<and>
     rt_relay_pile b = [] \<and> rt_message_pile b = [] \<and> rt_received_keys b = [] \<and> rt_msgs b = [] \<and>
     map_option (x_pub demo_crypto) (session_secret (n_rt (at_rest b kb)) c) \<noteq> Some (x_pub demo_crypto (next_draw (n_rt (at_rest b kb)) 0))"
proof -
  have f: "x_pub demo_crypto (next_draw (fst (demo_pair 11)) 5) \<noteq> x_pub demo_crypto (next_draw (fst (demo_pair 11)) 1)"
    using demo_pair_fresh(1) [of 11] by auto
  have b0: "rt_received_keys (snd (demo_pair 11)) = []" "rt_msgs (snd (demo_pair 11)) = []" by (simp_all add: demo_pair_def)
  from connect_links [OF demo_noise_ok demo_crypto_ok demo_pair_ready [of 11] demo_cert_user demo_pair_new(1) f demo_pair_new(2-5),
      of undefined undefined 0]
  obtain a b c where l: "linked demo_crypto (demo_key 11, a) (demo_key 12, b :: demo_noise_state runtime) c" "session_secret b c = Some (next_draw (snd (demo_pair 11)) 0)"
    "rt_drawn b = rt_drawn (snd (demo_pair 11)) + 4" "rt_draws b = rt_draws (snd (demo_pair 11))"
    "rt_relay_pile b = []" "rt_message_pile b = []" "rt_received_keys b = []" "rt_msgs b = []" unfolding b0 by blast
  have "next_draw (n_rt (at_rest b kb)) 0 = next_draw (snd (demo_pair 11)) 4" "session_secret (n_rt (at_rest b kb)) c = session_secret b c"
    using l(3,4) by (simp_all add: next_draw_def session_secret_def)
  moreover have "linked demo_crypto (demo_key 11, n_rt (at_rest a ka)) (demo_key 12, n_rt (at_rest b kb)) c"
    using l(1) by (simp add: linked_def half_link_def)
  ultimately show ?thesis using l demo_pair_fresh(2) [of 11]
    by (intro exI [of _ a] exI [of _ b] exI [of _ c]) simp
qed

section \<open>Properties\<close>

text \<open>
  C33. In every reachable state of a node, whatever datagrams arrive, whatever is called and whichever
  thread has died: the sessions, connections and peers of the runtime are linked and its routing table is
  well formed, at most 1024 packet ids are remembered, no pending packet has been retried more than 5
  times, both sides see the same keys, and a poisoned lock means that the receive thread is dead.
\<close>

theorem node_invariant:
  assumes "reach node_start (node_step N C) n"
  shows "links_ok (rt_sessions (n_rt n)) (rt_conn_to_pk (n_rt n)) (rt_pk_to_conn (n_rt n)) \<and> rt_ok (rt_routing (n_rt n)) \<and>
    length (t_seen (n_tp n)) \<le> 1024 \<and> (\<forall>i e. map_of (t_pending (n_tp n)) i = Some e \<longrightarrow> unat (retries e) \<le> 5) \<and>
    t_peer_keys (n_tp n) = rt_peer_keys (n_rt n) \<and> distinct (map fst (rt_peer_keys (n_rt n))) \<and> (n_poisoned n \<longrightarrow> \<not> n_recv n)"
  using threads.reach_inv [OF assms]
  by (auto simp: threads_ok_def runtime_ok_def transport_ok_def MAX_SEEN_def MAX_RETRIES_def word_le_nat_alt hm_ok_def)

theorem node_invariant_witness:
  "length (t_seen (n_tp (node_datagram demo_crypto (Instant 1) [1] demo_peer
     (node_bind (NodeID (demo_key 1)) demo_peer None (demo_key 1) (\<lambda>_. demo_key 2) :: demo_noise_state node)))) \<le> 1024"
proof -
  let ?n = "node_bind (NodeID (demo_key 1)) demo_peer None (demo_key 1) (\<lambda>_. demo_key 2) :: demo_noise_state node"
  have "node_start ?n" unfolding node_start_def by blast
  then have "reach node_start (node_step demo_noise demo_crypto) (node_datagram demo_crypto (Instant 1) [1] demo_peer ?n)"
    by (blast intro: ns_datagram)
  from node_invariant [OF this] show ?thesis by blast
qed

text \<open>
  C3. A message over real transports, datagram by datagram: \<open>send_message\<close>, a turn of the sender's sorting
  thread, the datagrams it sent arriving at the other node at least once each, in any order and with any
  repetition, a turn of that node's sorting thread, which leaves nothing in the transport's inbox, and a round of its
  runtime: the application gets the message exactly once, for every text of up to 305662 bytes.
\<close>

theorem message_over_transports:
  assumes "crypto_ok C" and "seals_all C" and "linked C (ma, n_rt a) (mb, n_rt b) c" and "idle a" and "idle b"
    and "message_ok msg" and "length (content msg) \<le> 305662" and "send_message C msg mb (n_rt a) = (r, out)"
    and "rt_relay_pile (n_rt b) = []" and "rt_message_pile (n_rt b) = []"
    and "map_option (x_pub C) (session_secret (n_rt b) c) \<noteq> Some (x_pub C (next_draw (n_rt b) 0))"
    and "map_of (rt_received_keys (n_rt b)) (sha256 C (bytes_of ma @ bytes_of (next_draw (n_rt a) 0))) = None"
    and "i = pid (header (fst (last (rt_out r))))" and "i \<noteq> 0 \<or> length (content msg) \<le> 862"
    and "map_of (t_reasm (n_tp b)) (i, s) = None" and "map_of (t_seen (n_tp b)) i = None"
    and "snd ` set ds = fst ` set (drop (length (t_sent (n_tp a))) (t_sent (n_tp (sort_turn C (\<lambda>_. True) rnd now (put_rt r a)))))"
    and "within_dedup ds"
  shows "out = Ok () \<and> t_inbox (n_tp (sort_turn C io rnd' now' (node_datagrams C s ds b))) = [] \<and>
    (\<exists>r1 r2. tick_relay C (n_rt (sort_turn C io rnd' now' (node_datagrams C s ds b))) = Ok r1 \<and>
    tick_message C t unix r1 = Ok r2 \<and> rt_msgs r2 = rt_msgs (n_rt b) @ [(msg, ma)])"
proof -
  have aead: "aead_ok C" using assms(1) by (simp add: crypto_ok_def)
  note del = exchange_delivers [OF assms(1-3,6,9-12)]
  from del obtain a' b' where "exchange C msg mb undefined s t unix (n_rt a, n_rt b) = Ok (a', b')" by blast
  then have out: "out = Ok ()" using assms(8) by (cases out) (auto simp: exchange_def)
  from del obtain a' outer addr where "send_message C msg mb (n_rt a) = (a', Ok ())" "rt_out a' = rt_out (n_rt a) @ [(outer, addr)]"
    using assms(8) out by (fastforce simp: exchange_def res_simps)
  then have ro: "rt_out r = [(outer, addr)]" using assms(4,8) by (simp add: idle_def)
  from send_message_sizes [OF aead, of msg mb "n_rt a" r] assms(8) out ro assms(4) have f: "frame_packet (338 + length (content msg)) outer"
    and acks: "rt_acks r = []" by (auto simp: idle_def map_eq_Cons_conv)
  have n: "n_chunks outer \<le> 255" "n_chunks outer \<le> 1 \<or> pid (header outer) \<noteq> 0"
    using assms(7,13,14) ro by (auto simp: n_chunks_frame [OF f])
  have plain: "fragment_id (payload outer) = 0" "\<not> flags_contains (hflags (header outer)) Ack"
    using f by (simp_all add: frame_packet_def flags_contains_def)
  have i: "i = pid (header outer)" using assms(13) ro by simp
  have "\<exists>tb. node_datagrams C s ds b = put_tp tb b \<and> t_inbox tb = [(arrived outer, s)] \<and>
      n_rt (sort_turn C io rnd' now' (node_datagrams C s ds b)) = sort_packet (arrived outer) s (n_rt b)"
    using packet_crosses [OF _ _ _ ro acks assms(5) n plain, of a s ds C rnd now io rnd' now'] assms(4,15-18) unfolding i
    by (auto simp: idle_def)
  then obtain tb where tb: "node_datagrams C s ds b = put_tp tb b" "t_inbox tb = [(arrived outer, s)]"
    and arr: "n_rt (sort_turn C io rnd' now' (node_datagrams C s ds b)) = sort_packet (arrived outer) s (n_rt b)" by blast
  obtain h where h: "arrived outer = outer\<lparr>header := h\<rparr>" using arrived_header by blast
  from del obtain a' b' where e: "exchange C msg mb h s t unix (n_rt a, n_rt b) = Ok (a', b')" "rt_msgs b' = rt_msgs (n_rt b) @ [(msg, ma)]"
    by blast
  moreover have "t_inbox (n_tp (sort_turn C io rnd' now' (node_datagrams C s ds b))) = []"
    unfolding tb(1) put_tp_turn(1) [OF assms(5) tb(2)] by simp
  ultimately show ?thesis using out arr assms(8) ro by (auto simp: exchange_def res_simps h)
qed

theorem message_over_transports_witness:
  "\<exists>(a :: demo_noise_state node) (b :: demo_noise_state node) r r1 r2. idle a \<and> idle b \<and> send_message demo_crypto demo_message (demo_key 12) (n_rt a) = (r, Ok ()) \<and>
     (let sent = map fst (drop (length (t_sent (n_tp a))) (t_sent (n_tp (sort_turn demo_crypto (\<lambda>_. True) (\<lambda>_ _. 9) (Instant 1) (put_rt r a)))))
      in tick_relay demo_crypto (n_rt (sort_turn demo_crypto (\<lambda>_. False) (\<lambda>_ _. 0) (Instant 3)
           (node_datagrams demo_crypto demo_peer (map (Pair (Instant 2)) (sent @ sent)) b))) = Ok r1) \<and>
     tick_message demo_crypto (Instant 4) 0 r1 = Ok r2 \<and> rt_msgs r2 = [(demo_message, demo_key 11)]"
proof -
  from demo_linked [of None None] obtain a b c where l:
    "linked demo_crypto (demo_key 11, n_rt (at_rest a None)) (demo_key 12, n_rt (at_rest b None) :: demo_noise_state runtime) c"
    and p: "rt_relay_pile (n_rt (at_rest b None)) = []" "rt_message_pile (n_rt (at_rest b None)) = []"
      "rt_received_keys (n_rt (at_rest b None)) = []" "rt_msgs (n_rt (at_rest b None)) = []"
    and f: "map_option (x_pub demo_crypto) (session_secret (n_rt (at_rest b None)) c) \<noteq> Some (x_pub demo_crypto (next_draw (n_rt (at_rest b None)) 0))"
    by auto
  let ?a = "at_rest a None" and ?b = "at_rest b None"
  obtain r out where s: "send_message demo_crypto demo_message (demo_key 12) (n_rt ?a) = (r, out)" by fastforce
  define sent where "sent = map fst (drop (length (t_sent (n_tp ?a))) (t_sent (n_tp (sort_turn demo_crypto (\<lambda>_. True) (\<lambda>_ _. 9) (Instant 1) (put_rt r ?a)))))"
  define ds where "ds = map (Pair (Instant 2)) (sent @ sent)"
  have "snd ` set ds = fst ` set (drop (length (t_sent (n_tp ?a))) (t_sent (n_tp (sort_turn demo_crypto (\<lambda>_. True) (\<lambda>_ _. 9) (Instant 1) (put_rt r ?a)))))"
    by (simp only: ds_def sent_def set_map set_append image_image Un_absorb snd_conv image_ident)
  moreover have "within_dedup ds" by (auto simp: ds_def within_dedup_def duration_since_def DEDUP_TTL_def from_secs_def)
  moreover have "length (content demo_message) = 2" by (simp add: demo_message_def message_new_def)
  ultimately have "out = Ok () \<and> t_inbox (n_tp (sort_turn demo_crypto (\<lambda>_. False) (\<lambda>_ _. 0) (Instant 3) (node_datagrams demo_crypto demo_peer ds ?b))) = [] \<and>
    (\<exists>r1 r2. tick_relay demo_crypto (n_rt (sort_turn demo_crypto (\<lambda>_. False) (\<lambda>_ _. 0) (Instant 3)
      (node_datagrams demo_crypto demo_peer ds ?b))) = Ok r1 \<and> tick_message demo_crypto (Instant 4) 0 r1 = Ok r2 \<and>
      rt_msgs r2 = rt_msgs (n_rt ?b) @ [(demo_message, demo_key 11)])"
    using p by (intro message_over_transports [OF demo_crypto_ok demo_seals_all l _ _ demo_message_ok _ s p(1,2) f _ refl]) simp_all
  then obtain r1 r2 where r: "out = Ok ()" "tick_relay demo_crypto (n_rt (sort_turn demo_crypto (\<lambda>_. False) (\<lambda>_ _. 0) (Instant 3)
      (node_datagrams demo_crypto demo_peer ds ?b))) = Ok r1" "tick_message demo_crypto (Instant 4) 0 r1 = Ok r2"
    "rt_msgs r2 = [(demo_message, demo_key 11)]" unfolding p(4) by auto
  with s have "send_message demo_crypto demo_message (demo_key 12) (n_rt ?a) = (r, Ok ())" by simp
  show ?thesis
    unfolding Let_def
    by (rule exI [of _ ?a], rule exI [of _ ?b], rule exI [of _ r], rule exI [of _ r1], rule exI [of _ r2])
      (intro conjI at_rest_simps(1) r(2-4) [unfolded ds_def sent_def] \<open>send_message _ _ _ (n_rt ?a) = (r, Ok ())\<close>)
qed

text \<open>
  C13. Only packets that fit in one datagram are acknowledged. A relay frame for the receiver crosses the two
  transports and the receiver's \<open>tick_relay\<close> handles it; when it was one datagram, the receiver's next
  turn sends an ack and the ack clears the sender's pending entry; when it was fragmented, the
  receiver sends nothing at all and the sender will send every fragment 5 times more.
\<close>

theorem acknowledged_iff_one_datagram:
  assumes "ed_ok C" and "n_sort a" and "\<not> n_poisoned a" and "n_recv a" and "t_inbox (n_tp a) = []"
    and "rt_out r = [(pkt, dst)]" and "rt_acks r = []" and "idle b"
    and "frame_packet l pkt" and "n_chunks pkt \<le> 255" and "n_chunks pkt \<le> 1 \<or> pid (header pkt) \<noteq> 0" and "frame_for C mb inner pkt"
    and "rt_master_pubkey (n_rt b) = Some mb" and "rt_relay_fwd (n_rt b) \<noteq> None" and "rt_relay_pile (n_rt b) = []"
    and "tag (payload inner) \<in> {DhtOperation, Handshake, Message}" and "t_signing_key (n_tp b) = Some key"
    and "map_of (t_reasm (n_tp b)) (pid (header pkt), s) = None" and "map_of (t_seen (n_tp b)) (pid (header pkt)) = None"
    and "map_of (rt_peer_keys r) dst \<in> {None, Some (ed_pub C key)}"
    and "a1 = sort_turn C (\<lambda>_. True) rnd now (put_rt r a)" and "snd ` set ds = fst ` set (drop (length (t_sent (n_tp a))) (t_sent (n_tp a1)))"
    and "within_dedup ds" and "b1 = sort_turn C (\<lambda>_. True) rnd' now' (node_datagrams C s ds b)"
  shows "\<exists>rb. tick_relay C (n_rt b1) = Ok rb \<and>
    (let sent = drop (length (t_sent (n_tp b1))) (t_sent (n_tp (sort_turn C (\<lambda>_. True) rnd'' now'' (put_rt rb b1))))
     in if n_chunks pkt \<le> 1
        then \<exists>ack. sent = [(ack, s)] \<and> map_of (t_pending (n_tp a1)) (pid (header pkt)) \<noteq> None \<and>
               map_of (t_pending (n_tp (node_datagram C t ack dst a1))) (pid (header pkt)) = None
        else sent = [] \<and> (\<forall>i < n_chunks pkt. map_of (t_pending (n_tp a1)) (rnd 0 i) \<noteq> None))"
proof -
  have plain: "fragment_id (payload pkt) = 0" "\<not> flags_contains (hflags (header pkt)) Ack" "\<not> flags_contains (hflags (header pkt)) AckRequired"
    using assms(9) by (simp_all add: frame_packet_def flags_contains_def)
  obtain h where h: "arrived pkt = pkt\<lparr>header := h\<rparr>" "pid h = pid (header pkt)" using arrived_header by blast
  from packet_crosses [OF assms(2,3,5,6,7,8,10,11) plain(1,2) assms(18,19) assms(22) [unfolded assms(21)] assms(23), of "\<lambda>_. True" rnd' now']
  obtain u where u: "node_datagrams C s ds b = put_tp u b" "t_inbox u = [(arrived pkt, s)]"
    "n_rt b1 = sort_packet (arrived pkt) s (n_rt b)" "t_signing_key u = t_signing_key (n_tp b)" unfolding assms(24) by blast
  have b1: "n_sort b1" "t_signing_key (n_tp b1) = Some key"
    using put_tp_turn [OF assms(8) u(2)] assms(17) unfolding assms(24) u(1) by (simp_all add: u(4))
  define rb where "rb = confirm_if_required (arrived pkt) s (sort_packet inner s (n_rt b))"
  have rb: "tick_relay C (n_rt b1) = Ok rb"
    unfolding u(3) rb_def h(1) by (rule tick_relay_unwraps [OF frame_for_header [OF assms(12)] assms(13-16)])
  have out: "rt_out rb = []" "rt_acks rb = (if n_chunks pkt \<le> 1 then [(pid (header pkt), s)] else [])"
    using assms(8) plain(3) by (auto simp: rb_def confirm_if_required_def confirm_def sort_packet_def idle_def arrived_def split: payload_tag.split)
  note a1 = sort_turn_sent_one [OF assms(2,3,5,10,6,7,21)]
  let ?sent = "drop (length (t_sent (n_tp b1))) (t_sent (n_tp (sort_turn C (\<lambda>_. True) rnd'' now'' (put_rt rb b1))))"
  show ?thesis
  proof (cases "n_chunks pkt \<le> 1")
    case True
    let ?ack = "packet_serialize (ack_packet C key (pid (header pkt)))"
    obtain e where e: "map_of (t_pending (n_tp a1)) (pid (header pkt)) = Some e" "dest e = dst" using a1(4) True by (auto simp: awaited_def)
    have "?sent = [(?ack, s)]" using b1 out True by (simp add: sort_turn_acks transport_confirm_def)
    moreover obtain t' where "on_datagram C t ?ack dst (n_tp a1) = Ok t'" "t_pending t' = AList.delete (pid (header pkt)) (t_pending (n_tp a1))"
      using confirm_clears_pending [OF assms(1) b1(2), of "pid (header pkt)" s ?ack "n_tp a1" e dst t] e a1(3) assms(20) b1(2)
      by (auto simp: transport_confirm_def)
    then have "map_of (t_pending (n_tp (node_datagram C t ?ack dst a1))) (pid (header pkt)) = None"
      using a1(1,2) assms(4) by (simp add: node_datagram_def put_tp_def)
    ultimately show ?thesis using rb e True by (auto simp: Let_def)
  next
    case False
    have "?sent = []" using b1 out False by (simp add: sort_turn_acks)
    moreover have "\<forall>i < n_chunks pkt. map_of (t_pending (n_tp a1)) (rnd 0 i) \<noteq> None" using a1(4) False by (fastforce simp: awaited_def)
    ultimately show ?thesis using rb False by (auto simp: Let_def)
  qed
qed

text \<open>A relay frame for the user 12 around a message packet with the given data.\<close>

definition demo_frame :: "bytes \<Rightarrow> packet" where
  "demo_frame d = packet_new 0 7 (payload_new RelayFrame
     (relay_frame_serialize (relay_frame_new (derive_id demo_crypto (demo_key 12)) (packet_serialize (packet_new 0 1 (payload_new Message d))))))"

definition demo_handled :: "bytes \<Rightarrow> demo_noise_state node \<times> demo_noise_state node \<times> demo_noise_state node res" where
  "demo_handled d =
     (let a = sort_turn demo_crypto (\<lambda>_. True) (\<lambda>_ i. of_nat (100 + i)) (Instant 1)
            (put_rt ((n_rt (at_rest (demo_runtime 11 1 20) None))\<lparr>rt_out := [(demo_frame d, V4 zero_arr 2)]\<rparr>) (at_rest (demo_runtime 11 1 20) None));
          b = sort_turn demo_crypto (\<lambda>_. True) (\<lambda>_ _. 0) (Instant 3)
            (node_datagrams demo_crypto (V4 zero_arr 1) (map (Pair (Instant 2) \<circ> fst) (t_sent (n_tp a))) (at_rest (demo_runtime 12 2 60) (Some (demo_key 2))))
      in (a, b, and_then (tick_relay demo_crypto (n_rt b)) (\<lambda>r. Ok (sort_turn demo_crypto (\<lambda>_. True) (\<lambda>_ _. 0) (Instant 4) (put_rt r b)))))"

theorem acknowledged_iff_one_datagram_witness:
  "\<exists>a b b' a' c c'. demo_handled [1] = (a, b, Ok b') \<and> length (drop (length (t_sent (n_tp b))) (t_sent (n_tp b'))) = 1 \<and>
     demo_handled (replicate 1200 1) = (a', c, Ok c') \<and> drop (length (t_sent (n_tp c))) (t_sent (n_tp c')) = []"
proof -
  have "\<exists>a b b'. demo_handled d = (a, b, Ok b') \<and>
      length (drop (length (t_sent (n_tp b))) (t_sent (n_tp b'))) = (if n_chunks (demo_frame d) \<le> 1 then 1 else 0)"
    if n: "n_chunks (demo_frame d) \<le> 255" for d
  proof -
    let ?a = "at_rest (demo_runtime 11 1 20) None" and ?b = "at_rest (demo_runtime 12 2 60) (Some (demo_key 2))"
    let ?r = "(n_rt ?a)\<lparr>rt_out := [(demo_frame d, V4 zero_arr 2)]\<rparr>"
    define a1 where "a1 = sort_turn demo_crypto (\<lambda>_. True) (\<lambda>_ i. of_nat (100 + i)) (Instant 1) (put_rt ?r ?a)"
    define ds where "ds = map (Pair (Instant 2) \<circ> fst) (t_sent (n_tp a1))"
    define b1 where "b1 = sort_turn demo_crypto (\<lambda>_. True) (\<lambda>_ _. 0) (Instant 3) (node_datagrams demo_crypto (V4 zero_arr 1) ds ?b)"
    have f: "frame_packet (length (packet_serialize (demo_frame d))) (demo_frame d)" "pid (header (demo_frame d)) = 7"
      "frame_for demo_crypto (demo_key 12) (packet_new 0 1 (payload_new Message d)) (demo_frame d)"
      by (simp_all add: frame_packet_def demo_frame_def frame_for_def)
    have ed: "ed_ok demo_crypto" using demo_crypto_ok by (simp add: crypto_ok_def)
    have ds: "snd ` set ds = fst ` set (drop (length (t_sent (n_tp ?a))) (t_sent (n_tp a1)))" "within_dedup ds"
      by (auto simp: ds_def image_image within_dedup_def duration_since_def DEDUP_TTL_def from_secs_def)
    have k: "rt_peer_keys (demo_runtime 11 1 20) = []"
      by (simp add: demo_runtime_def enable_relay_def set_device_cert_def set_master_pubkey_def runtime_bind_def)
    obtain rb where rb: "tick_relay demo_crypto (n_rt b1) = Ok rb"
      "let sent = drop (length (t_sent (n_tp b1))) (t_sent (n_tp (sort_turn demo_crypto (\<lambda>_. True) (\<lambda>_ _. 0) (Instant 4) (put_rt rb b1))))
       in if n_chunks (demo_frame d) \<le> 1
          then \<exists>ack. sent = [(ack, V4 zero_arr 1)] \<and> map_of (t_pending (n_tp a1)) (pid (header (demo_frame d))) \<noteq> None \<and>
               map_of (t_pending (n_tp (node_datagram demo_crypto (Instant 5) ack (V4 zero_arr 2) a1))) (pid (header (demo_frame d))) = None
          else sent = [] \<and> (\<forall>i < n_chunks (demo_frame d). map_of (t_pending (n_tp a1)) (of_nat (100 + i)) \<noteq> None)"
      using acknowledged_iff_one_datagram [OF ed _ _ _ _ _ _ _ f(1) n _ f(3) _ _ _ _ _ _ _ _ a1_def ds b1_def, of "V4 zero_arr 2" "demo_key 2" "\<lambda>_ _. 0" "Instant 4" "Instant 5"] f(2) k
      by auto
    then show ?thesis unfolding demo_handled_def a1_def [symmetric] ds_def [symmetric] b1_def [symmetric] Let_def
      by (auto simp del: length_drop split: if_splits)
  qed
  note one = this
  have "n_chunks (demo_frame [1]) = 1" "n_chunks (demo_frame (replicate 1200 1)) = 2"
    by (simp_all only: n_chunks_def length_packet_serialize demo_frame_def packet_new_simps payload_new_simps relay_frame_serialize_def
        relay_frame_new_def relay_frame.simps length_append length_be_bytes length_replicate) simp_all
  then show ?thesis using one [of "[1]"] one [of "replicate 1200 1"] by auto
qed

text \<open>
  C20. One short ack silences a node for good: sent from the address of a pending packet, it kills the receive
  thread and poisons its lock; whatever happens then, the first turn of the sorting thread with a packet
  to send puts out one datagram at most and kills that thread too, and from there on, whatever arrives
  and is called, the node sends nothing and takes nothing.
\<close>

theorem short_ack_silences_node:
  assumes "n_recv n" and "short_ack (n_tp n) s pkt" and "fragment_id (payload pkt) = 0"
    and "n1 = node_datagram C now (packet_serialize pkt) s n"
    and "reach (\<lambda>x. x = n1) (node_step N C) m" and "n_sort m" and "rt_out (n_rt m) \<noteq> []"
    and "m1 = sort_turn C (\<lambda>_. True) rnd now' m" and "reach (\<lambda>x. x = m1) (node_step N C) k"
  shows "length (t_sent (n_tp m1)) \<le> Suc (length (t_sent (n_tp m))) \<and> \<not> n_sort k \<and> \<not> n_recv k \<and>
    t_sent (n_tp k) = t_sent (n_tp m1)"
proof -
  have "on_datagram C now (packet_serialize pkt) s (n_tp n) = Panic"
    using assms(2,3) by (simp add: on_datagram_def accept_packet_Panic)
  then have "\<not> n_recv n1" "n_poisoned n1" using assms(1,3) by (simp_all add: assms(4) node_datagram_def dies_locked_def)
  from poisoned_stays [OF this assms(5)] have m: "\<not> n_recv m" "n_poisoned m" by simp_all
  obtain t where t: "sort_sends (\<lambda>_. True) rnd now' True (rt_out (n_rt m)) (n_tp m) = (t, False)"
    "length (t_sent t) \<le> Suc (length (t_sent (n_tp m)))"
    using sort_sends_poisoned [OF assms(7), of rnd now' "n_tp m"] by (cases "sort_sends (\<lambda>_. True) rnd now' True (rt_out (n_rt m)) (n_tp m)") auto
  have m1: "\<not> n_sort m1" "\<not> n_recv m1" "t_sent (n_tp m1) = t_sent t"
    using assms(6) m t(1) by (simp_all add: assms(8) sort_turn_def)
  then show ?thesis using stays_silent [OF m1(1) assms(9)] t(2) by (simp add: silent_def)
qed

theorem short_ack_silences_node_witness:
  "\<exists>n m1 :: demo_noise_state node. n_recv n \<and> n_sort n \<and> rt_out (n_rt n) = [(packet_new 0 1 (payload_new Message []), demo_peer)] \<and>
     m1 = sort_turn demo_crypto (\<lambda>_. True) (\<lambda>_ _. 3) (Instant 2)
       (node_datagram demo_crypto (Instant 1) (packet_serialize (packet_new 2 7 (payload_new KeepAlive []))) demo_peer n) \<and>
     \<not> n_sort (node_timeout (Instant 9) m1) \<and> \<not> n_recv (node_timeout (Instant 9) m1)"
proof -
  let ?out = "[(packet_new 0 1 (payload_new Message []), demo_peer)]" and ?pkt = "packet_new 2 7 (payload_new KeepAlive [])"
  let ?n = "(at_rest (demo_runtime 11 1 20) None)\<lparr>n_rt := (demo_runtime 11 1 20)\<lparr>rt_out := ?out\<rparr>, n_tp := demo_sender\<rparr>"
  let ?n1 = "node_datagram demo_crypto (Instant 1) (packet_serialize ?pkt) demo_peer ?n"
  let ?m1 = "sort_turn demo_crypto (\<lambda>_. True) (\<lambda>_ _. 3) (Instant 2) ?n1"
  have a: "short_ack (n_tp ?n) demo_peer ?pkt" by (simp add: short_ack_def demo_sender_def demo_entry_def flags_contains_def)
  then have p: "on_datagram demo_crypto (Instant 1) (packet_serialize ?pkt) demo_peer demo_sender = Panic"
    by (simp add: on_datagram_def accept_packet_Panic)
  have q: "n_sort ?n1" "rt_out (n_rt ?n1) = ?out" using p by (simp_all add: node_datagram_def)
  have n1: "reach (\<lambda>x. x = ?n1) (node_step demo_noise demo_crypto) ?n1" by (rule reach_init) (rule refl)
  have "reach (\<lambda>x. x = ?m1) (node_step demo_noise demo_crypto) (node_timeout (Instant 9) ?m1)"
  proof (rule reach_step)
    show "reach (\<lambda>x. x = ?m1) (node_step demo_noise demo_crypto) ?m1" by (rule reach_init) (rule refl)
  qed (rule ns_timeout)
  from short_ack_silences_node [OF _ a _ refl n1 q(1) _ refl this]
  have "\<not> n_sort (node_timeout (Instant 9) ?m1) \<and> \<not> n_recv (node_timeout (Instant 9) ?m1)" using q(2) by simp
  then show ?thesis by (intro exI [of _ ?n] exI [of _ ?m1]) simp
qed

text \<open>
  C21. A long text ends a node's transport: \<open>send_message\<close> accepts a text of 308063 to 612862 bytes, but
  splitting its packet overflows a \<open>u8\<close> and panics in the sorting thread. No datagram of it is sent, and
  none of any later packet: from there on the node only repeats datagrams that were pending.
\<close>

theorem long_text_ends_transport:
  assumes "aead_ok C" and "308063 \<le> length (content msg)" and "length (content msg) \<le> 612862"
    and "send_message C msg pk (n_rt n) = (r, Ok ())" and "n1 = sort_turn C io rnd now (put_rt r n)"
    and "reach (\<lambda>x. x = n1) (node_step N C) m"
  shows "\<not> n_sort m \<and> set (t_sent (n_tp m)) \<subseteq> set (t_sent (n_tp n1)) \<union> copies (n_tp n1) \<and>
    (n_sort n \<and> rt_out (n_rt n) = [] \<longrightarrow> t_sent (n_tp n1) = t_sent (n_tp n) \<and> copies (n_tp n1) = copies (n_tp n))"
proof -
  from send_message_sizes [OF assms(1,4)] obtain addr p ps where out: "rt_out r = rt_out (n_rt n) @ (p, addr) # map (\<lambda>p. (p, addr)) ps"
    and f: "frame_packet (338 + length (content msg)) p" by (auto simp: neq_Nil_conv)
  define k where "k = n_chunks p"
  have "k = (length (content msg) + 1537) div 1200" using n_chunks_frame [OF f] by (simp add: k_def add.commute)
  then have "258 \<le> k" "k \<le> 511" using assms(2,3) by linarith+
  moreover from this have "k mod 256 = k - 256" by (simp add: le_mod_geq)
  ultimately have panic: "\<forall>rnd. split_packet rnd p = Panic" by (simp add: split_packet_eq k_def [symmetric])
  have dead: "\<not> snd (sort_sends io rnd now (n_poisoned n) (rt_out r) t)" for t
    by (rule sort_sends_unsplittable [where pkt = p and dst = addr]) (use panic out in simp_all)
  have "\<not> n_sort n1"
    using dead [of "(n_tp n)\<lparr>t_peer_keys := rt_peer_keys r\<rparr>"]
    by (auto simp: assms(5) sort_turn_def put_rt_def Let_def split: prod.split)
  from stays_silent [OF this assms(6)] have s: "\<not> n_sort m" "set (t_sent (n_tp m)) \<subseteq> set (t_sent (n_tp n1)) \<union> copies (n_tp n1)"
    by (simp_all add: silent_def)
  have "n_tp n1 = (n_tp n)\<lparr>t_peer_keys := rt_peer_keys r, t_inbox := []\<rparr>" if "n_sort n" "rt_out (n_rt n) = []"
    using that sort_sends_unsplittable_first [OF panic] out by (simp add: assms(5) sort_turn_def put_rt_def)
  then have "n_sort n \<and> rt_out (n_rt n) = [] \<longrightarrow> t_sent (n_tp n1) = t_sent (n_tp n) \<and> copies (n_tp n1) = copies (n_tp n)"
    by (simp add: copies_def)
  with s show ?thesis by blast
qed

definition demo_long :: message where
  "demo_long = message_new 1 2 (replicate 309000 65) None"

lemma demo_long_ok: "message_ok demo_long" "length (content demo_long) = 309000"
proof -
  have c: "content demo_long = replicate 309000 65" "reply_to demo_long = None" by (simp_all only: demo_long_def message_new_def message.simps)
  have "\<forall>b \<in> set (replicate n (65 :: u8)). b < 128" for n by (simp only: set_replicate_conv_if) simp
  from utf8_valid_ascii [OF this] show "message_ok demo_long" unfolding message_ok_def c by simp
  show "length (content demo_long) = 309000" unfolding c by (rule length_replicate)
qed

theorem long_text_ends_transport_witness:
  "\<exists>(n :: demo_noise_state node) r. n_sort n \<and> rt_out (n_rt n) = [] \<and> send_message demo_crypto demo_long (demo_key 12) (n_rt n) = (r, Ok ()) \<and>
     \<not> n_sort (sort_turn demo_crypto (\<lambda>_. True) (\<lambda>_ _. 3) (Instant 2) (put_rt r n)) \<and>
     t_sent (n_tp (sort_turn demo_crypto (\<lambda>_. True) (\<lambda>_ _. 3) (Instant 2) (put_rt r n))) = t_sent (n_tp n)"
proof -
  from demo_linked [of None None] obtain a b c where l:
    "linked demo_crypto (demo_key 11, n_rt (at_rest a None)) (demo_key 12, n_rt (at_rest b None) :: demo_noise_state runtime) c"
    and p: "rt_relay_pile (n_rt (at_rest b None)) = []" "rt_message_pile (n_rt (at_rest b None)) = []"
      "rt_received_keys (n_rt (at_rest b None)) = []"
    and f: "map_option (x_pub demo_crypto) (session_secret (n_rt (at_rest b None)) c) \<noteq> Some (x_pub demo_crypto (next_draw (n_rt (at_rest b None)) 0))"
    by auto
  let ?n = "at_rest a None"
  obtain r out where s: "send_message demo_crypto demo_long (demo_key 12) (n_rt ?n) = (r, out)" by fastforce
  obtain a' b' where "exchange demo_crypto demo_long (demo_key 12) undefined demo_peer (Instant 0) 0 (n_rt ?n, n_rt (at_rest b None)) = Ok (a', b')"
    using exchange_delivers [OF demo_crypto_ok demo_seals_all l demo_long_ok(1) p(1,2) f, of undefined demo_peer "Instant 0" 0] p(3) by auto
  then have out: "out = Ok ()" using s by (cases out) (auto simp: exchange_def)
  let ?m = "sort_turn demo_crypto (\<lambda>_. True) (\<lambda>_ _. 3) (Instant 2) (put_rt r ?n)"
  have aead: "aead_ok demo_crypto" using demo_crypto_ok by (simp add: crypto_ok_def)
  have "reach (\<lambda>x. x = ?m) (node_step demo_noise demo_crypto) ?m" by (rule reach_init) (rule refl)
  from long_text_ends_transport [OF aead _ _ s [unfolded out] refl this]
  have "\<not> n_sort ?m \<and> t_sent (n_tp ?m) = t_sent (n_tp ?n)" unfolding demo_long_ok(2) by simp
  then show ?thesis using s out by (intro exI [of _ ?n] exI [of _ r]) simp
qed

end
