(* ===== verification/Api.thy ===== *)
theory Api
  imports RuntimeInvariant Identity
begin

text \<open>
  api.rs: the client of an application, which owns a runtime, an identity and a storage directory. The
  runtime is shared with a background thread that ticks it: \<open>bg\<close> is what that thread did to it whenever
  the code lets go of the lock. Lemmas: what each operation leaves of the client's invariant, that
  a stored client opens again, and that the application sees everything once.
\<close>

section \<open>The storage directory\<close>

text \<open>
  The directory's files by name, and the names that the file system refuses to write. A refused write
  leaves the file as it was.
\<close>

record disk =
  d_files :: "(string, bytes) hash_map"
  d_refused :: "string set"
  d_creatable :: bool

definition create_dir_all :: "disk \<Rightarrow> unit res" where
  "create_dir_all d = (if d_creatable d then Ok () else Err (Wrap ''cannot create storage dir: {e}'' (Msg ''io error'')))"

definition fs_write :: "string \<Rightarrow> bytes \<Rightarrow> string \<Rightarrow> disk \<Rightarrow> disk \<times> unit res" where
  "fs_write name bs msg d =
     (if name \<in> d_refused d then (d, Err (Wrap msg (Msg ''io error'')))
      else (d\<lparr>d_files := AList.update name bs (d_files d)\<rparr>, Ok ()))"

definition fs_read :: "string \<Rightarrow> string \<Rightarrow> disk \<Rightarrow> bytes res" where
  "fs_read name msg d = ok_or (map_of (d_files d) name) (Wrap msg (Msg ''io error''))"

text \<open>The files of certificates, device lists and registries.\<close>

definition cert_save :: "string \<Rightarrow> device_cert \<Rightarrow> disk \<Rightarrow> disk \<times> unit res" where
  "cert_save name c d = fs_write name (cert_serialize c) ''failed to write device certificate: {e}'' d"

definition cert_open :: "crypto \<Rightarrow> string \<Rightarrow> disk \<Rightarrow> device_cert res" where
  "cert_open C name d = and_then (fs_read name ''failed to read device certificate: {e}'' d) (cert_from_serialized C)"

definition list_save :: "string \<Rightarrow> device_list \<Rightarrow> disk \<Rightarrow> disk \<times> unit res" where
  "list_save name l d = fs_write name (list_serialize l) ''failed to write device list: {e}'' d"

definition list_open :: "crypto \<Rightarrow> string \<Rightarrow> disk \<Rightarrow> device_list res" where
  "list_open C name d = and_then (fs_read name ''failed to read device list: {e}'' d) (list_from_serialized C)"

definition registry_save :: "string \<Rightarrow> relay_registry \<Rightarrow> disk \<Rightarrow> disk \<times> unit res" where
  "registry_save name reg d = fs_write name (registry_serialize reg) ''failed to write relay registry: {e}'' d"

definition registry_open :: "crypto \<Rightarrow> string \<Rightarrow> disk \<Rightarrow> relay_registry res" where
  "registry_open C name d = and_then (fs_read name ''failed to read relay registry: {e}'' d) (registry_from_serialized C)"

declare cert_save_def [simp] cert_open_def [simp] list_save_def [simp] list_open_def [simp] registry_save_def [simp] registry_open_def [simp]

text \<open>One file after another, up to the first error.\<close>

definition and_save :: "disk \<times> unit res \<Rightarrow> (disk \<Rightarrow> disk \<times> unit res) \<Rightarrow> disk \<times> unit res" where
  "and_save x f = (case x of (d, Ok _) \<Rightarrow> f d | (d, e) \<Rightarrow> (d, e))"

section \<open>The client\<close>

record peer_info =
  pi_pk :: "32 arr"
  pi_device_list :: device_list
  pi_conn_ids :: "16 arr list"

text \<open>
  \<open>cl_msgs_read\<close> and \<open>cl_sess_read\<close> count what was received from the two channels of the runtime, and
  \<open>cl_disk\<close> is what is in the client's storage directory.
\<close>

record 'hs client =
  cl_rt :: "'hs runtime"
  cl_our_pk :: "32 arr"
  cl_device_cert :: device_cert
  cl_device_list :: device_list
  cl_registry :: relay_registry
  cl_peers :: "(32 arr, peer_info) hash_map"
  cl_disk :: disk
  cl_seeds :: "socket_addr list"
  cl_msgs_read :: nat
  cl_sess_read :: nat

datatype event =
    MessageReceived "32 arr" bytes
  | SessionEstablished "32 arr" "32 arr"
  | SessionFailed "32 arr" string
  | ContactFound "32 arr"
  | ContactFailed "32 arr" string
  | DeviceListUpdated "32 arr"

definition api_save :: "'hs client \<Rightarrow> 'hs client \<times> unit res" where
  "api_save c =
     (let (d, out) =
        and_save (and_save (and_save (and_save
          (fs_write ''our_pk'' (bytes_of (cl_our_pk c)) ''cannot save our_pk: {e}'' (cl_disk c))
          (cert_save ''device_cert'' (cl_device_cert c)))
          (registry_save ''registry'' (cl_registry c)))
          (list_save ''device_list'' (cl_device_list c)))
          (fs_write ''peer_state'' (save_peer_state (cl_rt c)) ''cannot create peer state: {e}'')
      in (c\<lparr>cl_disk := d\<rparr>, out))"

section \<open>Starting a client\<close>

text \<open>
  What a new process meets: the address its socket is bound to, its stream of random values, the
  random salt and nonce with which it encrypts the keychain.
\<close>

record host =
  h_bound :: "socket_addr res"
  h_draws :: "nat \<Rightarrow> 32 arr"
  h_salt :: "32 arr"
  h_nonce :: "12 arr"

definition keychain_save :: "crypto \<Rightarrow> host \<Rightarrow> string \<Rightarrow> string option \<Rightarrow> keychain \<Rightarrow> disk \<Rightarrow> disk \<times> unit res" where
  "keychain_save C h name password k d =
     (case keychain_serialize C (h_salt h) (h_nonce h) (map_option ascii password) k of
        Ok bs \<Rightarrow> fs_write name bs ''failed to write keychain: {e}'' d
      | Err e \<Rightarrow> (d, Err e)
      | Panic \<Rightarrow> (d, Panic))"

definition keychain_load :: "crypto \<Rightarrow> string \<Rightarrow> string option \<Rightarrow> disk \<Rightarrow> keychain res" where
  "keychain_load C name password d =
     and_then (fs_read name ''failed to read keychain: {e}'' d) (\<lambda>bs. keychain_from_serialized C bs (map_option ascii password))"

text \<open>\<open>Keychain::new\<close>, with the mnemonic that it generates.\<close>

definition keychain_new :: "crypto \<Rightarrow> host \<Rightarrow> string \<Rightarrow> string option \<Rightarrow> (string \<Rightarrow> bytes) \<Rightarrow> disk \<Rightarrow> disk \<times> keychain res" where
  "keychain_new C h name password to_seed d =
     (case keychain_from_mnemonic C to_seed password of
        Ok k \<Rightarrow> (let (d, out) = keychain_save C h name password k d in (d, map_res (\<lambda>_. k) out))
      | Err e \<Rightarrow> (d, Err e)
      | Panic \<Rightarrow> (d, Panic))"

text \<open>The certificate for the keys of a keychain; \<open>VerifyingKey::from_bytes(..).unwrap()\<close> panics on a bad key.\<close>

definition certify :: "crypto \<Rightarrow> master_key_pair \<Rightarrow> keychain \<Rightarrow> device_cert res" where
  "certify C master k =
     (if ed_valid C (k_ed25519_pub k) then Ok (cert_new C master (k_ed25519_pub k) (k_x25519_pub k)) else Panic)"

definition start_runtime :: "crypto \<Rightarrow> host \<Rightarrow> 32 arr \<Rightarrow> keychain \<Rightarrow> device_cert \<Rightarrow> 'hs runtime res" where
  "start_runtime C h our_pk k cert =
     map_res (\<lambda>a. set_device_cert cert (set_master_pubkey our_pk (enable_server
         (runtime_bind (node_from_pubkey (sha256 C) our_pk) a (Some (k_ed25519_priv k)) (k_x25519_priv k) (h_draws h)))))
       (h_bound h)"

definition own_registry :: "crypto \<Rightarrow> 32 arr \<Rightarrow> socket_addr \<Rightarrow> relay_registry res" where
  "own_registry C our_pk a =
     and_then (map_err (Wrap ''invalid relay entry: {e}'') (relay_entry_new C (derive_id C our_pk) our_pk a)) (\<lambda>e.
       Ok (registry_add e registry_new))"

text \<open>What was stored about peers is read if it is there, whatever it is, and the channels are taken.\<close>

definition settle :: "crypto \<Rightarrow> disk \<Rightarrow> 'hs runtime \<Rightarrow> 'hs runtime res" where
  "settle C d r =
     and_then
       (case map_of (d_files d) ''peer_state'' of
          None \<Rightarrow> Ok r
        | Some bs \<Rightarrow> (case load_peer_state C bs r of (r, Panic) \<Rightarrow> Panic | (r, _) \<Rightarrow> Ok r))
       (\<lambda>r. and_then (subscribe r) subscribe_sessions)"

definition client_on :: "'hs runtime \<Rightarrow> 32 arr \<Rightarrow> device_cert \<Rightarrow> device_list \<Rightarrow> relay_registry \<Rightarrow> disk \<Rightarrow> socket_addr list \<Rightarrow> 'hs client" where
  "client_on r our_pk cert l reg d seeds =
     \<lparr>cl_rt = r, cl_our_pk = our_pk, cl_device_cert = cert, cl_device_list = l, cl_registry = reg, cl_peers = [],
      cl_disk = d, cl_seeds = seeds, cl_msgs_read = 0, cl_sess_read = 0\<rparr>"

text \<open>The end of \<open>new\<close> and \<open>from_mnemonic\<close>: the background thread is started and the client is stored.\<close>

definition stored :: "('hs runtime \<Rightarrow> 'hs runtime) \<Rightarrow> 'hs client res \<Rightarrow> disk \<Rightarrow> disk \<times> 'hs client res" where
  "stored bg m d =
     (case m of
        Ok c \<Rightarrow> (let (c, out) = api_save (c\<lparr>cl_rt := bg (cl_rt c)\<rparr>) in (cl_disk c, map_res (\<lambda>_. c) out))
      | Err e \<Rightarrow> (d, Err e)
      | Panic \<Rightarrow> (d, Panic))"

definition api_new ::
    "('hs runtime \<Rightarrow> 'hs runtime) \<Rightarrow> crypto \<Rightarrow> host \<Rightarrow> (string \<Rightarrow> bytes) \<Rightarrow> string option \<Rightarrow> socket_addr list \<Rightarrow> disk \<Rightarrow>
     disk \<times> 'hs client res" where
  "api_new bg C h to_seed password seeds d =
     (case and_then (create_dir_all d) (\<lambda>_.
           and_then (master_new C to_seed) (\<lambda>master.
             map_res (Pair master) (keychain_from_mnemonic C to_seed password))) of
        Err e \<Rightarrow> (d, Err e)
      | Panic \<Rightarrow> (d, Panic)
      | Ok (master, k) \<Rightarrow>
          (case keychain_save C h ''keychain'' password k d of
             (d, Err e) \<Rightarrow> (d, Err e)
           | (d, Panic) \<Rightarrow> (d, Panic)
           | (d, Ok _) \<Rightarrow>
               (let our_pk = m_public_key master in
                stored bg
                  (and_then (certify C master k) (\<lambda>cert.
                   and_then (map_err (Wrap ''failed to add device: {e}'') (add_device C master cert (list_new C master))) (\<lambda>l.
                   and_then (start_runtime C h our_pk k cert) (\<lambda>r.
                   and_then (own_registry C our_pk (rt_address r)) (\<lambda>reg.
                   and_then (settle C d (enable_relay reg r)) (\<lambda>r.
                     Ok (client_on r our_pk cert l reg d seeds)))))))
                  d)))"

definition api_open ::
    "crypto \<Rightarrow> host \<Rightarrow> string option \<Rightarrow> socket_addr list \<Rightarrow> disk \<Rightarrow> 'hs client res" where
  "api_open C h password seeds d =
     and_then (cert_open C ''device_cert'' d) (\<lambda>cert.
     and_then (registry_open C ''registry'' d) (\<lambda>reg.
     and_then (list_open C ''device_list'' d) (\<lambda>l.
     and_then (keychain_load C ''keychain'' password d) (\<lambda>k.
     and_then (fs_read ''our_pk'' ''cannot read our_pk: {e}'' d) (\<lambda>bs.
     and_then (ok_or (try_arr bs) (Msg ''invalid our_pk length'')) (\<lambda>our_pk.
     and_then (start_runtime C h our_pk k cert) (\<lambda>r.
     and_then (settle C d (enable_relay reg r)) (\<lambda>r.
       Ok (client_on r our_pk cert l reg d seeds)))))))))"

section \<open>The operations\<close>

text \<open>
  The retries of \<open>connect\<close> and \<open>from_mnemonic\<close>: \<open>n\<close> attempts are left of five, attempt \<open>i\<close> has the
  windows \<open>wss i\<close>.
\<close>

fun join_retry ::
    "('hs runtime \<Rightarrow> 'hs runtime) \<Rightarrow> socket_addr list \<Rightarrow> (nat \<Rightarrow> window list) \<Rightarrow> nat \<Rightarrow> 'hs runtime \<Rightarrow> ('hs runtime \<times> unit res) option" where
  "join_retry bg seeds wss 0 r = Some (r, Ok ())"
| "join_retry bg seeds wss (Suc n) r =
     (let attempt = 5 - Suc n in
      case join seeds (wss attempt) r of
        None \<Rightarrow> None
      | Some (r, Ok _) \<Rightarrow> Some (r, Ok ())
      | Some (r, Err e) \<Rightarrow>
          if attempt < 4 then join_retry bg seeds wss n (bg r)
          else Some (r, Err (Wrap ''cannot join DHT: {e}'' e))
      | Some (r, Panic) \<Rightarrow> Some (r, Panic))"

text \<open>\<open>find_contact\<close> on our own key: the list that another device published, or else \<open>l\<close>.\<close>

definition latest_list :: "crypto \<Rightarrow> 32 arr \<Rightarrow> device_list \<Rightarrow> window list \<Rightarrow> 'hs runtime \<Rightarrow> ('hs runtime \<times> device_list res) option" where
  "latest_list C our_pk l ws r =
     map_option (\<lambda>(r, found). (r, case found of Ok cr \<Rightarrow> Ok (cr_device_list cr) | Err _ \<Rightarrow> Ok l | Panic \<Rightarrow> Panic))
       (find_contact C our_pk ws r)"

text \<open>Our contact record, published for an hour.\<close>

definition publish_own :: "crypto \<Rightarrow> 32 arr \<Rightarrow> device_list \<Rightarrow> window list \<Rightarrow> 'hs runtime \<Rightarrow> ('hs runtime \<times> unit res) option" where
  "publish_own C our_pk l ws r = publish_contact C l (rt_address r) (derive_id C our_pk) 3600 ws r"

definition add_unless_active :: "crypto \<Rightarrow> master_key_pair \<Rightarrow> device_cert \<Rightarrow> device_list \<Rightarrow> device_list res" where
  "add_unless_active C master cert l =
     (if contains_active l (device_ed25519_pubkey cert) then Ok l
      else map_err (Wrap ''failed to add device: {e}'') (add_device C master cert l))"

definition api_from_mnemonic ::
    "('hs runtime \<Rightarrow> 'hs runtime) \<Rightarrow> crypto \<Rightarrow> host \<Rightarrow> (string \<Rightarrow> bytes) \<Rightarrow> string option \<Rightarrow> socket_addr list \<Rightarrow>
     (nat \<Rightarrow> window list) \<Rightarrow> window list \<Rightarrow> window list \<Rightarrow> disk \<Rightarrow> (disk \<times> 'hs client res) option" where
  "api_from_mnemonic bg C h to_seed password seeds wss fws pws d =
     (case and_then (create_dir_all d) (\<lambda>_.
           and_then (master_from_mnemonic C to_seed password) (\<lambda>master.
             map_res (Pair master) (keychain_from_mnemonic C to_seed password))) of
        Err e \<Rightarrow> Some (d, Err e)
      | Panic \<Rightarrow> Some (d, Panic)
      | Ok (master, k) \<Rightarrow>
          (case keychain_save C h ''keychain'' password k d of
             (d, Err e) \<Rightarrow> Some (d, Err e)
           | (d, Panic) \<Rightarrow> Some (d, Panic)
           | (d, Ok _) \<Rightarrow>
               (let our_pk = m_public_key master in
                case and_then (certify C master k) (\<lambda>cert. map_res (Pair cert) (start_runtime C h our_pk k cert)) of
                  Err e \<Rightarrow> Some (d, Err e)
                | Panic \<Rightarrow> Some (d, Panic)
                | Ok (cert, r) \<Rightarrow>
                    Option.bind (join_retry id seeds wss 5 r) (\<lambda>(r, joined).
                    case joined of
                      Err e \<Rightarrow> Some (d, Err e)
                    | Panic \<Rightarrow> Some (d, Panic)
                    | Ok _ \<Rightarrow>
                        Option.bind (latest_list C our_pk (list_new C master) fws r) (\<lambda>(r, l).
                        case and_then l (add_unless_active C master cert) of
                          Err e \<Rightarrow> Some (d, Err e)
                        | Panic \<Rightarrow> Some (d, Panic)
                        | Ok l \<Rightarrow>
                            Option.bind (publish_own C our_pk l pws r) (\<lambda>(r, published).
                            Some (stored bg
                              (and_then published (\<lambda>_.
                               and_then (own_registry C our_pk (rt_address r)) (\<lambda>reg.
                               and_then (settle C d (enable_relay reg r)) (\<lambda>r.
                                 Ok (client_on r our_pk cert l reg d seeds)))))
                              d)))))))"

definition api_connect ::
    "('hs runtime \<Rightarrow> 'hs runtime) \<Rightarrow> crypto \<Rightarrow> (nat \<Rightarrow> window list) \<Rightarrow> window list \<Rightarrow> 'hs client \<Rightarrow> ('hs client \<times> unit res) option" where
  "api_connect bg C wss pws c =
     Option.bind (join_retry bg (cl_seeds c) wss 5 (cl_rt c)) (\<lambda>(r, joined).
     case joined of
       Ok _ \<Rightarrow>
         map_option (\<lambda>(r, out). (c\<lparr>cl_rt := r\<rparr>, out)) (publish_own C (cl_our_pk c) (cl_device_list c) pws (bg r))
     | e \<Rightarrow> Some (c\<lparr>cl_rt := r\<rparr>, e))"

text \<open>
  What \<open>add_device\<close> and \<open>revoke_device\<close> do with the list once the change \<open>f\<close> is known: fetch, change, bump
  the sequence number, publish, store.
\<close>

definition change_list ::
    "crypto \<Rightarrow> (device_list \<Rightarrow> device_list res) \<Rightarrow> window list \<Rightarrow> window list \<Rightarrow> 'hs client \<Rightarrow> ('hs client \<times> unit res) option" where
  "change_list C f fws pws c =
     Option.bind (latest_list C (cl_our_pk c) (cl_device_list c) fws (cl_rt c)) (\<lambda>(r, l).
     case and_then l (\<lambda>l. and_then (f l) (\<lambda>l. map_res (\<lambda>sq. l\<lparr>sequence := sq\<rparr>) (add_or_panic (sequence l) 1))) of
       Err e \<Rightarrow> Some (c\<lparr>cl_rt := r\<rparr>, Err e)
     | Panic \<Rightarrow> Some (c\<lparr>cl_rt := r\<rparr>, Panic)
     | Ok l \<Rightarrow>
         map_option (\<lambda>(r, published).
           case published of
             Ok _ \<Rightarrow>
               (let (d, out) = list_save ''device_list'' l (cl_disk c)
                in (c\<lparr>cl_rt := r, cl_device_list := l, cl_disk := d\<rparr>, out))
           | e \<Rightarrow> (c\<lparr>cl_rt := r\<rparr>, e))
           (publish_own C (cl_our_pk c) l pws r))"

fun decimal :: "nat \<Rightarrow> string" where
  "decimal n = (if n < 10 then [char_of (48 + n)] else decimal (n div 10) @ [char_of (48 + n mod 10)])"

declare decimal.simps [simp del]

definition device_file :: "nat \<Rightarrow> string" where
  "device_file device_index = ''keychain_'' @ decimal device_index"

definition api_add_device ::
    "crypto \<Rightarrow> host \<Rightarrow> (string \<Rightarrow> bytes) \<Rightarrow> string option \<Rightarrow> window list \<Rightarrow> window list \<Rightarrow> 'hs client \<Rightarrow> ('hs client \<times> unit res) option" where
  "api_add_device C h to_seed password fws pws c =
     (case master_from_mnemonic C to_seed password of
        Err e \<Rightarrow> Some (c, Err e)
      | Panic \<Rightarrow> Some (c, Panic)
      | Ok master \<Rightarrow>
          if m_public_key master \<noteq> cl_our_pk c then Some (c, Err (Msg ''mnemonic does not match this identity''))
          else
            (case keychain_from_mnemonic C to_seed password of
               Err e \<Rightarrow> Some (c, Err e)
             | Panic \<Rightarrow> Some (c, Panic)
             | Ok k \<Rightarrow>
                 (let device_index = length (devices (cl_device_list c));
                      (d, saved) = keychain_save C h (device_file device_index) password k (cl_disk c);
                      c = c\<lparr>cl_disk := d\<rparr>
                  in case and_then saved (\<lambda>_. certify C master k) of
                       Err e \<Rightarrow> Some (c, Err e)
                     | Panic \<Rightarrow> Some (c, Panic)
                     | Ok cert \<Rightarrow> change_list C (add_unless_active C master cert) fws pws c)))"

definition revoke_at :: "crypto \<Rightarrow> master_key_pair \<Rightarrow> nat \<Rightarrow> device_list \<Rightarrow> device_list res" where
  "revoke_at C master i l =
     (if i \<ge> length (devices l) then Err (MsgNats ''device index {index} out of range ({} devices)'' [i, length (devices l)])
      else map_err (Wrap ''failed to remove device: {e}'') (remove_device C master (device_ed25519_pubkey (devices l ! i)) l))"

definition api_revoke_device ::
    "crypto \<Rightarrow> (string \<Rightarrow> bytes) \<Rightarrow> nat \<Rightarrow> string option \<Rightarrow> window list \<Rightarrow> window list \<Rightarrow> 'hs client \<Rightarrow> ('hs client \<times> unit res) option" where
  "api_revoke_device C to_seed i password fws pws c =
     (case master_from_mnemonic C to_seed password of
        Err e \<Rightarrow> Some (c, Err e)
      | Panic \<Rightarrow> Some (c, Panic)
      | Ok master \<Rightarrow>
          if m_public_key master \<noteq> cl_our_pk c then Some (c, Err (Msg ''mnemonic does not match this identity''))
          else change_list C (revoke_at C master i) fws pws c)"

text \<open>The channels are emptied, messages first.\<close>

definition api_poll :: "'hs client \<Rightarrow> 'hs client \<times> event list" where
  "api_poll c =
     (let ms = drop (cl_msgs_read c) (rt_msgs (cl_rt c)); ss = drop (cl_sess_read c) (rt_sess (cl_rt c))
      in (c\<lparr>cl_msgs_read := length (rt_msgs (cl_rt c)), cl_sess_read := length (rt_sess (cl_rt c))\<rparr>,
          map (\<lambda>(msg, sender_pk). MessageReceived sender_pk (content msg)) ms @
          map (\<lambda>(peer_pk, safety). SessionEstablished peer_pk safety) ss))"

text \<open>A handshake with every device of a list, up to the first error.\<close>

fun greet :: "'hs noise \<Rightarrow> crypto \<Rightarrow> user_id \<Rightarrow> device_cert list \<Rightarrow> 'hs runtime \<Rightarrow> 'hs runtime \<times> unit res" where
  "greet N C user [] r = (r, Ok ())"
| "greet N C user (device # ds) r =
     (case enable_session_initiator N (device_x25519_pubkey device) user r of
        (r, Err e) \<Rightarrow> (r, Err e)
      | (r, Panic) \<Rightarrow> (r, Panic)
      | (r, Ok t) \<Rightarrow>
          (case rt_initiate_handshake N C t r of
             (r, Ok _) \<Rightarrow> greet N C user ds r
           | (r, e) \<Rightarrow> (r, e)))"

definition api_contact :: "'hs noise \<Rightarrow> crypto \<Rightarrow> 32 arr \<Rightarrow> window list \<Rightarrow> 'hs client \<Rightarrow> ('hs client \<times> unit res) option" where
  "api_contact N C pk ws c =
     (if \<not> ed_valid C pk then Some (c, Err (Msg ''invalid public key''))
      else
        map_option (\<lambda>(r, found).
          case found of
            Err e \<Rightarrow> (c\<lparr>cl_rt := r\<rparr>, Err e)
          | Panic \<Rightarrow> (c\<lparr>cl_rt := r\<rparr>, Panic)
          | Ok contact \<Rightarrow>
              (case greet N C (UserID pk) (devices (cr_device_list contact)) (set_peer_addr pk (cr_relay_addr contact) r) of
                 (r, Ok _) \<Rightarrow>
                   (c\<lparr>cl_rt := r,
                      cl_peers := AList.update pk \<lparr>pi_pk = pk, pi_device_list = cr_device_list contact, pi_conn_ids = []\<rparr> (cl_peers c)\<rparr>,
                    Ok ())
               | (r, e) \<Rightarrow> (c\<lparr>cl_rt := r\<rparr>, e)))
          (find_contact C pk ws (cl_rt c)))"

text \<open>\<open>i\<close> and \<open>unix\<close> are the id and the time that \<open>Message::new\<close> takes.\<close>

definition api_send :: "crypto \<Rightarrow> u128 \<Rightarrow> u64 \<Rightarrow> 32 arr \<Rightarrow> bytes \<Rightarrow> 'hs client \<Rightarrow> 'hs client \<times> unit res" where
  "api_send C i unix to text c =
     (if map_of (cl_peers c) to = None then (c, Err (Msg ''unknown peer, call contact() first''))
      else
        let (r, out) = send_message C (message_new i unix text None) to (cl_rt c)
        in (c\<lparr>cl_rt := r\<rparr>, out))"

definition api_safety_number :: "crypto \<Rightarrow> 32 arr \<Rightarrow> 'hs client \<Rightarrow> 32 arr res" where
  "api_safety_number C peer c =
     (case find (\<lambda>(_, pk). pk = peer) (active_conn_ids (cl_rt c)) of
        None \<Rightarrow> Err (Msg ''no active session for peer'')
      | Some (conn_id, _) \<Rightarrow>
          ok_or (session_safety_number C conn_id (cl_our_pk c) peer (cl_rt c)) (Msg ''safety number not available''))"

end
