(* ===== verification/ApiState.thy ===== *)
theory ApiState
  imports Api "HOL-Library.Sublist"
begin

text \<open>
  The state of a client over time: what no handler of the runtime changes, the client's invariant, and
  what the application has seen of the two channels.
\<close>

section \<open>What the runtime keeps\<close>

text \<open>
  No handler changes the keys, the certificate or the address of the runtime, and what was put into the
  channels to the application stays there.
\<close>

definition kept :: "'hs runtime \<Rightarrow> 'hs runtime \<Rightarrow> bool" where
  "kept a b \<longleftrightarrow> rt_x25519_priv b = rt_x25519_priv a \<and> rt_ed25519_priv b = rt_ed25519_priv a \<and> rt_address b = rt_address a \<and>
     rt_master_pubkey b = rt_master_pubkey a \<and> rt_device_cert b = rt_device_cert a \<and>
     prefix (rt_msgs a) (rt_msgs b) \<and> prefix (rt_sess a) (rt_sess b)"

lemma kept_refl [simp]: "kept a a"
  by (simp add: kept_def)

lemma kept_trans [trans]: "kept a b \<Longrightarrow> kept b c \<Longrightarrow> kept a c"
  by (auto simp: kept_def)

lemma kept_frame [simp]:
  "kept a (rt_drawn_update f r) = kept a r" "kept a (rt_out_update f1 r) = kept a r"
  "kept a (rt_acks_update f2 r) = kept a r" "kept a (rt_dht_pile_update f5 r) = kept a r"
  "kept a (rt_relay_pile_update f5 r) = kept a r" "kept a (rt_handshake_pile_update f5 r) = kept a r"
  "kept a (rt_message_pile_update f5 r) = kept a r" "kept a (rt_seen_tags_update f6 r) = kept a r"
  "kept a (rt_server_update f7 r) = kept a r" "kept a (rt_client_update f8 r) = kept a r"
  "kept a (rt_routing_update f9 r) = kept a r" "kept a (rt_sessions_update f10 r) = kept a r"
  "kept a (rt_pending_update f11 r) = kept a r" "kept a (rt_conn_to_pk_update f12 r) = kept a r"
  "kept a (rt_pk_to_conn_update f13 r) = kept a r" "kept a (rt_pk_to_addr_update f14 r) = kept a r"
  "kept a (rt_received_keys_update f15 r) = kept a r" "kept a (rt_peer_keys_update f16 r) = kept a r"
  "kept a (rt_relay_fwd_update f17 r) = kept a r" "kept a (rt_msg_rx_update f18 r) = kept a r"
  "kept a (rt_sess_rx_update f18 r) = kept a r"
  by (simp_all add: kept_def)

lemma kept_channels [simp]:
  "kept a r \<Longrightarrow> prefix (rt_msgs r) ms \<Longrightarrow> kept a (r\<lparr>rt_msgs := ms\<rparr>)"
  "kept a r \<Longrightarrow> prefix (rt_sess r) ss \<Longrightarrow> kept a (r\<lparr>rt_sess := ss\<rparr>)"
  by (auto simp: kept_def)

interpretation kept_rt: runtime_frame "kept a" for a
  by unfold_locales (simp_all add: kept_def)

lemma kept_small [simp]: "kept a (set_peer_addr pk ad r) = kept a r" "kept a (learn_key s ses r) = kept a r"
  by (simp_all add: set_peer_addr_def learn_key_def split: option.split)

lemmas kept_draws = kept_rt.draws
lemmas kept_initiator = kept_rt.keeps_initiator
lemmas kept_initiate = kept_rt.keeps_initiate
lemmas kept_send_message = kept_rt.keeps_send
lemmas kept_find_contact = kept_rt.keeps_find_contact
lemmas kept_join = kept_rt.keeps_join
lemmas kept_publish = kept_rt.keeps_publish

lemma kept_adopt [simp]: "kept a r \<Longrightarrow> kept a (adopt_session C c pk s r)"
  by (simp add: adopt_session_def Let_def)

lemma kept_try_complete: "kept a r \<Longrightarrow> try_complete N C u pkt sender r = Ok (r', out) \<Longrightarrow> kept a r'"
  by (auto simp: try_complete_def Let_def kept_draws split: option.splits prod.splits res.splits if_splits)

lemma kept_try_respond: "kept a r \<Longrightarrow> try_respond N C u pkt sender r = Ok (r', out) \<Longrightarrow> kept a r'"
  by (auto simp: try_respond_def Let_def kept_draws split: option.splits prod.splits res.splits if_splits)

lemma kept_tick_handshake:
  assumes ok: "kept a r" and t: "tick_handshake N C u r = Ok r'"
  shows "kept a r'"
proof (cases "rt_handshake_pile r")
  case (Cons ps rest)
  obtain pkt sender where ps: "ps = (pkt, sender)" by (cases ps)
  from t Cons ps obtain r1 out where 1: "try_complete N C u pkt sender (r\<lparr>rt_handshake_pile := rest\<rparr>) = Ok (r1, out)"
    by (auto simp: tick_handshake_def Let_def res_simps)
  have r1: "kept a r1" using kept_try_complete [OF _ 1] ok by simp
  show ?thesis
  proof (cases out)
    case (Some cp)
    then show ?thesis using t Cons ps 1 r1 by (auto simp: tick_handshake_def Let_def split: option.splits prod.splits)
  next
    case None
    show ?thesis
    proof (cases "connection_id (payload pkt) \<in> rt_seen_tags r1")
      case True
      then show ?thesis using t Cons ps 1 None r1 by (simp add: tick_handshake_def Let_def)
    next
      case False
      from t Cons ps 1 None False obtain r2 reply where 2: "try_respond N C u pkt sender r1 = Ok (r2, reply)"
        and r': "r' = confirm_if_required pkt sender (case reply of None \<Rightarrow> r2
          | Some (p, addr, peer_pk) \<Rightarrow> send_packet p addr (derive_id C peer_pk) r2)"
        by (auto simp: tick_handshake_def Let_def res_simps)
      show ?thesis unfolding r' using kept_try_respond [OF r1 2] by (simp split: option.split prod.split)
    qed
  qed
qed (use t ok in \<open>simp add: tick_handshake_def\<close>)

lemma kept_tick:
  assumes "kept a r" and "tick N C now u r = Ok r'"
  shows "kept a r'"
proof -
  from assms(2) obtain r0 r1 r2 where "serve_all now (rt_dht_pile r) r = Ok r0"
    "tick_relay C (r0\<lparr>rt_routing := evict_stale now (rt_routing r0)\<rparr>) = Ok r1"
    "tick_handshake N C u r1 = Ok r2" "tick_message C now u r2 = Ok r'"
    by (auto simp: tick_def tick_server_def res_simps)
  then show ?thesis
    using assms(1) kept_rt.keeps_serve_all kept_rt.keeps_relay kept_tick_handshake kept_rt.keeps_message by (metis kept_frame(11))
qed

lemma kept_greet: "kept a r \<Longrightarrow> kept a (fst (greet N C user ds r))"
proof (induction ds arbitrary: r)
  case (Cons d ds)
  obtain r1 o1 where 1: "enable_session_initiator N (device_x25519_pubkey d) user r = (r1, o1)" by fastforce
  have k1: "kept a r1" using kept_initiator [OF Cons.prems] 1 by (metis fst_conv)
  show ?case
  proof (cases o1)
    case (Ok t)
    obtain r2 o2 where 2: "rt_initiate_handshake N C t r1 = (r2, o2)" by fastforce
    have "kept a r2" using kept_initiate [OF k1] 2 by (metis fst_conv)
    then show ?thesis using Cons.IH 1 Ok 2 by (simp split: res.split)
  qed (use 1 k1 in simp_all)
qed simp

lemma greet_ok: "runtime_ok r \<Longrightarrow> runtime_ok (fst (greet N C user ds r))"
proof (induction ds arbitrary: r)
  case (Cons d ds)
  obtain r1 o1 where 1: "enable_session_initiator N (device_x25519_pubkey d) user r = (r1, o1)" by fastforce
  have k1: "runtime_ok r1" using enable_session_initiator_ok [OF Cons.prems] 1 by (metis fst_conv)
  show ?case
  proof (cases o1)
    case (Ok t)
    obtain r2 o2 where 2: "rt_initiate_handshake N C t r1 = (r2, o2)" by fastforce
    have "runtime_ok r2" using rt_initiate_handshake_ok [OF k1] 2 by (metis fst_conv)
    then show ?thesis using Cons.IH 1 Ok 2 by (simp split: res.split)
  qed (use 1 k1 in simp_all)
qed simp

end
