(* ===== verification/ApiClient.thy ===== *)
theory ApiClient
  imports ApiState
begin

text \<open>
  The client as a state machine: how one starts, what the application can call and what the background
  thread does meanwhile; the invariant of its states, and what the application has seen.
\<close>

section \<open>The background thread\<close>

inductive background :: "'hs noise \<Rightarrow> crypto \<Rightarrow> 'hs runtime \<Rightarrow> 'hs runtime \<Rightarrow> bool" for N C where
  bg_none: "background N C r r"
| bg_arrive: "background N C r r' \<Longrightarrow> background N C r (sort_packet pkt sender r')"
| bg_tick: "background N C r r' \<Longrightarrow> tick N C now unix r' = Ok r'' \<Longrightarrow> background N C r r''"

text \<open>What the code may find whenever it takes the lock again.\<close>

definition bg_ok :: "'hs noise \<Rightarrow> crypto \<Rightarrow> ('hs runtime \<Rightarrow> 'hs runtime) \<Rightarrow> bool" where
  "bg_ok N C bg \<longleftrightarrow> (\<forall>r. background N C r (bg r))"

lemma tick_ok:
  assumes "runtime_ok r" and "tick N C now u r = Ok r'"
  shows "runtime_ok r'"
proof -
  from assms(2) obtain r0 r1 r2 where "tick_server now r = Ok r0" "tick_relay C r0 = Ok r1"
    "tick_handshake N C u r1 = Ok r2" "tick_message C now u r2 = Ok r'"
    by (auto simp: tick_def res_simps)
  then show ?thesis
    using assms(1) tick_server_ok tick_relay_ok tick_handshake_ok tick_message_ok by metis
qed

lemma background_facts: "background N C r r' \<Longrightarrow> kept r r' \<and> (runtime_ok r \<longrightarrow> runtime_ok r')"
  by (induction rule: background.induct) (auto intro: kept_tick tick_ok)

section \<open>The invariant\<close>

text \<open>The keychain in the storage directory opens with the client's password and holds the runtime's keys.\<close>

definition keys_stored :: "crypto \<Rightarrow> string option \<Rightarrow> disk \<Rightarrow> 'hs runtime \<Rightarrow> bool" where
  "keys_stored C pw d r \<longleftrightarrow>
     (\<exists>k. keychain_load C ''keychain'' pw d = Ok k \<and> rt_x25519_priv r = k_x25519_priv k \<and>
        rt_ed25519_priv r = Some (k_ed25519_priv k))"

definition peers_ok :: "crypto \<Rightarrow> (32 arr, peer_info) hash_map \<Rightarrow> bool" where
  "peers_ok C m \<longleftrightarrow> hm_ok m \<and> (\<forall>pk i. map_of m pk = Some i \<longrightarrow> pi_pk i = pk \<and> ed_valid C pk \<and> list_ok C (pi_device_list i))"

definition client_ok :: "crypto \<Rightarrow> string option \<Rightarrow> 'hs client \<Rightarrow> bool" where
  "client_ok C pw c \<longleftrightarrow>
     runtime_ok (cl_rt c) \<and> rt_master_pubkey (cl_rt c) = Some (cl_our_pk c) \<and> rt_device_cert (cl_rt c) = Some (cl_device_cert c) \<and>
     cert_ok C (cl_device_cert c) \<and> list_ok C (cl_device_list c) \<and>
     (\<forall>e \<in> set (registry (cl_registry c)). relay_entry_ok C e) \<and> length (registry (cl_registry c)) < 2 ^ 32 \<and>
     peers_ok C (cl_peers c) \<and> keys_stored C pw (cl_disk c) (cl_rt c) \<and>
     cl_msgs_read c \<le> length (rt_msgs (cl_rt c)) \<and> cl_sess_read c \<le> length (rt_sess (cl_rt c))"

lemma client_ok_runtime: "client_ok C pw c \<Longrightarrow> runtime_ok (cl_rt c)"
  by (simp add: client_ok_def)

lemma client_ok_rt:
  assumes "client_ok C pw c" and "kept (cl_rt c) r" and "runtime_ok r"
  shows "client_ok C pw (c\<lparr>cl_rt := r\<rparr>)"
proof -
  have "length (rt_msgs (cl_rt c)) \<le> length (rt_msgs r)" "length (rt_sess (cl_rt c)) \<le> length (rt_sess r)"
    using assms(2) by (auto simp: kept_def prefix_length_le)
  then show ?thesis using assms by (simp add: client_ok_def kept_def keys_stored_def)
qed

lemma fs_write_other: "fs_write name bs msg d = (d', out) \<Longrightarrow> name' \<noteq> name \<Longrightarrow> map_of (d_files d') name' = map_of (d_files d) name'"
  by (auto simp: fs_write_def update_conv' split: if_splits)

lemma keychain_load_cong: "map_of (d_files d') name = map_of (d_files d) name \<Longrightarrow> keychain_load C name pw d' = keychain_load C name pw d"
  by (simp add: keychain_load_def fs_read_def)

lemma client_ok_disk:
  assumes "client_ok C pw c" and "map_of (d_files d) ''keychain'' = map_of (d_files (cl_disk c)) ''keychain''"
  shows "client_ok C pw (c\<lparr>cl_disk := d\<rparr>)"
  using assms keychain_load_cong [OF assms(2)] by (simp add: client_ok_def keys_stored_def)

text \<open>The files of a client, as one list.\<close>

fun write_files :: "(string \<times> bytes \<times> string) list \<Rightarrow> disk \<Rightarrow> disk \<times> unit res" where
  "write_files [] d = (d, Ok ())"
| "write_files ((name, bs, msg) # fs) d =
     (case fs_write name bs msg d of
        (d, Ok _) \<Rightarrow> write_files fs d
      | (d, e) \<Rightarrow> (d, e))"

definition files_of :: "'hs client \<Rightarrow> (string \<times> bytes \<times> string) list" where
  "files_of c =
     [(''our_pk'', bytes_of (cl_our_pk c), ''cannot save our_pk: {e}''),
      (''device_cert'', cert_serialize (cl_device_cert c), ''failed to write device certificate: {e}''),
      (''registry'', registry_serialize (cl_registry c), ''failed to write relay registry: {e}''),
      (''device_list'', list_serialize (cl_device_list c), ''failed to write device list: {e}''),
      (''peer_state'', save_peer_state (cl_rt c), ''cannot create peer state: {e}'')]"

lemma fs_write_files: "fs_write name bs msg = write_files [(name, bs, msg)]"
  by (rule ext) (auto split: prod.split res.split)

lemma and_save_files: "and_save (write_files fs d) (write_files gs) = write_files (fs @ gs) d"
proof (induction fs arbitrary: d)
  case (Cons f fs)
  then show ?case by (cases f) (auto simp: and_save_def simp flip: Cons.IH split: prod.split res.split)
qed (simp add: and_save_def)

lemma write_files_other:
  "write_files fs d = (d', out) \<Longrightarrow> name \<notin> fst ` set fs \<Longrightarrow> map_of (d_files d') name = map_of (d_files d) name"
proof (induction fs arbitrary: d)
  case (Cons f fs)
  obtain n bs m where f: "f = (n, bs, m)" by (cases f)
  obtain d1 o1 where 1: "fs_write n bs m d = (d1, o1)" by fastforce
  have "map_of (d_files d1) name = map_of (d_files d) name" using fs_write_other [OF 1] Cons.prems(2) f by simp
  then show ?case using Cons.IH [of d1] Cons.prems f 1 by (auto split: res.splits)
qed simp

lemma write_files_ok:
  assumes "write_files fs d = (d', Ok ())" and "distinct (map fst fs)" and "(name, bs, msg) \<in> set fs"
  shows "map_of (d_files d') name = Some bs"
  using assms
proof (induction fs arbitrary: d)
  case (Cons f fs)
  obtain n b m where f: "f = (n, b, m)" by (cases f)
  obtain d1 where 1: "fs_write n b m d = (d1, Ok ())" "write_files fs d1 = (d', Ok ())"
    using Cons.prems(1) f by (auto split: prod.splits res.splits)
  show ?case
  proof (cases "name = n")
    case True
    then have "bs = b" "name \<notin> fst ` set fs" using Cons.prems(2,3) f by (auto simp: image_iff)
    then show ?thesis using write_files_other [OF 1(2), of name] 1(1) True
      by (auto simp: fs_write_def split: if_splits)
  next
    case False
    then show ?thesis using Cons.IH [OF 1(2)] Cons.prems f by auto
  qed
qed simp

lemma api_save_eq: "api_save c = (c\<lparr>cl_disk := fst (write_files (files_of c) (cl_disk c))\<rparr>, snd (write_files (files_of c) (cl_disk c)))"
proof -
  have "cert_save name cert = fs_write name (cert_serialize cert) ''failed to write device certificate: {e}''"
    "registry_save name reg = fs_write name (registry_serialize reg) ''failed to write relay registry: {e}''"
    "list_save name l = fs_write name (list_serialize l) ''failed to write device list: {e}''" for name cert reg l
    by (auto intro!: ext)
  then show ?thesis
    unfolding api_save_def by (simp only: fs_write_files and_save_files) (simp add: files_of_def Let_def case_prod_beta del: write_files.simps)
qed

text \<open>
  What an operation that starts in \<open>c0\<close> leaves: a good client, with the identity, the certificate and
  the registry of \<open>c0\<close>, that has read nothing from the channels.
\<close>

definition client_from :: "crypto \<Rightarrow> string option \<Rightarrow> 'hs client \<Rightarrow> 'hs client \<Rightarrow> bool" where
  "client_from C pw c0 c \<longleftrightarrow> client_ok C pw c \<and> kept (cl_rt c0) (cl_rt c) \<and> cl_our_pk c = cl_our_pk c0 \<and>
     cl_device_cert c = cl_device_cert c0 \<and> cl_registry c = cl_registry c0 \<and>
     cl_msgs_read c = cl_msgs_read c0 \<and> cl_sess_read c = cl_sess_read c0"

lemma client_from_refl: "client_ok C pw c \<Longrightarrow> client_from C pw c c"
  by (simp add: client_from_def)

lemma client_from_ok: "client_from C pw c0 c \<Longrightarrow> client_ok C pw c"
  by (simp add: client_from_def)

lemma client_from_runtime: "client_from C pw c0 c \<Longrightarrow> runtime_ok (cl_rt c)"
  by (rule client_ok_runtime) (rule client_from_ok)

lemma client_from_rt: "client_from C pw c0 c \<Longrightarrow> kept (cl_rt c) r \<Longrightarrow> runtime_ok r \<Longrightarrow> client_from C pw c0 (c\<lparr>cl_rt := r\<rparr>)"
  using kept_trans by (auto simp: client_from_def client_ok_rt)

lemma client_from_disk:
  "client_from C pw c0 c \<Longrightarrow> map_of (d_files d) ''keychain'' = map_of (d_files (cl_disk c)) ''keychain'' \<Longrightarrow>
     client_from C pw c0 (c\<lparr>cl_disk := d\<rparr>)"
  by (simp add: client_from_def client_ok_disk)

lemma api_save_ok:
  assumes "client_from C pw c0 c" and "api_save c = (c', out)"
  shows "client_from C pw c0 c'"
proof -
  obtain d o1 where d: "write_files (files_of c) (cl_disk c) = (d, o1)" by fastforce
  have "map_of (d_files d) ''keychain'' = map_of (d_files (cl_disk c)) ''keychain''"
    by (rule write_files_other [OF d]) (simp add: files_of_def)
  then show ?thesis using client_from_disk [OF assms(1)] assms(2) d by (auto simp: api_save_eq)
qed

section \<open>The operations keep it\<close>

lemma api_send_ok:
  assumes "client_from C pw c0 c" and "api_send C i u to text c = (c', out)"
  shows "client_from C pw c0 c'"
  using assms client_from_rt [OF assms(1) kept_send_message [OF kept_refl] send_message_ok [OF client_from_runtime [OF assms(1)]]]
  by (auto simp: api_send_def case_prod_beta Let_def split: if_splits)

lemma api_contact_ok:
  assumes c: "client_from C pw c0 c" and k: "api_contact N C pk ws c = Some (c', out)"
  shows "client_from C pw c0 c'"
proof (cases "ed_valid C pk")
  case True
  from k True obtain r found where f: "find_contact C pk ws (cl_rt c) = Some (r, found)" by (auto simp: api_contact_def)
  have r: "kept (cl_rt c) r" "runtime_ok r"
    using kept_find_contact [OF _ f] runtime_dht.keeps_find_contact [OF _ f] c by (simp_all add: client_from_def client_ok_def)
  show ?thesis
  proof (cases found)
    case (Ok cr)
    obtain r' g where g: "greet N C (UserID pk) (devices (cr_device_list cr)) (set_peer_addr pk (cr_relay_addr cr) r) = (r', g)"
      by fastforce
    have "runtime_ok (set_peer_addr pk (cr_relay_addr cr) r)" using r(2) by blast
    from greet_ok [OF this, of N C "UserID pk" "devices (cr_device_list cr)"] g have "runtime_ok r'" by simp
    moreover have "kept (cl_rt c) r'"
      using kept_greet [of "cl_rt c" "set_peer_addr pk (cr_relay_addr cr) r" N C "UserID pk" "devices (cr_device_list cr)"] r(1) g by simp
    ultimately have c1: "client_from C pw c0 (c\<lparr>cl_rt := r'\<rparr>)" using client_from_rt [OF c] by blast
    have "list_ok C (cr_device_list cr)" using find_contact_record [OF f [unfolded Ok]] by (simp add: contact_ok_def)
    then have "peers_ok C (AList.update pk \<lparr>pi_pk = pk, pi_device_list = cr_device_list cr, pi_conn_ids = []\<rparr> (cl_peers c))"
      using c True by (auto simp: client_from_def client_ok_def peers_ok_def update_conv' split: if_splits)
    then have "client_from C pw c0 (c\<lparr>cl_rt := r', cl_peers := AList.update pk
        \<lparr>pi_pk = pk, pi_device_list = cr_device_list cr, pi_conn_ids = []\<rparr> (cl_peers c)\<rparr>)"
      using c1 by (auto simp: client_from_def client_ok_def)
    then show ?thesis using k True f Ok g c1 by (auto simp: api_contact_def split: res.splits)
  qed (use k True f client_from_rt [OF c r] in \<open>auto simp: api_contact_def\<close>)
qed (use c k in \<open>simp add: api_contact_def\<close>)

lemma join_retry_ok:
  assumes "bg_ok N C bg" and "kept a r" and "runtime_ok r" and "join_retry bg seeds wss n r = Some (r', out)"
  shows "kept a r' \<and> runtime_ok r'"
  using assms(2-)
proof (induction n arbitrary: r)
  case (Suc n)
  from Suc.prems(3) obtain r1 o1 where 1: "join seeds (wss (5 - Suc n)) r = Some (r1, o1)" by (auto simp: Let_def split: option.splits)
  have r1: "kept a r1" "runtime_ok r1" using kept_join [OF Suc.prems(1) 1] runtime_dht.keeps_join [OF Suc.prems(2) 1] by simp_all
  have "background N C r1 (bg r1)" using assms(1) by (simp add: bg_ok_def)
  from background_facts [OF this] r1 have "kept a (bg r1)" "runtime_ok (bg r1)" using kept_trans by blast+
  then show ?case using Suc.IH [of "bg r1"] Suc.prems(3) 1 r1 by (auto simp: Let_def split: res.splits if_splits)
qed simp

lemma publish_own_ok:
  "kept a r \<Longrightarrow> runtime_ok r \<Longrightarrow> publish_own C pk l ws r = Some (r', out) \<Longrightarrow> kept a r' \<and> runtime_ok r'"
  unfolding publish_own_def using kept_publish runtime_dht.keeps_publish by blast

lemma api_connect_ok:
  assumes bg: "bg_ok N C bg" and c: "client_from C pw c0 c" and k: "api_connect bg C wss ws c = Some (c', out)"
  shows "client_from C pw c0 c'"
proof -
  from k obtain r o1 where 1: "join_retry bg (cl_seeds c) wss 5 (cl_rt c) = Some (r, o1)"
    by (auto simp: api_connect_def bind_eq_Some_conv)
  have r: "kept (cl_rt c) r" "runtime_ok r" using join_retry_ok [OF bg kept_refl client_from_runtime [OF c] 1] by simp_all
  have "background N C r (bg r)" using bg by (simp add: bg_ok_def)
  from background_facts [OF this] r have b: "kept (cl_rt c) (bg r)" "runtime_ok (bg r)" using kept_trans by blast+
  show ?thesis
    using k 1 client_from_rt [OF c r] client_from_rt [OF c] publish_own_ok [OF b]
    by (auto simp: api_connect_def split: res.splits)
qed

lemma latest_list_ok:
  assumes "kept a r" and "runtime_ok r" and "list_ok C l" and "latest_list C pk l ws r = Some (r', out)"
  shows "kept a r' \<and> runtime_ok r' \<and> (\<forall>l'. out = Ok l' \<longrightarrow> list_ok C l')"
proof -
  from assms(4) obtain found where f: "find_contact C pk ws r = Some (r', found)"
    and o: "out = (case found of Ok cr \<Rightarrow> Ok (cr_device_list cr) | Err _ \<Rightarrow> Ok l | Panic \<Rightarrow> Panic)"
    by (auto simp: latest_list_def)
  have "list_ok C (cr_device_list cr)" if "found = Ok cr" for cr
    using find_contact_record [OF f [unfolded that]] by (simp add: contact_ok_def)
  then show ?thesis
    using kept_find_contact [OF assms(1) f] runtime_dht.keeps_find_contact [OF assms(2) f] assms(3) o
    by (cases found) auto
qed

definition keeps_lists :: "crypto \<Rightarrow> (device_list \<Rightarrow> device_list res) \<Rightarrow> bool" where
  "keeps_lists C f \<longleftrightarrow> (\<forall>l l'. list_ok C l \<longrightarrow> f l = Ok l' \<longrightarrow> list_ok C l')"

lemma keeps_add: "cert_ok C cert \<Longrightarrow> keeps_lists C (add_unless_active C master cert)"
  by (auto simp: keeps_lists_def add_unless_active_def map_err_eq add_device_Ok list_ok_def split: if_splits)

lemma keeps_revoke: "keeps_lists C (revoke_at C master i)"
proof -
  have "list_ok C l'" if "list_ok C l" "remove_device C master pk l = Ok l'" for l l' pk
  proof -
    from that(2) obtain j where j: "j < length (devices l)" "devices l' = remove_at j (devices l)"
      by (auto simp: remove_device_Ok dest!: position_SomeD)
    have "set (devices l') \<subseteq> set (devices l)" unfolding j(2) by (rule set_remove_at_subset)
    moreover have "length (devices l') \<le> length (devices l)" using j by (simp add: remove_at_def)
    ultimately show ?thesis using that(1) by (auto simp: list_ok_def)
  qed
  then show ?thesis by (auto simp: keeps_lists_def revoke_at_def map_err_eq split: if_splits)
qed

lemma change_list_ok:
  assumes c: "client_from C pw c0 c" and f: "keeps_lists C f" and k: "change_list C f fws pws c = Some (c', out)"
  shows "client_from C pw c0 c'"
proof -
  from k obtain r l where 1: "latest_list C (cl_our_pk c) (cl_device_list c) fws (cl_rt c) = Some (r, l)"
    by (auto simp: change_list_def bind_eq_Some_conv)
  have r: "kept (cl_rt c) r" "runtime_ok r" "\<And>l'. l = Ok l' \<Longrightarrow> list_ok C l'"
    using latest_list_ok [OF kept_refl client_from_runtime [OF c] _ 1] c by (simp_all add: client_from_def client_ok_def)
  note c1 = client_from_rt [OF c r(1,2)]
  define m where "m = and_then l (\<lambda>l. and_then (f l) (\<lambda>l. map_res (\<lambda>sq. l\<lparr>sequence := sq\<rparr>) (add_or_panic (sequence l) 1)))"
  show ?thesis
  proof (cases m)
    case (Ok l')
    from Ok obtain l0 l1 sq where m': "l = Ok l0" "f l0 = Ok l1" "l' = l1\<lparr>sequence := sq\<rparr>"
      unfolding m_def and_then_eq_Ok map_res_eq by blast
    have "list_ok C l1" using r(3) [OF m'(1)] f m'(2) unfolding keeps_lists_def by blast
    then have l': "list_ok C l'" by (simp add: m'(3) list_ok_def)
    from k 1 Ok obtain r2 o2 where 2: "publish_own C (cl_our_pk c) l' pws r = Some (r2, o2)"
      by (auto simp: change_list_def m_def)
    have "kept (cl_rt c) r2 \<and> runtime_ok r2" using publish_own_ok [OF r(1,2) 2] .
    then have c2: "client_from C pw c0 (c\<lparr>cl_rt := r2\<rparr>)" using client_from_rt [OF c] by blast
    obtain d w where w: "fs_write ''device_list'' (list_serialize l') ''failed to write device list: {e}'' (cl_disk c) = (d, w)" by fastforce
    have "client_from C pw c0 (c\<lparr>cl_rt := r2, cl_device_list := l'\<rparr>)" using c2 l' by (auto simp: client_from_def client_ok_def)
    from client_from_disk [OF this, of d] fs_write_other [OF w, of "''keychain''"]
    have "client_from C pw c0 (c\<lparr>cl_rt := r2, cl_device_list := l', cl_disk := d\<rparr>)" by simp
    then show ?thesis using k 1 Ok 2 c2 w by (auto simp: change_list_def m_def split: res.splits)
  qed (use k 1 c1 in \<open>auto simp: change_list_def m_def\<close>)
qed

lemma api_add_device_ok:
  assumes c: "client_from C pw c0 c" and k: "api_add_device C h to_seed password fws pws c = Some (c', out)"
  shows "client_from C pw c0 c'"
proof -
  have d: "client_from C pw c0 (c\<lparr>cl_disk := fst (keychain_save C h (device_file n) password k' (cl_disk c))\<rparr>)" for k' n
    using fs_write_other [where name' = "''keychain''" and name = "device_file n"]
    by (intro client_from_disk [OF c]) (auto simp: device_file_def keychain_save_def fs_write_def update_conv' split: res.split)
  have v: "cert_ok C cert" if "certify C master k' = Ok cert" for master k' cert
    using that by (auto simp: certify_def cert_ok_def cert_new_def split: if_splits)
  show ?thesis
    using k c d
    by (auto simp: api_add_device_def Let_def case_prod_beta and_then_eq_Ok split: res.splits if_splits
        dest!: change_list_ok [OF d keeps_add [OF v]])
qed

lemma api_revoke_device_ok:
  "client_from C pw c0 c \<Longrightarrow> api_revoke_device C to_seed i password fws pws c = Some (c', out) \<Longrightarrow> client_from C pw c0 c'"
  by (auto simp: api_revoke_device_def split: res.splits if_splits dest: change_list_ok [OF _ keeps_revoke])

lemma api_poll_ok: "client_ok C pw c \<Longrightarrow> api_poll c = (c', es) \<Longrightarrow> client_ok C pw c'"
  by (auto simp: api_poll_def Let_def client_ok_def)

section \<open>Starting\<close>

lemma kept_load: "kept a r \<Longrightarrow> kept a (fst (load_peer_state C bs r))"
  unfolding load_peer_state_def by (simp split: res.split prod.split)

lemma start_runtime_facts:
  assumes "start_runtime C h our_pk k cert = Ok r"
  shows "runtime_ok r \<and> rt_master_pubkey r = Some our_pk \<and> rt_device_cert r = Some cert \<and> rt_x25519_priv r = k_x25519_priv k \<and>
    rt_ed25519_priv r = Some (k_ed25519_priv k) \<and> h_bound h = Ok (rt_address r) \<and> rt_msgs r = [] \<and> rt_sess r = [] \<and>
    rt_msg_rx r \<and> rt_sess_rx r"
proof -
  from assms obtain a where a: "h_bound h = Ok a" "r = set_device_cert cert (set_master_pubkey our_pk (enable_server
         (runtime_bind (node_from_pubkey (sha256 C) our_pk) a (Some (k_ed25519_priv k)) (k_x25519_priv k) (h_draws h))))"
    by (auto simp: start_runtime_def map_res_eq)
  have "runtime_ok r"
    using runtime_bind_ok [of "node_from_pubkey (sha256 C) our_pk" a "Some (k_ed25519_priv k)" "k_x25519_priv k" "h_draws h"]
    unfolding a(2) set_device_cert_def set_master_pubkey_def enable_server_def by simp
  then show ?thesis
    by (simp add: a set_device_cert_def set_master_pubkey_def enable_server_def runtime_bind_def)
qed

lemma settle_facts:
  assumes "settle C d r = Ok r'" and "runtime_ok r"
  shows "kept r r' \<and> runtime_ok r'"
proof -
  from assms(1) obtain r1 where 1: "r1 = r \<or> (\<exists>bs. r1 = fst (load_peer_state C bs r))"
    "r' = r1\<lparr>rt_msg_rx := False, rt_sess_rx := False\<rparr>"
    by (auto simp: settle_def and_then_eq_Ok subscribe_def subscribe_sessions_def split: option.splits if_splits prod.splits res.splits) (metis fst_conv)+
  then have "kept r r1" "runtime_ok r1" using assms(2) kept_load [OF kept_refl] load_peer_state_ok by auto
  then show ?thesis by (simp add: 1(2))
qed

lemma enable_relay_frame [simp]:
  "runtime_ok (enable_relay reg r) = runtime_ok r" "kept a (enable_relay reg r) = kept a r"
  by (simp_all add: enable_relay_def)

lemma own_registry_ok:
  "own_registry C pk a = Ok reg \<Longrightarrow> canonical a \<Longrightarrow> (\<forall>e \<in> set (registry reg). relay_entry_ok C e) \<and> length (registry reg) = 1"
  by (auto simp: own_registry_def res_simps registry_add_def registry_new_def intro: relay_entry_new_ok)

lemma keychain_save_loads:
  assumes "aead_ok C" and "keychain_ok C k" and "keychain_save C h name pw k d = (d', Ok ())"
  shows "keychain_load C name pw d' = Ok (k\<lparr>has_password := (pw \<noteq> None)\<rparr>)"
proof -
  from assms(3) obtain bs where bs: "keychain_serialize C (h_salt h) (h_nonce h) (map_option ascii pw) k = Ok bs"
    "map_of (d_files d') name = Some bs"
    by (auto simp: keychain_save_def fs_write_def split: res.splits if_splits)
  from keychain_roundtrip [OF assms(1,2) bs(1)] show ?thesis by (simp add: keychain_load_def fs_read_def bs(2))
qed

lemma stored_Ok:
  "stored bg m d = (d', Ok c) \<longleftrightarrow> (\<exists>c0. m = Ok c0 \<and> api_save (c0\<lparr>cl_rt := bg (cl_rt c0)\<rparr>) = (c, Ok ()) \<and> d' = cl_disk c)"
  by (auto simp: stored_def map_res_eq Let_def split: res.splits prod.splits)

text \<open>A client put together from good parts, before and after the background thread has started.\<close>

lemma client_on_ok:
  assumes "settle C d (enable_relay reg r) = Ok r'" and "runtime_ok r" and "rt_master_pubkey r = Some pk" and "rt_device_cert r = Some cert"
    and "cert_ok C cert" and "list_ok C l" and "\<forall>e \<in> set (registry reg). relay_entry_ok C e" and "length (registry reg) < 2 ^ 32"
    and "keys_stored C pw d r"
  shows "client_ok C pw (client_on r' pk cert l reg d seeds)"
proof -
  from settle_facts [OF assms(1)] assms(2) have "kept (enable_relay reg r) r'" "runtime_ok r'" by simp_all
  then show ?thesis
    using assms(3-) by (simp add: client_ok_def client_on_def kept_def keys_stored_def peers_ok_def enable_relay_def)
qed

lemma stored_ok:
  assumes "bg_ok N C bg" and "stored bg m d = (d', Ok c)" and "\<And>c0. m = Ok c0 \<Longrightarrow> client_ok C pw c0"
  shows "client_ok C pw c"
proof -
  from assms(2) obtain c0 where c0: "m = Ok c0" "api_save (c0\<lparr>cl_rt := bg (cl_rt c0)\<rparr>) = (c, Ok ())" by (auto simp: stored_Ok)
  have ok: "client_ok C pw c0" using assms(3) c0(1) .
  have "background N C (cl_rt c0) (bg (cl_rt c0))" using assms(1) by (simp add: bg_ok_def)
  from background_facts [OF this] have "client_ok C pw (c0\<lparr>cl_rt := bg (cl_rt c0)\<rparr>)"
    using client_ok_rt [OF ok] client_ok_runtime [OF ok] by blast
  from api_save_ok [OF client_from_refl [OF this] c0(2)] show ?thesis by (rule client_from_ok)
qed

lemma certify_ok: "certify C master k = Ok cert \<Longrightarrow> cert_ok C cert"
  by (auto simp: certify_def cert_ok_def cert_new_def split: if_splits)

lemma list_new_ok: "list_ok C (list_new C m)"
  by (simp add: list_ok_def list_new_def)

lemma keys_stored_saved:
  assumes "aead_ok C" and "keychain_from_mnemonic C to_seed pw = Ok k" and "keychain_save C h ''keychain'' pw k d = (d', Ok ())"
    and "rt_x25519_priv r = k_x25519_priv k" and "rt_ed25519_priv r = Some (k_ed25519_priv k)"
  shows "keys_stored C pw d' r"
  using keychain_save_loads [OF assms(1) keychain_from_mnemonic_ok [OF assms(2)] assms(3)] assms(4,5)
  by (simp add: keys_stored_def)

lemma api_new_parts:
  assumes "api_new bg C h to_seed pw seeds d = (d', Ok c)"
  obtains master k d1 cert l r reg r1 where
    "master_from_mnemonic C to_seed None = Ok master" "keychain_from_mnemonic C to_seed pw = Ok k"
    "keychain_save C h ''keychain'' pw k d = (d1, Ok ())" "certify C master k = Ok cert"
    "add_device C master cert (list_new C master) = Ok l" "start_runtime C h (m_public_key master) k cert = Ok r"
    "own_registry C (m_public_key master) (rt_address r) = Ok reg" "settle C d1 (enable_relay reg r) = Ok r1"
    "api_save (client_on (bg r1) (m_public_key master) cert l reg d1 seeds) = (c, Ok ())" "d' = cl_disk c"
proof -
  from assms obtain master k d1 where 1: "master_from_mnemonic C to_seed None = Ok master" "keychain_from_mnemonic C to_seed pw = Ok k"
    "keychain_save C h ''keychain'' pw k d = (d1, Ok ())"
    by (auto simp: api_new_def res_simps Let_def split: res.splits prod.splits)
  obtain u where u: "create_dir_all d = Ok u" using assms by (cases "create_dir_all d") (auto simp: api_new_def)
  show thesis
    using that [OF 1] assms u
    by (auto simp: api_new_def 1 stored_Ok res_simps Let_def client_on_def)
qed

lemma api_new_ok:
  assumes "aead_ok C" and "bg_ok N C bg" and "\<forall>a. h_bound h = Ok a \<longrightarrow> canonical a"
    and new: "api_new bg C h to_seed pw seeds d = (d', Ok c)"
  shows "client_ok C pw c \<and> cl_msgs_read c = 0 \<and> cl_sess_read c = 0"
proof -
  from new obtain master k d1 cert l r reg r1 where
    1: "keychain_from_mnemonic C to_seed pw = Ok k"
    "keychain_save C h ''keychain'' pw k d = (d1, Ok ())" and cert: "certify C master k = Ok cert"
    and l: "add_device C master cert (list_new C master) = Ok l" and r: "start_runtime C h (m_public_key master) k cert = Ok r"
    and reg: "own_registry C (m_public_key master) (rt_address r) = Ok reg" and r1: "settle C d1 (enable_relay reg r) = Ok r1"
    and c: "api_save (client_on (bg r1) (m_public_key master) cert l reg d1 seeds) = (c, Ok ())"
    by (rule api_new_parts)
  note f = start_runtime_facts [OF r]
  have "list_ok C l" using l certify_ok [OF cert] list_new_ok [of C master] by (auto simp: add_device_Ok list_ok_def)
  moreover have "canonical (rt_address r)" using assms(3) f by simp
  ultimately have ok: "client_ok C pw (client_on r1 (m_public_key master) cert l reg d1 seeds)"
    using f certify_ok [OF cert] own_registry_ok [OF reg] keys_stored_saved [OF assms(1) 1]
    by (intro client_on_ok [OF r1]) auto
  have "stored bg (Ok (client_on r1 (m_public_key master) cert l reg d1 seeds)) d1 = (cl_disk c, Ok c)"
    using c by (auto simp: stored_Ok client_on_def)
  from stored_ok [OF assms(2) this] ok have "client_ok C pw c" by blast
  moreover have "cl_msgs_read c = 0" "cl_sess_read c = 0" using c by (auto simp: api_save_eq client_on_def)
  ultimately show ?thesis by blast
qed

lemma api_from_mnemonic_parts:
  fixes bg :: "'hs runtime \<Rightarrow> 'hs runtime"
  assumes new: "api_from_mnemonic bg C h to_seed pw seeds wss fws pws d = Some (d', Ok c)"
  obtains master k d1 cert l0 l and r0 r2 r3 r4 :: "'hs runtime" where
    "master_from_mnemonic C to_seed pw = Ok master" "keychain_from_mnemonic C to_seed pw = Ok k"
    "keychain_save C h ''keychain'' pw k d = (d1, Ok ())" "certify C master k = Ok cert"
    "start_runtime C h (m_public_key master) k cert = Ok r0" "join_retry id seeds wss 5 r0 = Some (r2, Ok ())"
    "latest_list C (m_public_key master) (list_new C master) fws r2 = Some (r3, Ok l0)"
    "add_unless_active C master cert l0 = Ok l" "publish_own C (m_public_key master) l pws r3 = Some (r4, Ok ())"
    "stored bg (and_then (own_registry C (m_public_key master) (rt_address r4)) (\<lambda>reg.
       and_then (settle C d1 (enable_relay reg r4)) (\<lambda>r. Ok (client_on r (m_public_key master) cert l reg d1 seeds)))) d1 = (d', Ok c)"
    "cl_our_pk c = m_public_key master" "cl_msgs_read c = 0" "cl_sess_read c = 0"
proof -
  obtain u where u: "create_dir_all d = Ok u" using new by (cases "create_dir_all d") (auto simp: api_from_mnemonic_def)
  from new u obtain master k d1 where 1: "master_from_mnemonic C to_seed pw = Ok master" "keychain_from_mnemonic C to_seed pw = Ok k"
    "keychain_save C h ''keychain'' pw k d = (d1, Ok ())"
    by (auto simp: api_from_mnemonic_def res_simps Let_def split: res.splits prod.splits)
  let ?pk = "m_public_key master"
  have "\<exists>cert r0. certify C master k = Ok cert \<and> start_runtime C h ?pk k cert = Ok (r0 :: 'hs runtime)"
    using new by (auto simp: api_from_mnemonic_def u 1 Let_def and_then_eq_Ok map_res_eq split: res.splits)
  then obtain cert r0 where cert: "certify C master k = Ok cert" and r0: "start_runtime C h ?pk k cert = Ok (r0 :: 'hs runtime)" by blast
  have "\<exists>r2 j. join_retry id seeds wss 5 r0 = Some (r2, j)"
    using new by (auto simp: api_from_mnemonic_def u 1 cert r0 Let_def bind_eq_Some_conv)
  then obtain r2 j where rj: "join_retry id seeds wss 5 r0 = Some (r2, j)" by blast
  then have r2: "join_retry id seeds wss 5 r0 = Some (r2, Ok ())"
    using new by (cases j) (simp_all add: api_from_mnemonic_def u 1 cert r0 rj)
  have "\<exists>r3 j. latest_list C ?pk (list_new C master) fws r2 = Some (r3, j)"
    using new by (auto simp: api_from_mnemonic_def u 1 cert r0 r2 Let_def bind_eq_Some_conv)
  then obtain r3 j3 where rj: "latest_list C ?pk (list_new C master) fws r2 = Some (r3, j3)" by blast
  then have "\<exists>l0 l. j3 = Ok l0 \<and> add_unless_active C master cert l0 = Ok l"
    using new
    by (cases "and_then j3 (add_unless_active C master cert)") (auto simp: api_from_mnemonic_def u 1 cert r0 r2 rj and_then_eq_Ok)
  then obtain l0 l where l: "add_unless_active C master cert l0 = Ok l"
    and r3: "latest_list C ?pk (list_new C master) fws r2 = Some (r3, Ok l0)" using rj by blast
  have "\<exists>r4. publish_own C ?pk l pws r3 = Some (r4, Ok ())"
    using new by (auto simp: api_from_mnemonic_def u 1 cert r0 r2 r3 l Let_def bind_eq_Some_conv stored_Ok and_then_eq_Ok)
  then obtain r4 where r4: "publish_own C ?pk l pws r3 = Some (r4, Ok ())" by blast
  let ?m = "and_then (own_registry C ?pk (rt_address r4)) (\<lambda>reg.
      and_then (settle C d1 (enable_relay reg r4)) (\<lambda>r. Ok (client_on r ?pk cert l reg d1 seeds)))"
  have s: "stored bg ?m d1 = (d', Ok c)"
    using new by (auto simp: api_from_mnemonic_def u 1 cert r0 r2 r3 l r4 Let_def)
  have "cl_our_pk c = ?pk" "cl_msgs_read c = 0" "cl_sess_read c = 0" using s by (auto simp: stored_Ok and_then_eq_Ok client_on_def api_save_eq)
  then show thesis using that 1 cert r0 r2 r3 l r4 s by blast
qed

lemma api_from_mnemonic_ok:
  fixes bg :: "'hs runtime \<Rightarrow> 'hs runtime"
  assumes "aead_ok C" and "bg_ok N C bg" and "\<forall>a. h_bound h = Ok a \<longrightarrow> canonical a"
    and new: "api_from_mnemonic bg C h to_seed pw seeds wss fws pws d = Some (d', Ok c)"
  shows "client_ok C pw c \<and> cl_msgs_read c = 0 \<and> cl_sess_read c = 0"
proof -
  obtain master k d1 cert l0 l and r0 r2 r3 r4 :: "'hs runtime" where
    1: "keychain_from_mnemonic C to_seed pw = Ok k" "keychain_save C h ''keychain'' pw k d = (d1, Ok ())" and cert: "certify C master k = Ok cert"
    and r0: "start_runtime C h (m_public_key master) k cert = Ok r0" and r2: "join_retry id seeds wss 5 r0 = Some (r2, Ok ())"
    and r3: "latest_list C (m_public_key master) (list_new C master) fws r2 = Some (r3, Ok l0)"
    and l: "add_unless_active C master cert l0 = Ok l" and r4: "publish_own C (m_public_key master) l pws r3 = Some (r4, Ok ())"
    and s: "stored bg (and_then (own_registry C (m_public_key master) (rt_address r4)) (\<lambda>reg.
       and_then (settle C d1 (enable_relay reg r4)) (\<lambda>r. Ok (client_on r (m_public_key master) cert l reg d1 seeds)))) d1 = (d', Ok c)"
    and reads: "cl_msgs_read c = 0" "cl_sess_read c = 0"
    using new by (rule api_from_mnemonic_parts)
  note f = start_runtime_facts [OF r0]
  have "bg_ok N C id" by (simp add: bg_ok_def bg_none)
  from join_retry_ok [OF this kept_refl _ r2] f have k2: "kept r0 r2" "runtime_ok r2" by blast+
  from latest_list_ok [OF k2 list_new_ok r3] have k3: "kept r0 r3" "runtime_ok r3" "list_ok C l0" by blast+
  have lok: "list_ok C l" using keeps_add [OF certify_ok [OF cert]] k3(3) l unfolding keeps_lists_def by blast
  from publish_own_ok [OF k3(1,2) r4] have k4: "kept r0 r4" "runtime_ok r4" by blast+
  have "canonical (rt_address r4)" using assms(3) f k4(1) by (simp add: kept_def)
  then have ok: "client_ok C pw c0" if "and_then (own_registry C (m_public_key master) (rt_address r4)) (\<lambda>reg.
       and_then (settle C d1 (enable_relay reg r4)) (\<lambda>r. Ok (client_on r (m_public_key master) cert l reg d1 seeds))) = Ok c0" for c0
    using that f k4 certify_ok [OF cert] lok keys_stored_saved [OF assms(1) 1]
    by (auto simp: and_then_eq_Ok kept_def intro!: client_on_ok dest!: own_registry_ok)
  then show ?thesis using stored_ok [OF assms(2) s ok] reads by blast
qed

lemma list_from_serialized_ok: "list_from_serialized C bs = Ok l \<Longrightarrow> list_ok C l"
  using list_from_serialized_exact by blast

lemma registry_from_serialized_ok:
  "registry_from_serialized C bs = Ok reg \<Longrightarrow> (\<forall>e \<in> set (registry reg). relay_entry_ok C e) \<and> length (registry reg) < 2 ^ 32"
proof -
  assume "registry_from_serialized C bs = Ok reg"
  then obtain cb :: "4 arr" and bs' bs2 where "read_many (read_len_entry C) (unat (from_be (bytes_of cb) :: u32)) bs' = Ok (registry reg, bs2)"
    by (auto simp: registry_from_serialized_def res_simps Let_def split: if_splits)
  moreover from this have "length (registry reg) = unat (from_be (bytes_of cb) :: u32)" by (rule read_many_length)
  moreover have "unat (from_be (bytes_of cb) :: u32) < 2 ^ 32" using unsigned_less [of "from_be (bytes_of cb) :: u32"] by simp
  ultimately show ?thesis using read_len_entries_valid by metis
qed

lemma api_open_ok:
  assumes "api_open C h pw seeds d = Ok c"
  shows "client_ok C pw c \<and> cl_disk c = d \<and> cl_msgs_read c = 0 \<and> cl_sess_read c = 0"
proof -
  from assms obtain cb cert rb reg lb l k pb pk r r1 where 1:
    "cert_from_serialized C cb = Ok cert" "registry_from_serialized C rb = Ok reg" "list_from_serialized C lb = Ok l"
    "keychain_load C ''keychain'' pw d = Ok k" "try_arr pb = Some pk" and r: "start_runtime C h pk k cert = Ok r" and r1: "settle C d (enable_relay reg r) = Ok r1"
    and c: "c = client_on r1 pk cert l reg d seeds"
    unfolding api_open_def cert_open_def registry_open_def list_open_def and_then_eq_Ok ok_or_eq by blast
  note f = start_runtime_facts [OF r]
  have "cert_ok C cert" using 1(1) by (auto simp: cert_from_serialized_eq cert_ok_def split: if_splits)
  moreover have "keys_stored C pw d r" using 1(4) f by (auto simp: keys_stored_def)
  ultimately have "client_ok C pw c"
    unfolding c using f list_from_serialized_ok [OF 1(3)] registry_from_serialized_ok [OF 1(2)]
    by (intro client_on_ok [OF r1]) auto
  then show ?thesis by (simp add: c client_on_def)
qed

section \<open>The client as a state machine\<close>

text \<open>
  The application holds the client and has received the events so far. Panics are not steps: they poison
  the runtime's lock, and the next call panics too.
\<close>

inductive client_start :: "'hs noise \<Rightarrow> crypto \<Rightarrow> string option \<Rightarrow> 'hs client \<times> event list \<Rightarrow> bool" for N C pw where
  st_new: "api_new bg C h to_seed pw seeds d = (d', Ok c) \<Longrightarrow> bg_ok N C bg \<Longrightarrow> \<forall>a. h_bound h = Ok a \<longrightarrow> canonical a \<Longrightarrow>
     client_start N C pw (c, [])"
| st_open: "api_open C h pw seeds d = Ok c \<Longrightarrow> client_start N C pw (c, [])"
| st_mnemonic: "api_from_mnemonic bg C h to_seed pw seeds wss fws pws d = Some (d', Ok c) \<Longrightarrow> bg_ok N C bg \<Longrightarrow>
     \<forall>a. h_bound h = Ok a \<longrightarrow> canonical a \<Longrightarrow> client_start N C pw (c, [])"

inductive client_step :: "'hs noise \<Rightarrow> crypto \<Rightarrow> 'hs client \<times> event list \<Rightarrow> 'hs client \<times> event list \<Rightarrow> bool" for N C where
  cs_background: "background N C (cl_rt c) r \<Longrightarrow> client_step N C (c, es) (c\<lparr>cl_rt := r\<rparr>, es)"
| cs_poll: "api_poll c = (c', es') \<Longrightarrow> client_step N C (c, es) (c', es @ es')"
| cs_save: "api_save c = (c', out) \<Longrightarrow> out \<noteq> Panic \<Longrightarrow> client_step N C (c, es) (c', es)"
| cs_send: "api_send C i unix to text c = (c', out) \<Longrightarrow> out \<noteq> Panic \<Longrightarrow> client_step N C (c, es) (c', es)"
| cs_contact: "api_contact N C pk ws c = Some (c', out) \<Longrightarrow> out \<noteq> Panic \<Longrightarrow> client_step N C (c, es) (c', es)"
| cs_connect: "api_connect bg C wss ws c = Some (c', out) \<Longrightarrow> bg_ok N C bg \<Longrightarrow> out \<noteq> Panic \<Longrightarrow> client_step N C (c, es) (c', es)"
| cs_add: "api_add_device C h to_seed pw' fws pws c = Some (c', out) \<Longrightarrow> out \<noteq> Panic \<Longrightarrow> client_step N C (c, es) (c', es)"
| cs_revoke: "api_revoke_device C to_seed j pw' fws pws c = Some (c', out) \<Longrightarrow> out \<noteq> Panic \<Longrightarrow> client_step N C (c, es) (c', es)"

text \<open>What the application has received is what it has read of the channels, in their order.\<close>

definition received :: "event list \<Rightarrow> (bytes \<times> 32 arr) list" where
  "received es = List.map_filter (\<lambda>e. case e of MessageReceived from text \<Rightarrow> Some (text, from) | _ \<Rightarrow> None) es"

definition opened :: "event list \<Rightarrow> (32 arr \<times> 32 arr) list" where
  "opened es = List.map_filter (\<lambda>e. case e of SessionEstablished peer safety \<Rightarrow> Some (peer, safety) | _ \<Rightarrow> None) es"

definition seen_ok :: "'hs client \<Rightarrow> event list \<Rightarrow> bool" where
  "seen_ok c es \<longleftrightarrow>
     received es = map (\<lambda>(msg, pk). (content msg, pk)) (take (cl_msgs_read c) (rt_msgs (cl_rt c))) \<and>
     opened es = take (cl_sess_read c) (rt_sess (cl_rt c))"

lemma received_append [simp]: "received (xs @ ys) = received xs @ received ys" "opened (xs @ ys) = opened xs @ opened ys"
  by (simp_all add: received_def opened_def map_filter_def)

lemma received_events [simp]:
  "received (map (\<lambda>(msg, pk). MessageReceived pk (content msg)) ms) = map (\<lambda>(msg, pk). (content msg, pk)) ms"
  "received (map (\<lambda>(p, n). SessionEstablished p n) ss) = []"
  "opened (map (\<lambda>(msg, pk). MessageReceived pk (content msg)) ms) = []"
  "opened (map (\<lambda>(p, n). SessionEstablished p n) ss) = ss"
  by (induction ms; induction ss; force simp: received_def opened_def List.map_filter_simps)+

lemma api_poll_seen:
  assumes "seen_ok c es" and "cl_msgs_read c \<le> length (rt_msgs (cl_rt c))" and "cl_sess_read c \<le> length (rt_sess (cl_rt c))"
    and "api_poll c = (c', es')"
  shows "seen_ok c' (es @ es') \<and> received (es @ es') = map (\<lambda>(msg, pk). (content msg, pk)) (rt_msgs (cl_rt c)) \<and>
    opened (es @ es') = rt_sess (cl_rt c)"
proof -
  have "map f (take n xs) @ map f (drop n xs) = map f xs" for f :: "'b \<Rightarrow> 'c" and n xs
    by (metis append_take_drop_id map_append)
  then show ?thesis
    using assms by (auto simp: api_poll_def seen_ok_def Let_def simp flip: map_append)
qed

lemma seen_later: "seen_ok c0 es \<Longrightarrow> client_from C pw c0 c \<Longrightarrow> client_ok C pw c0 \<Longrightarrow> seen_ok c es"
  by (auto simp: seen_ok_def client_from_def kept_def prefix_def client_ok_def)

definition session_ok :: "crypto \<Rightarrow> string option \<Rightarrow> 'hs client \<times> event list \<Rightarrow> bool" where
  "session_ok C pw ce \<longleftrightarrow> client_ok C pw (fst ce) \<and> seen_ok (fst ce) (snd ce)"

lemma client_start_ok:
  assumes "aead_ok C" and "client_start N C pw ce"
  shows "session_ok C pw ce"
proof -
  have seen: "seen_ok c []" if "cl_msgs_read c = 0" "cl_sess_read c = 0" for c :: "'a client"
    using that by (simp add: seen_ok_def received_def opened_def map_filter_def)
  from assms(2) show ?thesis
  proof cases
    case (st_new bg h to_seed seeds d d' c)
    from api_new_ok [OF assms(1) st_new(3,4,2)] show ?thesis using st_new(1) seen by (simp add: session_ok_def)
  next
    case (st_open h seeds d c)
    then show ?thesis using api_open_ok seen by (fastforce simp: session_ok_def)
  next
    case (st_mnemonic bg h to_seed seeds wss fws pws d d' c)
    from api_from_mnemonic_ok [OF assms(1) st_mnemonic(3,4,2)] show ?thesis using st_mnemonic(1) seen by (simp add: session_ok_def)
  qed
qed

lemma session_from: "session_ok C pw (c, es) \<Longrightarrow> (client_from C pw c c \<Longrightarrow> client_from C pw c c') \<Longrightarrow> session_ok C pw (c', es)"
  using client_from_refl client_from_ok seen_later by (fastforce simp: session_ok_def)

lemma client_step_ok:
  assumes "session_ok C pw ce" and "client_step N C ce ce'"
  shows "session_ok C pw ce'"
  using assms(2)
proof cases
  case (cs_background c r es)
  have ok: "client_ok C pw c" "seen_ok c es" using assms(1) cs_background by (simp_all add: session_ok_def)
  from background_facts [OF cs_background(3)] client_ok_runtime [OF ok(1)]
  have "client_from C pw c (c\<lparr>cl_rt := r\<rparr>)" by (intro client_from_rt client_from_refl ok) auto
  from seen_later [OF ok(2) this ok(1)] client_from_ok [OF this] show ?thesis
    using cs_background(2) by (simp add: session_ok_def)
next
  case (cs_poll c c' es' es)
  then show ?thesis
    using assms(1) api_poll_ok [OF _ cs_poll(3)] api_poll_seen [OF _ _ _ cs_poll(3)]
    by (auto simp: session_ok_def client_ok_def)
next
  case cs_save
  then show ?thesis using assms(1) by (auto intro: session_from api_save_ok)
next
  case cs_send
  then show ?thesis using assms(1) by (auto intro: session_from api_send_ok)
next
  case cs_contact
  then show ?thesis using assms(1) by (auto intro: session_from api_contact_ok)
next
  case cs_connect
  then show ?thesis using assms(1) by (auto intro: session_from api_connect_ok)
next
  case cs_add
  then show ?thesis using assms(1) by (auto intro: session_from api_add_device_ok)
next
  case cs_revoke
  then show ?thesis using assms(1) by (auto intro: session_from api_revoke_device_ok)
qed

interpretation app: machine "\<lambda>ce. aead_ok C \<and> client_start N C pw ce" "client_step N C" "session_ok C pw" for C N pw
  by unfold_locales (blast intro: client_start_ok client_step_ok)+

lemma reach_app:
  assumes "aead_ok C" and "reach (client_start N C pw) (client_step N C) ce"
  shows "session_ok C pw ce"
proof -
  have "reach (\<lambda>ce. aead_ok C \<and> client_start N C pw ce) (client_step N C) ce"
    using assms(2)
  proof (induction rule: reach.induct)
    case (reach_init s)
    then show ?case using assms(1) by (blast intro: reach.reach_init)
  next
    case (reach_step s s')
    show ?case by (rule reach.reach_step) fact+
  qed
  then show ?thesis by (rule app.reach_inv)
qed

section \<open>Opening again\<close>

lemma load_not_Panic: "snd (load_peer_state C bs r) \<noteq> Panic"
  unfolding load_peer_state_def
  by (auto simp: res_simps storage_not_Panic Let_def split: res.split prod.split)

lemma load_save_peer_state:
  assumes "\<forall>(a, k) \<in> set (rt_peer_keys r). canonical a \<and> ed_valid C k" and "length (rt_peer_keys r) < 2 ^ 32"
    and "\<forall>(k, a) \<in> set (rt_pk_to_addr r). canonical a" and "length (rt_pk_to_addr r) < 2 ^ 32"
    and "length (serialize_peer_keys (rt_peer_keys r)) < 2 ^ 32" and "length (serialize_pk_to_addr (rt_pk_to_addr r)) < 2 ^ 32"
  shows "load_peer_state C (save_peer_state r) r' =
    (r'\<lparr>rt_peer_keys := insert_all (rt_peer_keys r), rt_pk_to_addr := insert_all (rt_pk_to_addr r)\<rparr>, Ok ())"
  using count_roundtrip [OF assms(5)] count_roundtrip [OF assms(6)]
    peer_keys_read_write [OF assms(1,2), of "[]"] pk_to_addr_read_write [OF assms(3,4), of "[]"]
  by (simp add: load_peer_state_def save_peer_state_def Let_def sub_bytes_def)

end
