(* ===== verification/Application.thy ===== *)
theory Application
  imports ApiClient RuntimeConnect
begin

text \<open>
  What the application can rely on when it uses a client: that nothing it was sent is lost or repeated,
  that a saved client opens again, whose identity a password makes, and what its device list is worth.
\<close>

section \<open>A client to try\<close>

definition demo_host :: host where
  "demo_host = \<lparr>h_bound = Ok (V4 zero_arr 7), h_draws = \<lambda>_. zero_arr, h_salt = zero_arr, h_nonce = zero_arr\<rparr>"

definition demo_disk :: disk where
  "demo_disk = \<lparr>d_files = [], d_refused = {}, d_creatable = True\<rparr>"

definition demo_seed :: "string \<Rightarrow> bytes" where
  "demo_seed pw = ascii pw @ [1]"

lemma write_files_total: "d_refused d = {} \<Longrightarrow> \<exists>d'. write_files fs d = (d', Ok ()) \<and> d_refused d' = {}"
  by (induction fs arbitrary: d) (auto simp: fs_write_def)

lemma master_total:
  assumes "hkdf_ok C"
  shows "\<exists>m. master_from_mnemonic C to_seed pw = Ok m"
proof -
  obtain seed where "derive_key C (to_seed (case pw of None \<Rightarrow> '''' | Some p \<Rightarrow> p)) None (ascii ''insub-master-ed25519-v1'') = Ok seed"
    using derive_key_total [OF assms] by blast
  then show ?thesis unfolding master_from_mnemonic_def by (simp only: res.case) blast
qed

lemma keychain_total:
  assumes "hkdf_ok C"
  shows "\<exists>k. keychain_from_mnemonic C to_seed pw = Ok k"
proof -
  let ?s = "to_seed (case pw of None \<Rightarrow> '''' | Some p \<Rightarrow> p)"
  obtain ed where "derive_key C ?s None (ascii ''keychain-ed25519'') = Ok ed" using derive_key_total [OF assms] by blast
  moreover obtain x where "derive_key C ?s None (ascii ''keychain-x25519'') = Ok x" using derive_key_total [OF assms] by blast
  ultimately show ?thesis unfolding keychain_from_mnemonic_def Let_def by (simp only: res.case) blast
qed

lemma demo_keychain_save:
  "\<exists>d. keychain_save demo_crypto demo_host ''keychain'' pw k demo_disk = (d, Ok ()) \<and> map_of (d_files d) ''peer_state'' = None \<and> d_refused d = {}"
proof -
  obtain bs where "keychain_serialize demo_crypto (h_salt demo_host) (h_nonce demo_host) (map_option ascii pw) k = Ok bs"
    by (cases pw) (auto simp: keychain_serialize_def encrypt_with_password_def argon_derive_key_def cipher_encrypt_def demo_crypto_def)
  then show ?thesis by (simp add: keychain_save_def fs_write_def demo_disk_def)
qed

lemma demo_new:
  "\<exists>d c. api_new (\<lambda>r. r) demo_crypto demo_host demo_seed pw seeds demo_disk = (d, Ok (c :: demo_noise_state client)) \<and>
     d_refused (cl_disk c) = {}"
proof -
  have h: "hkdf_ok demo_crypto" using demo_crypto_ok by (simp add: crypto_ok_def)
  obtain master where m: "master_from_mnemonic demo_crypto demo_seed None = Ok master" using master_total [OF h] by blast
  obtain k where k: "keychain_from_mnemonic demo_crypto demo_seed pw = Ok k" using keychain_total [OF h] by blast
  obtain d where d: "keychain_save demo_crypto demo_host ''keychain'' pw k demo_disk = (d, Ok ())"
    "map_of (d_files d) ''peer_state'' = None" "d_refused d = {}" using demo_keychain_save by blast
  let ?cert = "cert_new demo_crypto master (k_ed25519_pub k) (k_x25519_pub k)"
  have cert: "certify demo_crypto master k = Ok ?cert" by (simp add: certify_def demo_crypto_def)
  obtain l where l: "add_device demo_crypto master ?cert (list_new demo_crypto master) = Ok l"
    by (simp add: add_device_def list_new_def MAX_DEVICES_def Let_def add_or_panic_def)
  obtain r where r: "start_runtime demo_crypto demo_host (m_public_key master) k ?cert = Ok (r :: demo_noise_state runtime)"
    by (simp add: start_runtime_def demo_host_def)
  note f = start_runtime_facts [OF r]
  obtain reg where reg: "own_registry demo_crypto (m_public_key master) (rt_address r) = Ok reg"
    by (simp add: own_registry_def relay_entry_new_def)
  obtain r1 where r1: "settle demo_crypto d (enable_relay reg r) = Ok r1"
    using f by (simp add: settle_def d(2) subscribe_def subscribe_sessions_def enable_relay_def)
  obtain d' where d': "write_files (files_of (client_on r1 (m_public_key master) ?cert l reg d seeds)) d = (d', Ok ())" "d_refused d' = {}"
    using write_files_total [OF d(3)] by blast
  have c: "create_dir_all demo_disk = Ok ()" by (simp add: create_dir_all_def demo_disk_def)
  show ?thesis
    using d' by (simp add: api_new_def c m k d(1) cert l r reg r1 stored_def api_save_eq client_on_def)
qed

section \<open>A node that knows one other\<close>

lemma closest_single:
  assumes "rt_ok rt" and "set (active_nodes rt) = {n}"
  shows "closest_nodes t K rt = [n]"
proof -
  let ?c = "closest_nodes t K rt"
  have f: "distinct (map fst ?c)" "set ?c \<subseteq> {n}" "length ?c = min K (length (active_nodes rt))"
    using closest_nodes_facts [OF assms(1), of t K] assms(2) by auto
  have "length (active_nodes rt) \<noteq> 0" using assms(2) by auto
  then have "?c \<noteq> []" using f(3) by (auto simp: K_def min_def split: if_splits)
  then obtain x xs where c: "?c = x # xs" by (cases ?c) auto
  then have "x = n" using f(2) by simp
  moreover have "xs = []"
  proof (rule ccontr)
    assume "xs \<noteq> []"
    then have "hd xs \<in> set xs" by simp
    then show False using f(1,2) \<open>x = n\<close> unfolding c by auto
  qed
  ultimately show ?thesis using c by simp
qed

lemma active_nodes_one:
  assumes "node \<noteq> self"
  shows "set (active_nodes (fst (add_node now node addr (routing_new self)))) = {(node, addr)}"
proof -
  let ?i = "bucket_index (routing_new self) node"
  let ?e = "\<lparr>e_id = node, e_addr = addr, last_seen = now, last_pinged = None\<rparr>"
  have i: "?i < 256" by (rule bucket_index_less)
  have bk: "buckets (fst (add_node now node addr (routing_new self))) = (replicate 256 bucket_new)[?i := \<lparr>active = [?e], candidates = []\<rparr>]"
    using assms i by (simp add: add_node_def routing_new_def Let_def bucket_new_def entry_position_def K_def)
  have "(\<exists>e j. n = node_of e \<and> j < 256 \<and> e \<in> set (active ((replicate 256 bucket_new)[?i := \<lparr>active = [?e], candidates = []\<rparr>] ! j))) \<longleftrightarrow>
    n = (node, addr)" for n
  proof
    assume "n = (node, addr)"
    then show "\<exists>e j. n = node_of e \<and> j < 256 \<and> e \<in> set (active ((replicate 256 bucket_new)[?i := \<lparr>active = [?e], candidates = []\<rparr>] ! j))"
      using i by (intro exI [of _ ?e] exI [of _ ?i]) (simp add: node_of_def)
  qed (auto simp: nth_list_update bucket_new_def node_of_def split: if_splits)
  then show ?thesis unfolding active_nodes_def window_set bk by blast
qed

text \<open>Lookups that the only known node does not answer.\<close>

lemma lone_lookup:
  assumes "rt_ok (rt_routing r)" and "set (active_nodes (rt_routing r)) = {n}"
  shows "\<exists>r'. lookup_node t [(now, [])] r = Some (r', Ok [n]) \<and> rt_routing r' = rt_routing r \<and> kept r r'"
    and "\<exists>r'. find_value key [(now, [])] r = Some (r', Ok (None, [n])) \<and> rt_routing r' = rt_routing r \<and> kept r r'"
proof -
  obtain i a where n: "n = (i, a)" by (cases n)
  note c = closest_single [OF assms]
  show "\<exists>r'. lookup_node t [(now, [])] r = Some (r', Ok [n]) \<and> rt_routing r' = rt_routing r \<and> kept r r'"
    by (simp add: lookup_node_def start_lookup_node_def c next_query_def n Let_def skip_node_def continue_lookup_def
      with_result_def lookup_result_def)
  show "\<exists>r'. find_value key [(now, [])] r = Some (r', Ok (None, [n])) \<and> rt_routing r' = rt_routing r \<and> kept r r'"
    by (simp add: find_value_def start_find_value_def c next_query_def n Let_def skip_node_def continue_lookup_def
      with_result_def lookup_result_def)
qed

lemma lone_publish:
  assumes "rt_ok (rt_routing r)" and "set (active_nodes (rt_routing r)) = {n}"
    and "rt_ed25519_priv r = Some sk" and "rt_master_pubkey r = Some pk"
  shows "\<exists>r'. publish_own C pk l [(now, [])] r = Some (r', Ok ())"
proof -
  obtain r' where "lookup_node (NodeID (contact_key_for C pk)) [(now, [])] r = Some (r', Ok [n])"
    using lone_lookup(1) [OF assms(1,2)] by blast
  then show ?thesis by (simp add: publish_own_def publish_contact_def assms(3,4) store_def Let_def)
qed

lemma lone_latest:
  assumes "rt_ok (rt_routing r)" and "set (active_nodes (rt_routing r)) = {n}"
  shows "\<exists>r'. latest_list C pk l [(now, [])] r = Some (r', Ok l) \<and> rt_routing r' = rt_routing r \<and> kept r r'"
proof -
  obtain r' where r': "find_value (contact_key_for C pk) [(now, [])] r = Some (r', Ok (None, [n]))"
    "rt_routing r' = rt_routing r" "kept r r'" using lone_lookup(2) [OF assms] by blast
  then show ?thesis by (simp add: latest_list_def find_contact_def contact_of_value_def)
qed

lemma lone_change:
  assumes "rt_ok (rt_routing (cl_rt c))" and "set (active_nodes (rt_routing (cl_rt c))) = {n}"
    and "rt_ed25519_priv (cl_rt c) = Some sk" and "rt_master_pubkey (cl_rt c) = Some (cl_our_pk c)"
    and "f (cl_device_list c) = Ok l" and "add_or_panic (sequence l) 1 = Ok sq" and "d_refused (cl_disk c) = {}"
  shows "\<exists>c'. change_list C f [(now, [])] [(now, [])] c = Some (c', Ok ()) \<and> cl_device_list c' = l\<lparr>sequence := sq\<rparr>"
proof -
  obtain r where l: "latest_list C (cl_our_pk c) (cl_device_list c) [(now, [])] (cl_rt c) = Some (r, Ok (cl_device_list c))"
    and r: "rt_routing r = rt_routing (cl_rt c)" "kept (cl_rt c) r" using lone_latest [OF assms(1,2)] by blast
  have "rt_ok (rt_routing r)" "set (active_nodes (rt_routing r)) = {n}" "rt_ed25519_priv r = Some sk" "rt_master_pubkey r = Some (cl_our_pk c)"
    using assms(1-4) r by (simp_all add: kept_def)
  from lone_publish [OF this, of C "l\<lparr>sequence := sq\<rparr>" now] obtain r' where
    "publish_own C (cl_our_pk c) (l\<lparr>sequence := sq\<rparr>) [(now, [])] r = Some (r', Ok ())" by blast
  then show ?thesis using assms(5-7) by (simp add: change_list_def l fs_write_def)
qed

text \<open>A client that issued its own certificate and knows one node that does not answer.\<close>

definition lone_client :: "master_key_pair \<Rightarrow> keychain \<Rightarrow> demo_noise_state client" where
  "lone_client m k =
     (let cert = cert_new demo_crypto m (k_ed25519_pub k) (k_x25519_pub k);
          l = \<lparr>sequence = 1, devices = [cert], list_signature = list_sign_data demo_crypto 1 [cert] m\<rparr>;
          r = set_device_cert cert (set_master_pubkey (m_public_key m)
                (runtime_bind (NodeID zero_arr) (V4 zero_arr 7) (Some (k_ed25519_priv k)) (k_x25519_priv k) (\<lambda>_. zero_arr)))
      in client_on (r\<lparr>rt_routing := fst (add_node (Instant 0) (NodeID (demo_key 1)) (V4 zero_arr 8) (routing_new (NodeID zero_arr)))\<rparr>)
           (m_public_key m) cert l registry_new demo_disk [])"

lemma lone_client_facts:
  "rt_ok (rt_routing (cl_rt (lone_client m k)))" "set (active_nodes (rt_routing (cl_rt (lone_client m k)))) = {(NodeID (demo_key 1), V4 zero_arr 8)}"
  "rt_ed25519_priv (cl_rt (lone_client m k)) = Some (k_ed25519_priv k)"
  "rt_master_pubkey (cl_rt (lone_client m k)) = Some (cl_our_pk (lone_client m k))" "cl_our_pk (lone_client m k) = m_public_key m"
  "d_refused (cl_disk (lone_client m k)) = {}" "cl_disk (lone_client m k) = demo_disk"
  "cl_device_list (lone_client m k) = (let cert = cert_new demo_crypto m (k_ed25519_pub k) (k_x25519_pub k)
     in \<lparr>sequence = 1, devices = [cert], list_signature = list_sign_data demo_crypto 1 [cert] m\<rparr>)"
proof -
  have "last (bytes_of (demo_key 1)) \<noteq> last (bytes_of (zero_arr :: 32 arr))" by (simp add: demo_key_def)
  then have "NodeID (demo_key 1) \<noteq> NodeID zero_arr" by auto
  from active_nodes_one [OF this] show "set (active_nodes (rt_routing (cl_rt (lone_client m k)))) = {(NodeID (demo_key 1), V4 zero_arr 8)}"
    by (simp add: lone_client_def Let_def client_on_def)
  show "rt_ok (rt_routing (cl_rt (lone_client m k)))"
    by (simp add: lone_client_def Let_def client_on_def routing_new_ok add_node_ok)
qed (simp_all add: lone_client_def Let_def client_on_def set_device_cert_def set_master_pubkey_def runtime_bind_def demo_disk_def)

lemma load_rx [simp]: "rt_msg_rx (fst (load_peer_state C bs r)) = rt_msg_rx r" "rt_sess_rx (fst (load_peer_state C bs r)) = rt_sess_rx r"
  unfolding load_peer_state_def by (simp_all split: res.split prod.split)

lemma position_le: "position P xs = Some i \<Longrightarrow> j < length xs \<Longrightarrow> P (xs ! j) \<Longrightarrow> i \<le> j"
proof (induction xs arbitrary: i j)
  case (Cons x xs)
  then show ?case by (cases j) (auto split: if_splits)
qed simp

text \<open>What a change of the list that succeeded did.\<close>

lemma change_list_result:
  assumes "change_list C f fws pws c = Some (c', Ok ())"
  shows "\<exists>r l0 l sq. latest_list C (cl_our_pk c) (cl_device_list c) fws (cl_rt c) = Some (r, Ok l0) \<and> f l0 = Ok l \<and>
    add_or_panic (sequence l) 1 = Ok sq \<and> cl_device_list c' = l\<lparr>sequence := sq\<rparr> \<and>
    contact_sent C (cl_device_list c') (rt_address r) (derive_id C (cl_our_pk c)) 3600 pws r (cl_rt c') \<and>
    map_of (d_files (cl_disk c')) ''device_list'' = Some (list_serialize (cl_device_list c'))"
proof -
  obtain r m where 1: "latest_list C (cl_our_pk c) (cl_device_list c) fws (cl_rt c) = Some (r, m)"
    using assms by (cases "latest_list C (cl_our_pk c) (cl_device_list c) fws (cl_rt c)") (auto simp: change_list_def)
  obtain l' where l': "and_then m (\<lambda>l. and_then (f l) (\<lambda>l. map_res (\<lambda>sq. l\<lparr>sequence := sq\<rparr>) (add_or_panic (sequence l) 1))) = Ok l'"
    using assms by (cases "and_then m (\<lambda>l. and_then (f l) (\<lambda>l. map_res (\<lambda>sq. l\<lparr>sequence := sq\<rparr>) (add_or_panic (sequence l) 1)))")
      (auto simp: change_list_def 1)
  obtain r2 o2 where 2: "publish_own C (cl_our_pk c) l' pws r = Some (r2, o2)"
    using assms by (auto simp: change_list_def 1 l')
  have "o2 = Ok ()" using assms by (cases o2) (auto simp: change_list_def 1 l' 2)
  with 2 have "contact_sent C l' (rt_address r) (derive_id C (cl_our_pk c)) 3600 pws r r2"
    by (simp add: publish_own_def publish_contact_sends)
  moreover from \<open>o2 = Ok ()\<close> have "cl_rt c' = r2 \<and> cl_device_list c' = l' \<and> map_of (d_files (cl_disk c')) ''device_list'' = Some (list_serialize l')"
    using assms by (auto simp: change_list_def 1 l' 2 fs_write_def split: if_splits)
  moreover from l' obtain l0 l sq where "m = Ok l0" "f l0 = Ok l" "add_or_panic (sequence l) 1 = Ok sq" "l' = l\<lparr>sequence := sq\<rparr>"
    unfolding and_then_eq_Ok map_res_eq by blast
  ultimately show ?thesis using 1 by blast
qed

text \<open>Verifying a list whose sequence number was bumped after it was signed.\<close>

lemma bumped_verify:
  "list_signature l = list_sign_data C (sequence l) (devices l) m \<Longrightarrow>
   list_verify C (l\<lparr>sequence := sq\<rparr>) u \<longleftrightarrow>
     user_verify C u (list_signed_data sq (devices l)) (master_sign C m (list_signed_data (sequence l) (devices l)))"
  by (simp add: list_verify_def list_sign_data_def)

section \<open>Properties\<close>

text \<open>
  C8. Nothing is lost, repeated or reordered between the runtime and the application: after any
  history, what the application has received by the end of a \<open>poll\<close> is every message that the runtime ever
  delivered and every session that it ever opened, in their order, and polling again gives nothing.
\<close>

theorem events_once:
  assumes "aead_ok C" and "reach (client_start N C pw) (client_step N C) (c, es)" and "api_poll c = (c', es')"
  shows "received (es @ es') = map (\<lambda>(msg, pk). (content msg, pk)) (rt_msgs (cl_rt c)) \<and> opened (es @ es') = rt_sess (cl_rt c) \<and>
    api_poll c' = (c', [])"
proof -
  have "session_ok C pw (c, es)" by (rule reach_app [OF assms(1,2)])
  then have "seen_ok c es" "cl_msgs_read c \<le> length (rt_msgs (cl_rt c))" "cl_sess_read c \<le> length (rt_sess (cl_rt c))"
    by (simp_all add: session_ok_def client_ok_def)
  from api_poll_seen [OF this assms(3)] show ?thesis using assms(3) by (auto simp: api_poll_def Let_def)
qed

theorem events_once_witness:
  "\<exists>d c. api_new (\<lambda>r. r) demo_crypto demo_host demo_seed None [] demo_disk = (d, Ok (c :: demo_noise_state client)) \<and>
     received (snd (api_poll c)) = map (\<lambda>(msg, pk). (content msg, pk)) (rt_msgs (cl_rt c))"
proof -
  obtain d c where new: "api_new (\<lambda>r. r) demo_crypto demo_host demo_seed None [] demo_disk = (d, Ok (c :: demo_noise_state client))"
    using demo_new by blast
  have a: "aead_ok demo_crypto" using demo_crypto_ok by (simp add: crypto_ok_def)
  have "client_start demo_noise demo_crypto None (c, [])"
    by (rule st_new [OF new]) (simp_all add: bg_ok_def bg_none demo_host_def)
  then have "reach (client_start demo_noise demo_crypto None) (client_step demo_noise demo_crypto) (c, [])" by (rule reach_init)
  from events_once [OF a this, of "fst (api_poll c)" "snd (api_poll c)"] new show ?thesis by auto
qed

text \<open>
  C9. Every client that is reached is well formed: the runtime has the client's identity and certificate and its maps
  are maps, the device list, the registry and the certificate are values that their parsers read back,
  every known peer stands under its own key, which is a valid key, with a list of at most five devices with valid
  keys, and the keychain in the storage directory opens with the client's password and holds the private keys in use.
\<close>

theorem client_well_typed:
  assumes "aead_ok C" and "reach (client_start N C pw) (client_step N C) (c, es)"
  shows "runtime_ok (cl_rt c) \<and> rt_master_pubkey (cl_rt c) = Some (cl_our_pk c) \<and> rt_device_cert (cl_rt c) = Some (cl_device_cert c) \<and>
    cert_from_serialized C (cert_serialize (cl_device_cert c)) = Ok (cl_device_cert c) \<and>
    list_from_serialized C (list_serialize (cl_device_list c)) = Ok (cl_device_list c) \<and>
    registry_from_serialized C (registry_serialize (cl_registry c)) = Ok (cl_registry c) \<and>
    (\<forall>pk i. map_of (cl_peers c) pk = Some i \<longrightarrow> pi_pk i = pk \<and> ed_valid C pk \<and> list_ok C (pi_device_list i)) \<and>
    (\<exists>k. keychain_load C ''keychain'' pw (cl_disk c) = Ok k \<and> rt_x25519_priv (cl_rt c) = k_x25519_priv k \<and>
       rt_ed25519_priv (cl_rt c) = Some (k_ed25519_priv k))"
proof -
  have "client_ok C pw c" using reach_app [OF assms] by (simp add: session_ok_def)
  then show ?thesis
    using cert_read_write [of C "cl_device_cert c" "[]"] registry_read_write [of "cl_registry c" C "[]"] list_roundtrip
    by (auto simp: client_ok_def keys_stored_def peers_ok_def)
qed

theorem client_well_typed_witness:
  "\<exists>d c k. api_new (\<lambda>r. r) demo_crypto demo_host demo_seed (Some ''pw'') [] demo_disk = (d, Ok (c :: demo_noise_state client)) \<and>
     keychain_load demo_crypto ''keychain'' (Some ''pw'') (cl_disk c) = Ok k \<and> rt_x25519_priv (cl_rt c) = k_x25519_priv k"
proof -
  obtain d c where new: "api_new (\<lambda>r. r) demo_crypto demo_host demo_seed (Some ''pw'') [] demo_disk = (d, Ok (c :: demo_noise_state client))"
    using demo_new by blast
  have a: "aead_ok demo_crypto" using demo_crypto_ok by (simp add: crypto_ok_def)
  have "client_start demo_noise demo_crypto (Some ''pw'') (c, [])"
    by (rule st_new [OF new]) (simp_all add: bg_ok_def bg_none demo_host_def)
  then have "reach (client_start demo_noise demo_crypto (Some ''pw'')) (client_step demo_noise demo_crypto) (c, [])" by (rule reach_init)
  from client_well_typed [OF a this] new show ?thesis by blast
qed

text \<open>
  C14. A client that has been saved opens again with its password, on whatever address the new process
  gets: as the same identity, with the same certificate, registry, device list and keys, and with what it
  knew of its peers, when those tables are small, the addresses carry no IPv6 flow information or scope
  and the keys are valid. Its list of contacted peers is empty.
\<close>

theorem saved_client_opens:
  assumes "aead_ok C" and "reach (client_start N C pw) (client_step N C) (c, es)" and "api_save c = (c', Ok ())"
    and "h_bound h = Ok a"
  shows "\<exists>c2 :: 'hs client. api_open C h pw seeds (cl_disk c') = Ok c2 \<and> cl_our_pk c2 = cl_our_pk c \<and>
    cl_device_cert c2 = cl_device_cert c \<and> cl_registry c2 = cl_registry c \<and> cl_device_list c2 = cl_device_list c \<and>
    cl_peers c2 = [] \<and> rt_address (cl_rt c2) = a \<and> rt_master_pubkey (cl_rt c2) = Some (cl_our_pk c) \<and>
    rt_x25519_priv (cl_rt c2) = rt_x25519_priv (cl_rt c) \<and> rt_ed25519_priv (cl_rt c2) = rt_ed25519_priv (cl_rt c) \<and>
    ((\<forall>(a, k) \<in> set (rt_peer_keys (cl_rt c)). canonical a \<and> ed_valid C k) \<and> length (rt_peer_keys (cl_rt c)) < 2 ^ 32 \<and>
     (\<forall>(k, a) \<in> set (rt_pk_to_addr (cl_rt c)). canonical a) \<and> length (rt_pk_to_addr (cl_rt c)) < 2 ^ 32 \<and>
     length (serialize_peer_keys (rt_peer_keys (cl_rt c))) < 2 ^ 32 \<and> length (serialize_pk_to_addr (rt_pk_to_addr (cl_rt c))) < 2 ^ 32 \<longrightarrow>
     map_of (rt_peer_keys (cl_rt c2)) = map_of (rt_peer_keys (cl_rt c)) \<and> map_of (rt_pk_to_addr (cl_rt c2)) = map_of (rt_pk_to_addr (cl_rt c)))"
proof -
  have "session_ok C pw (c, es)" by (rule reach_app [OF assms(1,2)])
  then have ok: "client_ok C pw c" by (simp add: session_ok_def)
  let ?d = "cl_disk c'" and ?r = "cl_rt c"
  from api_save_ok [OF client_from_refl [OF ok] assms(3)] have ok': "client_ok C pw c'" by (rule client_from_ok)
  obtain d where d: "write_files (files_of c) (cl_disk c) = (d, Ok ())" "c' = c\<lparr>cl_disk := d\<rparr>"
    using assms(3) by (auto simp: api_save_eq) (metis prod.collapse)
  have content: "map_of (d_files ?d) name = Some bs" if "(name, bs, msg) \<in> set (files_of c)" for name bs msg
    using write_files_ok [OF d(1) _ that] d(2) by (simp add: files_of_def)
  have rd: "fs_read name msg' ?d = Ok bs" if "(name, bs, msg) \<in> set (files_of c)" for name bs msg msg'
    using content [OF that] by (simp add: fs_read_def)
  obtain k where k: "keychain_load C ''keychain'' pw ?d = Ok k" "rt_x25519_priv ?r = k_x25519_priv k" "rt_ed25519_priv ?r = Some (k_ed25519_priv k)"
    using ok' d(2) by (auto simp: client_ok_def keys_stored_def)
  have parse: "cert_from_serialized C (cert_serialize (cl_device_cert c)) = Ok (cl_device_cert c)"
    "registry_from_serialized C (registry_serialize (cl_registry c)) = Ok (cl_registry c)"
    "list_from_serialized C (list_serialize (cl_device_list c)) = Ok (cl_device_list c)"
    using ok cert_read_write [of C "cl_device_cert c" "[]"] registry_read_write [of "cl_registry c" C "[]"] list_roundtrip
    by (simp_all add: client_ok_def)
  obtain r0 where r0: "start_runtime C h (cl_our_pk c) k (cl_device_cert c) = Ok (r0 :: 'hs runtime)"
    using assms(4) by (simp add: start_runtime_def)
  note f = start_runtime_facts [OF r0]
  define l where "l = load_peer_state C (save_peer_state ?r) (enable_relay (cl_registry c) r0)"
  have lk: "kept r0 (fst l)" "rt_msg_rx (fst l)" "rt_sess_rx (fst l)" "snd l \<noteq> Panic"
    using kept_load [of r0 "enable_relay (cl_registry c) r0"] f load_not_Panic
    unfolding l_def load_rx by (simp_all add: enable_relay_def)
  define r1 where "r1 = fst l\<lparr>rt_msg_rx := False, rt_sess_rx := False\<rparr>"
  have r1: "settle C ?d (enable_relay (cl_registry c) r0) = Ok r1"
    using lk content [of "''peer_state''" "save_peer_state ?r" "''cannot create peer state: {e}''"]
    by (simp add: settle_def files_of_def flip: l_def) (auto simp: r1_def subscribe_def subscribe_sessions_def split: prod.split res.split)
  have tables: "map_of (rt_peer_keys r1) = map_of (rt_peer_keys ?r) \<and> map_of (rt_pk_to_addr r1) = map_of (rt_pk_to_addr ?r)"
    if "\<forall>(a, k) \<in> set (rt_peer_keys ?r). canonical a \<and> ed_valid C k" "length (rt_peer_keys ?r) < 2 ^ 32"
     "\<forall>(k, a) \<in> set (rt_pk_to_addr ?r). canonical a" "length (rt_pk_to_addr ?r) < 2 ^ 32"
     "length (serialize_peer_keys (rt_peer_keys ?r)) < 2 ^ 32" "length (serialize_pk_to_addr (rt_pk_to_addr ?r)) < 2 ^ 32"
    using load_save_peer_state [OF that, where r' = "enable_relay (cl_registry c) r0"] ok
    by (simp add: r1_def l_def client_ok_def runtime_ok_def map_of_insert_all_hm)
  have "kept r0 r1" using lk(1) by (simp add: r1_def)
  moreover have "api_open C h pw seeds ?d = Ok (client_on r1 (cl_our_pk c) (cl_device_cert c) (cl_device_list c) (cl_registry c) ?d seeds)"
    using rd parse k(1) r0 r1 by (simp add: api_open_def files_of_def)
  ultimately show ?thesis using f tables k(2,3) assms(4) by (auto simp: client_on_def kept_def)
qed

theorem saved_client_opens_witness:
  "\<exists>d c c'. api_new (\<lambda>r. r) demo_crypto demo_host demo_seed (Some ''pw'') [] demo_disk = (d, Ok (c :: demo_noise_state client)) \<and>
     api_save c = (c', Ok ()) \<and>
     (\<exists>c2 :: demo_noise_state client. api_open demo_crypto demo_host (Some ''pw'') [] (cl_disk c') = Ok c2 \<and> cl_our_pk c2 = cl_our_pk c)"
proof -
  obtain d c where new: "api_new (\<lambda>r. r) demo_crypto demo_host demo_seed (Some ''pw'') [] demo_disk = (d, Ok (c :: demo_noise_state client))"
    and w: "d_refused (cl_disk c) = {}" using demo_new by blast
  have a: "aead_ok demo_crypto" using demo_crypto_ok by (simp add: crypto_ok_def)
  have b: "h_bound demo_host = Ok (V4 zero_arr 7)" by (simp add: demo_host_def)
  have "client_start demo_noise demo_crypto (Some ''pw'') (c, [])"
    by (rule st_new [OF new]) (simp_all add: bg_ok_def bg_none demo_host_def)
  then have r: "reach (client_start demo_noise demo_crypto (Some ''pw'')) (client_step demo_noise demo_crypto) (c, [])" by (rule reach_init)
  from write_files_total [OF w] obtain d' where "write_files (files_of c) (cl_disk c) = (d', Ok ())" by blast
  then have s: "api_save c = (c\<lparr>cl_disk := d'\<rparr>, Ok ())" by (simp add: api_save_eq)
  from saved_client_opens [OF a r s b] new s show ?thesis by blast
qed

text \<open>
  \<open>connect\<close> never notices that it could not join: the query loop skips nodes that do not answer
  and \<open>join\<close> succeeds whatever happened, even when nothing at all answered and the routing table
  is what it was. So the five attempts are one, and the only errors of \<open>connect\<close> are those of publishing.
\<close>

theorem connect_joins_once:
  "api_connect bg C wss pws c =
     Option.bind (join (cl_seeds c) (wss 0) (cl_rt c)) (\<lambda>(r, _).
       map_option (\<lambda>(r, out). (c\<lparr>cl_rt := r\<rparr>, out)) (publish_own C (cl_our_pk c) (cl_device_list c) pws (bg r))) \<and>
   (\<exists>r'. join [seed] [(now, [])] (cl_rt c) = Some (r', Ok ()) \<and> rt_routing r' = rt_routing (cl_rt c))"
proof
  have "join_retry bg (cl_seeds c) wss 5 (cl_rt c) = join (cl_seeds c) (wss 0) (cl_rt c)"
  proof (cases "join (cl_seeds c) (wss 0) (cl_rt c)")
    case (Some x)
    then have "x = (fst x, Ok ())" using join_Ok [of "cl_seeds c" "wss 0" "cl_rt c" "fst x" "snd x"] by (cases x) simp
    then obtain r where "join (cl_seeds c) (wss 0) (cl_rt c) = Some (r, Ok ())" using Some by metis
    then show ?thesis by (simp add: eval_nat_numeral)
  qed (simp add: eval_nat_numeral)
  then show "api_connect bg C wss pws c =
     Option.bind (join (cl_seeds c) (wss 0) (cl_rt c)) (\<lambda>(r, _).
       map_option (\<lambda>(r, out). (c\<lparr>cl_rt := r\<rparr>, out)) (publish_own C (cl_our_pk c) (cl_device_list c) pws (bg r)))"
    unfolding api_connect_def
    by (cases "join (cl_seeds c) (wss 0) (cl_rt c)") (auto dest: join_Ok)
  show "\<exists>r'. join [seed] [(now, [])] (cl_rt c) = Some (r', Ok ()) \<and> rt_routing r' = rt_routing (cl_rt c)"
    by (simp add: join_def start_join_def next_query_def Let_def skip_node_def continue_lookup_def)
qed



lemma demo_verify:
  assumes "user_verify demo_crypto u bs (master_sign demo_crypto m bs')" and "8 \<le> length bs" and "8 \<le> length bs'"
  shows "take 8 bs = take 8 bs'"
proof -
  let ?p = "bytes_of (user_public_key u)" and ?s = "bytes_of (m_private_key m)"
  have "take 64 (?s @ bs' @ replicate 64 0) = take 64 (?p @ bs @ replicate 64 0)"
    using assms(1) by (auto simp: user_verify_def master_sign_def demo_crypto_def dest: arg_cong [where f = bytes_of])
  then have "drop 32 (take 40 (take 64 (?s @ bs' @ replicate 64 0))) = drop 32 (take 40 (take 64 (?p @ bs @ replicate 64 0)))"
    by (simp only:)
  then show ?thesis using assms(2,3) by simp
qed

lemma demo_bumped:
  "\<not> user_verify demo_crypto u (list_signed_data (s + 2) ds) (master_sign demo_crypto m (list_signed_data (s + 1) ds))"
proof
  assume "user_verify demo_crypto u (list_signed_data (s + 2) ds) (master_sign demo_crypto m (list_signed_data (s + 1) ds))"
  from demo_verify [OF this] have "be_bytes 8 (s + 2) = be_bytes 8 (s + 1)" by (simp add: list_signed_data_def)
  then have "from_be (be_bytes 8 (s + 2)) = (from_be (be_bytes 8 (s + 1)) :: u64)" by simp
  then show False by (simp add: from_be_be_bytes)
qed

text \<open>
  C25. What \<open>revoke_device\<close> makes of the list that it fetched (or of the client's own): the first
  certificate with the key at the index goes, and the list is signed with the next sequence number. Then
  the number is bumped once more, and this list becomes the client's, is what its file holds and is in the record
  that is stored at each node found for the client's key: its signature is over another number than its own, so
  it verifies only if the signature of one message verifies another.
\<close>

theorem revoked_list_signed_for_other_number:
  assumes "api_revoke_device C to_seed i pw fws pws c = Some (c', Ok ())"
  shows "\<exists>m r l0 j. master_from_mnemonic C to_seed pw = Ok m \<and> m_public_key m = cl_our_pk c \<and>
    latest_list C (cl_our_pk c) (cl_device_list c) fws (cl_rt c) = Some (r, Ok l0) \<and> i < length (devices l0) \<and>
    j \<le> i \<and> device_ed25519_pubkey (devices l0 ! j) = device_ed25519_pubkey (devices l0 ! i) \<and>
    devices (cl_device_list c') = take j (devices l0) @ drop (Suc j) (devices l0) \<and>
    unat (sequence (cl_device_list c')) = unat (sequence l0) + 2 \<and> list_signature (cl_device_list c') = list_sign_data C (sequence l0 + 1) (devices (cl_device_list c')) m \<and>
    (list_verify C (cl_device_list c') u \<longleftrightarrow>
       user_verify C u (list_signed_data (sequence l0 + 2) (devices (cl_device_list c'))) (master_sign C m (list_signed_data (sequence l0 + 1) (devices (cl_device_list c'))))) \<and>
    contact_sent C (cl_device_list c') (rt_address r) (derive_id C (cl_our_pk c)) 3600 pws r (cl_rt c') \<and>
    map_of (d_files (cl_disk c')) ''device_list'' = Some (list_serialize (cl_device_list c'))"
proof -
  obtain m where m: "master_from_mnemonic C to_seed pw = Ok m" "m_public_key m = cl_our_pk c"
    and ch: "change_list C (revoke_at C m i) fws pws c = Some (c', Ok ())"
    using assms by (auto simp: api_revoke_device_def split: res.splits if_splits)
  from change_list_result [OF ch] obtain r l0 l sq where
    1: "latest_list C (cl_our_pk c) (cl_device_list c) fws (cl_rt c) = Some (r, Ok l0)" and l: "revoke_at C m i l0 = Ok l"
    and sq: "add_or_panic (sequence l) 1 = Ok sq" and c': "cl_device_list c' = l\<lparr>sequence := sq\<rparr>"
    "contact_sent C (cl_device_list c') (rt_address r) (derive_id C (cl_our_pk c)) 3600 pws r (cl_rt c')"
    "map_of (d_files (cl_disk c')) ''device_list'' = Some (list_serialize (cl_device_list c'))" by blast
  have i: "i < length (devices l0)" and rm: "remove_device C m (device_ed25519_pubkey (devices l0 ! i)) l0 = Ok l"
    using l by (auto simp: revoke_at_def map_err_eq split: if_splits)
  from rm obtain j where j: "position (\<lambda>d. device_ed25519_pubkey d = device_ed25519_pubkey (devices l0 ! i)) (devices l0) = Some j"
    "devices l = remove_at j (devices l0)" "unat (sequence l) = unat (sequence l0) + 1"
    "list_signature l = list_sign_data C (sequence l) (devices l) m"
    by (auto simp: remove_device_Ok)
  have "j \<le> i" by (rule position_le [OF j(1) i]) simp
  moreover have "sequence l = sequence l0 + 1" "sq = sequence l0 + 2"
    using rm sq by (auto simp: remove_device_def res_simps Let_def add_or_panic_def split: if_splits)
  moreover have "unat sq = unat (sequence l) + 1" using sq by (auto simp: add_or_panic_Ok)
  ultimately show ?thesis
    using m 1 i j c'(2,3) position_SomeD [OF j(1)] bumped_verify [OF j(4), of sq u] unfolding c'(1)
    by (intro exI [of _ m] exI [of _ r] exI [of _ l0] exI [of _ j]) (simp add: remove_at_def)
qed

theorem revoked_list_signed_for_other_number_witness:
  "\<exists>m k c'. api_revoke_device demo_crypto demo_seed 0 None [(Instant 0, [])] [(Instant 0, [])] (lone_client m k) = Some (c', Ok ()) \<and>
     \<not> list_verify demo_crypto (cl_device_list c') (UserID (m_public_key m))"
proof -
  have h: "hkdf_ok demo_crypto" using demo_crypto_ok by (simp add: crypto_ok_def)
  obtain m where m: "master_from_mnemonic demo_crypto demo_seed None = Ok m" using master_total [OF h] by blast
  obtain k where k: "keychain_from_mnemonic demo_crypto demo_seed None = Ok k" using keychain_total [OF h] by blast
  let ?c = "lone_client m k" and ?w = "[(Instant 0, [])] :: window list"
  note f = lone_client_facts [of m k]
  obtain l where l: "revoke_at demo_crypto m 0 (cl_device_list ?c) = Ok l" "sequence l = 2"
    by (simp add: f(8) Let_def revoke_at_def remove_device_def add_or_panic_def)
  have "add_or_panic (sequence l) 1 = Ok 3" by (simp add: l(2) add_or_panic_def)
  from lone_change [where f = "revoke_at demo_crypto m 0", OF f(1-4) l(1) this f(6), of demo_crypto "Instant 0"] obtain c' where
    "change_list demo_crypto (revoke_at demo_crypto m 0) ?w ?w ?c = Some (c', Ok ())" by blast
  then have r: "api_revoke_device demo_crypto demo_seed 0 None ?w ?w ?c = Some (c', Ok ())"
    by (simp add: api_revoke_device_def m f(5))
  from revoked_list_signed_for_other_number [OF r, of "UserID (m_public_key m)"]
  have "\<not> list_verify demo_crypto (cl_device_list c') (UserID (m_public_key m))" by (auto simp: demo_bumped)
  then show ?thesis using r by blast
qed

text \<open>
  C26. \<open>add_device\<close> takes the device keys from the mnemonic and the password alone, so they are those
  of every client that was started from the same two. Where the list that it fetched (or the client's
  own) has that device, no device is added: the sequence number moves and the old signature stays. Otherwise the
  certificate is appended and the list is signed for the number below the one it is published with.
\<close>

theorem added_device_has_keys_of_mnemonic:
  assumes "api_add_device C h to_seed pw fws pws c = Some (c', Ok ())"
  shows "\<exists>m k r l0. master_from_mnemonic C to_seed pw = Ok m \<and> m_public_key m = cl_our_pk c \<and> keychain_from_mnemonic C to_seed pw = Ok k \<and>
    latest_list C (cl_our_pk c) (cl_device_list c) fws (cl_rt c) = Some (r, Ok l0) \<and>
    (if contains_active l0 (k_ed25519_pub k) then cl_device_list c' = l0\<lparr>sequence := sequence l0 + 1\<rparr>
     else length (devices l0) < MAX_DEVICES \<and>
       devices (cl_device_list c') = devices l0 @ [cert_new C m (k_ed25519_pub k) (k_x25519_pub k)] \<and>
       sequence (cl_device_list c') = sequence l0 + 2 \<and>
       list_signature (cl_device_list c') = list_sign_data C (sequence l0 + 1) (devices (cl_device_list c')) m)"
proof -
  obtain m where m: "master_from_mnemonic C to_seed pw = Ok m" "m_public_key m = cl_our_pk c"
    using assms by (auto simp: api_add_device_def split: res.splits if_splits)
  obtain k where k: "keychain_from_mnemonic C to_seed pw = Ok k"
    using assms by (auto simp: api_add_device_def m split: res.splits)
  obtain d saved where d: "keychain_save C h (device_file (length (devices (cl_device_list c)))) pw k (cl_disk c) = (d, saved)" by fastforce
  have s: "saved = Ok ()" using assms by (cases saved) (simp_all add: api_add_device_def m k d)
  obtain cert where cert: "certify C m k = Ok cert" "cert = cert_new C m (k_ed25519_pub k) (k_x25519_pub k)"
    using assms by (cases "ed_valid C (k_ed25519_pub k)") (simp_all add: api_add_device_def m k d s certify_def)
  have "change_list C (add_unless_active C m cert) fws pws (c\<lparr>cl_disk := d\<rparr>) = Some (c', Ok ())"
    using assms by (simp add: api_add_device_def m k d s cert(1))
  from change_list_result [OF this] obtain r l0 l sq where
    1: "latest_list C (cl_our_pk c) (cl_device_list c) fws (cl_rt c) = Some (r, Ok l0)" "add_unless_active C m cert l0 = Ok l"
    "add_or_panic (sequence l) 1 = Ok sq" "cl_device_list c' = l\<lparr>sequence := sq\<rparr>" by auto
  have "device_ed25519_pubkey cert = k_ed25519_pub k" by (simp add: cert(2) cert_new_def)
  then show ?thesis
    using m k 1 by (intro exI [of _ m] exI [of _ k] exI [of _ r] exI [of _ l0])
      (auto simp: add_unless_active_def add_device_def map_err_eq and_then_eq_Ok add_or_panic_def Let_def cert(2) [symmetric] not_le
        split: if_splits)
qed

theorem added_device_has_keys_of_mnemonic_witness:
  "\<exists>m k c'. api_add_device demo_crypto demo_host demo_seed None [(Instant 0, [])] [(Instant 0, [])] (lone_client m k) = Some (c', Ok ()) \<and>
     devices (cl_device_list c') = devices (cl_device_list (lone_client m k))"
proof -
  have h: "hkdf_ok demo_crypto" using demo_crypto_ok by (simp add: crypto_ok_def)
  obtain m where m: "master_from_mnemonic demo_crypto demo_seed None = Ok m" using master_total [OF h] by blast
  obtain k where k: "keychain_from_mnemonic demo_crypto demo_seed None = Ok k" using keychain_total [OF h] by blast
  let ?w = "[(Instant 0, [])] :: window list" and ?f = "device_file (length (devices (cl_device_list (lone_client m k))))"
  note f = lone_client_facts [of m k]
  let ?cert = "cert_new demo_crypto m (k_ed25519_pub k) (k_x25519_pub k)"
  have cert: "certify demo_crypto m k = Ok ?cert" by (simp add: certify_def demo_crypto_def)
  obtain d where d: "keychain_save demo_crypto demo_host ?f None k (cl_disk (lone_client m k)) = (d, Ok ())" "d_refused d = {}"
    by (simp add: keychain_save_def keychain_serialize_def fs_write_def f(7) demo_disk_def Let_def)
  let ?c = "lone_client m k\<lparr>cl_disk := d\<rparr>" and ?l = "cl_device_list (lone_client m k)"
  have act: "contains_active ?l (k_ed25519_pub k)" by (simp add: f(8) Let_def contains_active_def cert_new_def)
  have l: "add_unless_active demo_crypto m ?cert ?l = Ok ?l" using act by (simp add: add_unless_active_def cert_new_def)
  have sq: "add_or_panic (sequence ?l) 1 = Ok 2" by (simp add: f(8) Let_def add_or_panic_def)
  have "\<exists>c'. change_list demo_crypto (add_unless_active demo_crypto m ?cert) ?w ?w ?c = Some (c', Ok ()) \<and>
      cl_device_list c' = ?l\<lparr>sequence := 2\<rparr>"
    by (rule lone_change) (use f l sq d(2) in simp_all)
  then obtain c' where "change_list demo_crypto (add_unless_active demo_crypto m ?cert) ?w ?w ?c = Some (c', Ok ())" by blast
  then have r: "api_add_device demo_crypto demo_host demo_seed None ?w ?w (lone_client m k) = Some (c', Ok ())"
    by (simp add: api_add_device_def m f(5) k d(1) cert)
  from added_device_has_keys_of_mnemonic [OF r] k obtain r0 l0 where
    x: "latest_list demo_crypto (cl_our_pk (lone_client m k)) ?l ?w (cl_rt (lone_client m k)) = Some (r0, Ok l0)"
    "contains_active l0 (k_ed25519_pub k) \<Longrightarrow> cl_device_list c' = l0\<lparr>sequence := sequence l0 + 1\<rparr>" by auto
  have "l0 = ?l" using x(1) lone_latest [OF f(1,2), of demo_crypto "cl_our_pk (lone_client m k)" ?l "Instant 0"] by auto
  then show ?thesis using r x(2) act by (intro exI [of _ m] exI [of _ k] exI [of _ c']) simp
qed

end
