(* ===== verification/ContactExchange.thy ===== *)
theory ContactExchange
  imports Application
begin

text \<open>
  Three runtimes and the DHT between them: a contact record that is published is stored by a node and
  found by another client, and what a client does with a record it found. Lemmas: the addresses in a
  routing table, one packet through \<open>tick_server\<close>, and lookups of a runtime that knows one node.
\<close>

section \<open>The addresses of a routing table\<close>

definition addrs_of :: "bucket \<Rightarrow> socket_addr set" where
  "addrs_of b = e_addr ` (set (active b) \<union> set (candidates b))"

definition plain :: "routing_table \<Rightarrow> bool" where
  "plain rt \<longleftrightarrow> (\<forall>b \<in> set (buckets rt). \<forall>a \<in> addrs_of b. canonical a)"

lemma set_remove_at: "set (remove_at i xs) \<subseteq> set xs"
  by (auto simp: remove_at_def dest: in_set_takeD in_set_dropD)

lemma addrs_demote: "addrs_of (demote_loop now i b) \<subseteq> addrs_of b"
proof (induction now i b rule: demote_loop.induct)
  case (1 now i b)
  show ?case
  proof (cases "i < length (active b)")
    case True
    let ?b = "b\<lparr>active := remove_at i (active b)\<rparr>"
    have r: "addrs_of (if length (candidates ?b) < K then ?b\<lparr>candidates := candidates ?b @ [active b ! i]\<rparr> else ?b) \<subseteq> addrs_of b"
      using True set_remove_at [of i "active b"] by (auto simp: addrs_of_def)
    show ?thesis
    proof (cases "is_stale now (active b ! i)")
      case st: True
      from subset_trans [OF 1(1) [OF True st refl refl] r] show ?thesis
        using True st by (subst demote_loop.simps) (simp add: Let_def)
    next
      case False
      then show ?thesis using 1(2) [OF True] True by (subst demote_loop.simps) simp
    qed
  qed (simp add: demote_loop.simps)
qed

lemma addrs_promote: "addrs_of (promote_loop b) \<subseteq> addrs_of b"
proof (induction b rule: promote_loop.induct)
  case (1 b)
  show ?case
  proof (cases "length (active b) < K \<and> candidates b \<noteq> []")
    case True
    then obtain i where i: "freshest (candidates b) = Some i" by (cases "freshest (candidates b)") auto
    let ?b = "b\<lparr>active := active b @ [candidates b ! i], candidates := remove_at i (candidates b)\<rparr>"
    have "addrs_of ?b \<subseteq> addrs_of b"
      using set_remove_at [of i "candidates b"] freshest_SomeD [OF i] by (auto simp: addrs_of_def)
    then show ?thesis using 1 True i by (subst promote_loop.simps) auto
  next
    case False
    then show ?thesis by (subst promote_loop.simps) auto
  qed
qed

lemma addrs_evict: "addrs_of (evict_bucket now b) \<subseteq> addrs_of b"
proof -
  have "addrs_of (b\<lparr>candidates := filter P (candidates b)\<rparr>) \<subseteq> addrs_of b" for P by (auto simp: addrs_of_def)
  then show ?thesis unfolding evict_bucket_def using addrs_promote addrs_demote by blast
qed

lemma plain_evict: "plain rt \<Longrightarrow> plain (evict_stale now rt)"
  using addrs_evict by (fastforce simp: plain_def evict_stale_def)

lemma plain_put:
  "plain rt \<Longrightarrow> \<forall>a \<in> addrs_of b. canonical a \<Longrightarrow> plain (rt\<lparr>buckets := (buckets rt)[i := b]\<rparr>)"
  by (auto simp: plain_def dest: set_update_subset_insert [THEN subsetD])

lemma plain_new: "plain (routing_new i)"
  by (simp add: plain_def routing_new_def bucket_new_def addrs_of_def)

lemma addrs_ping: "e_addr ` set (fst (ping_oldest now es)) \<subseteq> e_addr ` set es"
  by (auto simp: ping_oldest_def split: option.splits dest!: set_update_subset_insert [THEN subsetD] min_by_key_SomeD)

lemma ping_addr: "ping_oldest now es = (es', p) \<Longrightarrow> x \<in> set es' \<Longrightarrow> e_addr x \<in> e_addr ` set es"
  using addrs_ping [of now es] by auto

lemma remove_at_addr: "x \<in> set (remove_at i es) \<Longrightarrow> e_addr x \<in> e_addr ` set es"
  using set_remove_at [of i es] by auto

lemma plain_add_node:
  assumes "rt_ok rt" and "plain rt" and "canonical a"
  shows "plain (fst (add_node now i a rt))"
proof -
  let ?b = "buckets rt ! bucket_index rt i"
  have "?b \<in> set (buckets rt)" using assms(1) by (simp add: rt_ok_def)
  then have b: "\<forall>a \<in> addrs_of ?b. canonical a" using assms(2) by (simp add: plain_def)
  have c: "\<forall>a \<in> addrs_of b'. canonical a" if "addrs_of b' \<subseteq> insert a (addrs_of ?b)" for b' using that b assms(3) by blast
  show ?thesis
    unfolding add_node_def Let_def
    using assms(2)
    by (auto split: option.split prod.split intro!: plain_put c simp: addrs_of_def image_Un dest: remove_at_addr ping_addr)
qed

lemma plain_closest:
  assumes "rt_ok rt" and "plain rt"
  shows "nodes_ok (without_sender i (closest_nodes t K rt))"
proof -
  note c = closest_nodes_facts [OF assms(1), of t K]
  have len: "length (buckets rt) = 256" using assms(1) by (simp add: rt_ok_def)
  have "canonical (snd n)" if "n \<in> set (active_nodes rt)" for n
  proof -
    from that obtain e j where e: "n = node_of e" "j < 256" "e \<in> set (active (buckets rt ! j))"
      by (auto simp: active_nodes_def window_set)
    have "buckets rt ! j \<in> set (buckets rt)" using e(2) len by simp
    then show ?thesis using e assms(2) by (auto simp: plain_def addrs_of_def node_of_def)
  qed
  moreover have "length (without_sender i (closest_nodes t K rt)) < 65536"
  proof (rule le_less_trans)
    show "length (without_sender i (closest_nodes t K rt)) \<le> length (closest_nodes t K rt)" by (simp add: without_sender_def)
    show "length (closest_nodes t K rt) < 65536" using c by (simp add: K_def)
  qed
  ultimately show ?thesis using c by (auto simp: nodes_ok_def node_ok_def without_sender_def)
qed

section \<open>Packets of the DHT\<close>

text \<open>A packet that carries \<open>op\<close>, whatever header the transport gave it.\<close>

definition carries :: "packet \<Rightarrow> dht_operation \<Rightarrow> bool" where
  "carries pkt op \<longleftrightarrow> tag (payload pkt) = DhtOperation \<and> data (payload pkt) = op_serialize op \<and> op_ok op"

lemma carries_dht_packet: "op_ok op \<Longrightarrow> carries (dht_packet i op) op"
  by (simp add: carries_def dht_packet_def packet_new_def payload_new_def)

lemma carries_header [simp]: "carries (pkt\<lparr>header := h\<rparr>) op = carries pkt op"
  by (simp add: carries_def)

lemma carries_parse: "carries pkt op \<Longrightarrow> op_from_serialized (data (payload pkt)) = Ok op"
  by (simp add: carries_def dht_op.dec_enc)

text \<open>A node that serves takes one packet from its pile.\<close>

lemma node_serves:
  assumes "rt_server n = Some srv" and "rt_dht_pile n = []" and "carries pkt op"
    and "process_op now op sender (srv, rt_routing n) = ((srv', rt'), reply)"
  shows "\<exists>n'. tick_server now (sort_packet pkt sender n) = Ok n' \<and> rt_server n' = Some srv' \<and>
    rt_routing n' = evict_stale now rt' \<and> rt_dht_pile n' = [] \<and>
    (case reply of None \<Rightarrow> rt_out n' = rt_out n | Some (op', d) \<Rightarrow> \<exists>i. rt_out n' = rt_out n @ [(dht_packet i op', d)])"
proof -
  have s: "sort_packet pkt sender n = n\<lparr>rt_dht_pile := [(pkt, sender)]\<rparr>"
    using assms(2,3) by (simp add: sort_packet_def carries_def)
  note p = carries_parse [OF assms(3)]
  have d: "dht_process now pkt sender (srv, rt_routing n) = Ok ((srv', rt'), reply)"
    using assms(4) by (simp add: dht_process_def p)
  define n1 where "n1 = confirm_if_required pkt sender (case reply of None \<Rightarrow> n\<lparr>rt_dht_pile := [], rt_server := Some srv', rt_routing := rt'\<rparr>
     | Some (op', d) \<Rightarrow> send_dht_op op' d (n\<lparr>rt_dht_pile := [], rt_server := Some srv', rt_routing := rt'\<rparr>))"
  have "tick_server now (sort_packet pkt sender n) = Ok (n1\<lparr>rt_routing := evict_stale now (rt_routing n1)\<rparr>)"
    unfolding s by (simp add: tick_server_def serve_packet_def assms(1) p d n1_def Let_def)
  then show ?thesis
    by (simp add: n1_def confirm_if_required_def confirm_def send_dht_op_eq draw_u128_def draw_def split: option.split) blast
qed

section \<open>Lookups of a runtime that knows one node\<close>

lemma lone_lookup_out:
  assumes "rt_ok (rt_routing r)" and "set (active_nodes (rt_routing r)) = {(i, a)}"
  shows "\<exists>r' j. lookup_node t [(now, [])] r = Some (r', Ok [(i, a)]) \<and> kept r r' \<and> rt_id r' = rt_id r \<and>
    rt_out r' = rt_out r @ [(dht_packet j (FindNode (client_id (rt_client r)) t), a)]"
  by (simp add: lookup_node_def start_lookup_node_def closest_single [OF assms] next_query_def Let_def skip_node_def continue_lookup_def
      with_result_def lookup_result_def send_dht_op_eq draw_u128_def draw_def) blast

lemma arrive_dht_packet: "carries pkt op \<Longrightarrow> rt_dht_pile (arrive [(pkt, a)] r) = rt_dht_pile r @ [(pkt, a)]"
  by (simp add: arrive_def sort_packet_def carries_def)

lemma lone_find:
  assumes "rt_ok (rt_routing r)" and "set (active_nodes (rt_routing r)) = {(i, a)}" and "rt_dht_pile r = []"
    and v: "carries pkt (Value sid k (Some v) ns)"
  shows "\<exists>r' outs. find_value key [(now, [[(pkt, a)]])] r = Some (r', Ok (Some v, (i, a) # ns)) \<and> kept r r' \<and>
    rt_pk_to_addr r' = rt_pk_to_addr r \<and>
    rt_out r' = rt_out r @ (dht_packet (snd (draw_u128 r)) (FindValue (client_id (rt_client r)) key), a) # outs"
proof -
  let ?p = "\<lparr>target = NodeID key, find_value_key = Some key, shortlist = [(i, a)], queried = {i}, found_value = None\<rparr>"
  let ?op = "FindValue (client_id (rt_client r)) key"
  define r0 where "r0 = send_dht_op ?op a (r\<lparr>rt_client := (rt_client r)\<lparr>pending := Some ?p\<rparr>\<rparr>)"
  have st: "start_find_value key (rt_routing r) (rt_client r) = ((rt_client r)\<lparr>pending := Some ?p\<rparr>, Some (?op, a))"
    by (simp add: start_find_value_def closest_single [OF assms(1,2)] next_query_def Let_def)
  have pile: "rt_dht_pile (arrive [(pkt, a)] r0) = [(pkt, a)]"
    using assms(3) by (simp add: arrive_dht_packet [OF v] r0_def send_dht_op_eq draw_u128_def draw_def)
  have "\<not> skip_in_lookup pkt" using v by (simp add: skip_in_lookup_def carries_def op_serialize_def Let_def)
  then obtain r1 where r1: "recv_dht a [[(pkt, a)]] r0 = (r1, Ok (Value sid k (Some v) ns, a))"
    and e: "r1 = confirm_if_required pkt a ((arrive [(pkt, a)] r0)\<lparr>rt_dht_pile := []\<rparr>)"
    by (simp add: pile carries_parse [OF v] Let_def)
  have f0: "rt_client r0 = (rt_client r)\<lparr>pending := Some ?p\<rparr>" "rt_pk_to_addr r0 = rt_pk_to_addr r" "kept r r0"
    by (simp_all add: r0_def send_dht_op_eq draw_u128_def draw_def)
  have o0: "rt_out r0 = rt_out r @ [(dht_packet (snd (draw_u128 r)) ?op, a)]"
    by (simp add: r0_def send_dht_op_eq draw_u128_def draw_def)
  have f1: "rt_client r1 = rt_client r0" "rt_pk_to_addr r1 = rt_pk_to_addr r0" "rt_out r1 = rt_out r0" "kept r r1"
    using f0(3) by (simp_all add: e confirm_if_required_def confirm_def arrive_def sort_packet_def split: payload_tag.split)
  obtain rt ping where p: "add_node now sid a (rt_routing r1) = (rt, ping)" by fastforce
  define r2 where "r2 = (case ping of None \<Rightarrow> r1\<lparr>rt_routing := rt\<rparr>
    | Some (_, ping_addr) \<Rightarrow> send_dht_op (Ping (rt_id (r1\<lparr>rt_routing := rt\<rparr>))) ping_addr (r1\<lparr>rt_routing := rt\<rparr>))"
  have f2: "rt_client r2 = rt_client r1" "rt_pk_to_addr r2 = rt_pk_to_addr r1" "kept r r2" "prefix (rt_out r1) (rt_out r2)"
    using f1(4) by (auto simp: r2_def send_dht_op_eq draw_u128_def draw_def split: option.split)
  let ?r3 = "r2\<lparr>rt_client := (rt_client r)\<lparr>pending := Some (?p\<lparr>shortlist := (i, a) # ns, found_value := Some v\<rparr>)\<rparr>,
      rt_routing := add_nodes now ns (rt_routing r2)\<rparr>"
  have h: "handle_response now (Value sid k (Some v) ns) (rt_client r2, rt_routing r2) =
      ((rt_client ?r3, rt_routing ?r3), None, True)"
    by (simp add: handle_response_def Let_def f2 f1 f0)
  have "lookup_loop [(now, [[(pkt, a)]])] (Some (?op, a)) (r\<lparr>rt_client := (rt_client r)\<lparr>pending := Some ?p\<rparr>\<rparr>) = Some (?r3, Ok ())"
    using r1 h p by (simp add: r0_def [symmetric] Let_def del: recv_dht.simps flip: r2_def)
  then have "find_value key [(now, [[(pkt, a)]])] r = Some (?r3, Ok (Some v, (i, a) # ns))"
    by (simp add: find_value_def st with_result_def lookup_result_def)
  moreover obtain outs where "rt_out r2 = rt_out r1 @ outs" using f2(4) by (auto simp: prefix_def)
  ultimately show ?thesis using f2 f1 f0 o0 by (intro exI [of _ ?r3] exI [of _ outs]) simp
qed

section \<open>A published record\<close>

lemma lone_publish_out:
  assumes "rt_ok (rt_routing p)" and "set (active_nodes (rt_routing p)) = {(i, a)}"
    and "rt_ed25519_priv p = Some sk" and "rt_master_pubkey p = Some pk"
  shows "\<exists>p' j j'. publish_contact C l ra ri ttl [(now, [])] p = Some (p', Ok ()) \<and>
    rt_out p' = rt_out p @
      [(dht_packet j (FindNode (client_id (rt_client p)) (NodeID (contact_key_for C pk))), a),
       (dht_packet j' (Store (rt_id p) (contact_key_for C pk) (1 # contact_serialize (contact_new C l ra ri sk)) ttl), a)]"
proof -
  from lone_lookup_out [OF assms(1,2), of "NodeID (contact_key_for C pk)" now] obtain r' j where
    "lookup_node (NodeID (contact_key_for C pk)) [(now, [])] p = Some (r', Ok [(i, a)])" "rt_id r' = rt_id p"
    "rt_out r' = rt_out p @ [(dht_packet j (FindNode (client_id (rt_client p)) (NodeID (contact_key_for C pk))), a)]" by blast
  then show ?thesis
    by (simp add: publish_contact_def assms(3,4) store_def Let_def send_dht_op_eq draw_u128_def draw_def record_serialize_def record_new_def)
      blast
qed

lemma contact_new_good:
  assumes "ed_ok C" and "list_ok C l" and "canonical ra" and "d \<in> set (devices l)" and "device_ed25519_pubkey d = ed_pub C sk"
  shows "contact_of_value C (Some (1 # contact_serialize (contact_new C l ra ri sk))) = Ok (contact_new C l ra ri sk)"
    and "length (1 # contact_serialize (contact_new C l ra ri sk)) < 65536"
proof -
  let ?c = "contact_new C l ra ri sk"
  have dl: "cr_device_list ?c = l" "cr_relay_addr ?c = ra" by (simp_all add: contact_new_def)
  have "length (devices l) \<le> 5" using assms(2) by (simp add: list_ok_def MAX_DEVICES_def)
  moreover have "1 \<le> length (devices l)" using assms(4) by (cases "devices l") auto
  moreover have "length (write_address ra) \<le> 19" "7 \<le> length (write_address ra)" by (cases ra; simp)+
  ultimately have len: "217 \<le> length (contact_serialize ?c)" "length (contact_serialize ?c) \<le> 1024"
    unfolding length_contact_serialize dl by linarith+
  then show "length (1 # contact_serialize ?c) < 65536" by simp
  have "contact_ok C ?c" using assms(2,3) by (simp add: contact_ok_def dl)
  moreover have "contact_verify C ?c" by (rule contact_verify_own_list [OF assms(1,4,5)])
  ultimately show "contact_of_value C (Some (1 # contact_serialize ?c)) = Ok ?c"
    using len by (subst contact_of_value_exact) (simp add: exI [of _ "[]"])
qed

section \<open>Greeting the devices of a peer\<close>

text \<open>
  The handshake for one device, with the random values that the runtime draws from the \<open>n\<close>-th on: a
  session with the device's own X25519 key for the user, and its first message under a new tag in a
  frame for the user.
\<close>

definition greeting_at ::
    "'hs noise \<Rightarrow> crypto \<Rightarrow> 'hs runtime \<Rightarrow> 32 arr \<Rightarrow> nat \<Rightarrow> device_cert \<Rightarrow> 16 arr \<times> 'hs session \<times> packet \<Rightarrow> bool" where
  "greeting_at N C r pk n d = (\<lambda>(t, s, frame). \<exists>ma cert s0 m inner.
     rt_master_pubkey r = Some ma \<and> rt_device_cert r = Some cert \<and>
     new_initiator N (rt_x25519_priv r) (device_x25519_pubkey d) cert ma (UserID pk) = Ok s0 \<and>
     initiate_handshake N C (next_draw r (n + 1)) (next_draw r (n + 2)) (rt_address r) s0 = (s, Ok m) \<and>
     t = arr_of (take 16 (bytes_of (next_draw r n))) \<and> handshake_of inner t m \<and> frame_for C pk inner frame)"

definition greetings ::
    "'hs noise \<Rightarrow> crypto \<Rightarrow> 'hs runtime \<Rightarrow> 32 arr \<Rightarrow> device_cert list \<Rightarrow> (16 arr \<times> 'hs session \<times> packet) list \<Rightarrow> bool" where
  "greetings N C r pk ds gs \<longleftrightarrow> length gs \<le> length ds \<and> (\<forall>k < length gs. greeting_at N C r pk (5 * k) (ds ! k) (gs ! k))"

lemma greet_step:
  assumes 1: "enable_session_initiator N (device_x25519_pubkey d) (UserID pk) r = (r1, Ok t)"
    and 2: "rt_initiate_handshake N C t r1 = (r2, Ok u)" and a: "map_of (rt_pk_to_addr r) pk = Some a"
  shows "\<exists>s f. greeting_at N C r pk 0 d (t, s, f) \<and>
    r2 = r\<lparr>rt_pending := AList.update t (s, Some pk) (rt_pending r), rt_drawn := rt_drawn r + 5, rt_out := rt_out r @ [(f, a)]\<rparr>"
proof -
  from 1 obtain ma ca s0 where m: "rt_master_pubkey r = Some ma" "rt_device_cert r = Some ca"
    "new_initiator N (rt_x25519_priv r) (device_x25519_pubkey d) ca ma (UserID pk) = Ok s0"
    by (auto simp: enable_session_initiator_def res_simps split: res.splits)
  then have r1: "r1 = r\<lparr>rt_drawn := Suc (rt_drawn r), rt_pending := AList.update t (s0, Some pk) (rt_pending r)\<rparr>"
    using 1 by (auto simp: enable_session_initiator_def draw_tag Let_def)
  obtain s1 out where i: "initiate_handshake N C (next_draw r 1) (next_draw r 2) (rt_address r) s0 = (s1, out)" by fastforce
  moreover have "next_draw r 1 = rt_draws r (Suc (rt_drawn r))" "next_draw r 2 = rt_draws r (Suc (Suc (rt_drawn r)))"
    by (simp_all add: next_draw_def)
  ultimately have "out \<noteq> Panic \<and> (\<forall>e. out \<noteq> Err e)"
    using 2 by (cases out) (simp_all add: r1 rt_initiate_handshake_def draw_def Let_def)
  then obtain bs where "out = Ok bs" by (cases out) auto
  with i have i: "initiate_handshake N C (next_draw r 1) (next_draw r 2) (rt_address r) s0 = (s1, Ok bs)" by simp
  from initiates [OF m(1,2) a m(3) i] 1 2 obtain inner f where
    "t = next_tag r" "r2 = r\<lparr>rt_pending := AList.update t (s1, Some pk) (rt_pending r), rt_drawn := rt_drawn r + 5, rt_out := rt_out r @ [(f, a)]\<rparr>"
    "frame_for C pk inner f" "handshake_of inner t bs" by auto
  moreover from this m i have "greeting_at N C r pk 0 d (t, s1, f)"
    unfolding greeting_at_def prod.case add_0_left next_tag_def by blast
  ultimately show ?thesis by blast
qed

lemma greeting_at_later:
  "greeting_at N C (r\<lparr>rt_pending := p, rt_drawn := rt_drawn r + k, rt_out := out\<rparr>) pk n d = greeting_at N C r pk (k + n) d"
  by (simp add: greeting_at_def next_draw_def fun_eq_iff algebra_simps)

lemma initiate_fails:
  assumes "rt_initiate_handshake N C t r = (r', out)" and "out \<noteq> Ok ()"
  shows "rt_out r' = rt_out r \<and> rt_pk_to_addr r' = rt_pk_to_addr r"
  using assms
  by (auto simp: rt_initiate_handshake_def draw_def draw_u128_def Let_def split: option.splits prod.splits res.splits)

lemma enable_fails:
  assumes "enable_session_initiator N px pu r = (r', out)"
  shows "rt_out r' = rt_out r \<and> rt_pk_to_addr r' = rt_pk_to_addr r"
  using assms by (auto simp: enable_session_initiator_def draw_def draw_u128_def Let_def split: res.splits)

text \<open>\<open>greet\<close> on every branch: the devices served, and what is pending when all were.\<close>

lemma greet_sends:
  assumes "greet N C (UserID pk) ds r = (r', out)" and "map_of (rt_pk_to_addr r) pk = Some a"
  shows "\<exists>gs. greetings N C r pk ds gs \<and> rt_out r' = rt_out r @ map (\<lambda>(_, _, f). (f, a)) gs \<and>
    rt_pk_to_addr r' = rt_pk_to_addr r \<and> (out = Ok () \<longleftrightarrow> length gs = length ds) \<and>
    (out = Ok () \<longrightarrow> map_of (rt_pending r') = fold (\<lambda>(t, s, _) m. m(t \<mapsto> (s, Some pk))) gs (map_of (rt_pending r)))"
  using assms
proof (induction ds arbitrary: r)
  case Nil
  then show ?case by (simp add: greetings_def)
next
  case (Cons d ds)
  obtain r1 o1 where 1: "enable_session_initiator N (device_x25519_pubkey d) (UserID pk) r = (r1, o1)" by fastforce
  note f1 = enable_fails [OF 1]
  show ?case
  proof (cases o1)
    case t: (Ok t)
    obtain r2 o2 where 2: "rt_initiate_handshake N C t r1 = (r2, o2)" by fastforce
    show ?thesis
    proof (cases "o2 = Ok ()")
      case True
      then obtain s f where g: "greeting_at N C r pk 0 d (t, s, f)" "r2 = r\<lparr>rt_pending := AList.update t (s, Some pk) (rt_pending r),
          rt_drawn := rt_drawn r + 5, rt_out := rt_out r @ [(f, a)]\<rparr>"
        using greet_step [OF 1 [unfolded t] _ Cons.prems(2)] 2 by blast
      have rest: "greet N C (UserID pk) ds r2 = (r', out)" using Cons.prems(1) 1 2 t True by simp
      have "map_of (rt_pk_to_addr r2) pk = Some a" using Cons.prems(2) g(2) by simp
      from Cons.IH [OF rest this] obtain gs where ih: "greetings N C r2 pk ds gs"
        "rt_out r' = rt_out r2 @ map (\<lambda>(_, _, f). (f, a)) gs" "rt_pk_to_addr r' = rt_pk_to_addr r2"
        "out = Ok () \<longleftrightarrow> length gs = length ds"
        "out = Ok () \<longrightarrow> map_of (rt_pending r') = fold (\<lambda>(t, s, _) m. m(t \<mapsto> (s, Some pk))) gs (map_of (rt_pending r2))" by blast
      have "greetings N C r pk (d # ds) ((t, s, f) # gs)"
        using ih(1) g(1) unfolding greetings_def g(2) greeting_at_later by (auto simp: less_Suc_eq_0_disj)
      then show ?thesis
        using ih(2-5) by (intro exI [of _ "(t, s, f) # gs"]) (simp add: g(2) fun_upd_def update_conv')
    next
      case False
      then have "out \<noteq> Ok () \<and> r' = r2" using Cons.prems(1) 1 2 t by (auto split: res.splits)
      then show ?thesis using initiate_fails [OF 2 False] f1 by (intro exI [of _ "[]"]) (simp add: greetings_def)
    qed
  qed (use 1 f1 Cons.prems(1) in \<open>auto simp: greetings_def intro!: exI [of _ "[]"]\<close>)
qed

lemma greet_total:
  assumes "\<And>own peer. n_initiator N own peer \<noteq> None" and "\<And>e h b. snd (n_write N e h b) \<noteq> None"
    and "rt_master_pubkey r \<noteq> None" and "rt_device_cert r \<noteq> None" and "map_of (rt_pk_to_addr r) pk \<noteq> None"
  shows "\<exists>r'. greet N C (UserID pk) ds r = (r', Ok ())"
  using assms(3-5)
proof (induction ds arbitrary: r)
  case (Cons d ds)
  then obtain ma ca a where m: "rt_master_pubkey r = Some ma" "rt_device_cert r = Some ca" "map_of (rt_pk_to_addr r) pk = Some a" by blast
  obtain h where h: "n_initiator N (bytes_of (rt_x25519_priv r)) (bytes_of (device_x25519_pubkey d)) = Some h"
    using assms(1) by blast
  obtain s0 where s0: "new_initiator N (rt_x25519_priv r) (device_x25519_pubkey d) ca ma (UserID pk) = Ok s0"
    "s_initiator s0 = Some \<lparr>handshake = Some h\<rparr>" "s_our_master_pubkey s0 = Some ma"
    by (simp add: new_initiator_def initiator_new_def h)
  let ?w = "n_write N (next_draw r 2) h (bytes_of (x_pub C (next_draw r 1)) @ cert_serialize (s_our_cert s0) @ bytes_of ma @ write_address (rt_address r))"
  obtain out where "snd ?w = Some out" using assms(2) by blast
  then obtain h' where w: "?w = (h', Some out)" by (cases ?w) auto
  obtain s1 where s1: "initiate_handshake N C (next_draw r 1) (next_draw r 2) (rt_address r) s0 = (s1, Ok out)"
    by (simp add: initiate_handshake_def s0 initiator_initiate_def Let_def w del: One_nat_def)
  from initiates [OF m s0(1) s1] obtain a1 outer where
    1: "enable_session_initiator N (device_x25519_pubkey d) (UserID pk) r = (a1, Ok (next_tag r))"
    "rt_initiate_handshake N C (next_tag r) a1 = (r\<lparr>rt_pending := AList.update (next_tag r) (s1, Some pk) (rt_pending r), rt_drawn := rt_drawn r + 5,
         rt_out := rt_out r @ [(outer, a)]\<rparr>, Ok ())" (is "_ = (?r2, _)") by blast
  have "\<exists>r'. greet N C (UserID pk) ds ?r2 = (r', Ok ())" by (rule Cons.IH) (use m in simp_all)
  then show ?case by (simp add: 1)
qed simp

section \<open>Properties\<close>

text \<open>
  C4. Publishing, storing and finding, over three runtimes: a client that knows a node publishes its
  contact record, the node stores the packet that was sent to it, and another client that knows the
  node asks for the record before its time to live is over. The node's answer lets it return exactly the record that
  was published: the device list, the relay address and the relay id, signed by the publisher's device. The
  transport may give the packets any headers.
\<close>

theorem published_contact_found:
  assumes p: "rt_ok (rt_routing p)" "set (active_nodes (rt_routing p)) = {(i, na)}" "rt_ed25519_priv p = Some sk" "rt_master_pubkey p = Some pk"
    and n: "rt_server n = Some srv" "rt_dht_pile n = []" "rt_ok (rt_routing n)" "plain (rt_routing n)" "canonical pa"
    and s: "rt_ok (rt_routing s)" "set (active_nodes (rt_routing s)) = {(i, na)}" "rt_dht_pile s = []"
    and l: "ed_ok C" "list_ok C l" "canonical ra" "d \<in> set (devices l)" "device_ed25519_pubkey d = ed_pub C sk"
    and ttl: "nanos t2 < nanos t1 + from_secs (unat ttl)"
  shows "\<exists>p' q st n1 fv n2 reply s'.
    publish_contact C l ra ri ttl [(t0, [])] p = Some (p', Ok ()) \<and> rt_out p' = rt_out p @ [(q, na), (st, na)] \<and>
    tick_server t1 (sort_packet (st\<lparr>header := h1\<rparr>) pa n) = Ok n1 \<and>
    tick_server t2 (sort_packet (fv\<lparr>header := h2\<rparr>) sa n1) = Ok n2 \<and> rt_out n2 = rt_out n1 @ [(reply, sa)] \<and>
    find_contact C pk [(t3, [[(reply\<lparr>header := h3\<rparr>, na)]])] s = Some (s', Ok (contact_new C l ra ri sk)) \<and>
    prefix (rt_out s @ [(fv, na)]) (rt_out s')"
proof -
  let ?key = "contact_key_for C pk" and ?c = "contact_new C l ra ri sk"
  let ?v = "1 # contact_serialize ?c"
  note good = contact_new_good [OF l, of ri]
  from lone_publish_out [OF p, of C l ra ri ttl t0] obtain p' j1 j2 where
    pub: "publish_contact C l ra ri ttl [(t0, [])] p = Some (p', Ok ())"
    "rt_out p' = rt_out p @ [(dht_packet j1 (FindNode (client_id (rt_client p)) (NodeID ?key)), na),
       (dht_packet j2 (Store (rt_id p) ?key ?v ttl), na)]" by blast
  let ?st = "dht_packet j2 (Store (rt_id p) ?key ?v ttl)"
  have st: "carries (?st\<lparr>header := h1\<rparr>) (Store (rt_id p) ?key ?v ttl)" using good(2) by (simp add: carries_dht_packet)
  obtain srv1 rt1 rep1 where p1: "process_op t1 (Store (rt_id p) ?key ?v ttl) pa (srv, rt_routing n) = ((srv1, rt1), rep1)"
    by (metis prod.exhaust)
  then have srv1: "map_of (dht_store srv1) ?key = Some (?v, Instant (nanos t1 + from_secs (unat ttl)))"
    and rt1: "rt1 = fst (add_node t1 (rt_id p) pa (rt_routing n))" by (auto simp: process_op_def Let_def)
  from node_serves [OF n(1,2) st p1] obtain n1 where n1: "tick_server t1 (sort_packet (?st\<lparr>header := h1\<rparr>) pa n) = Ok n1"
    "rt_server n1 = Some srv1" "rt_routing n1 = evict_stale t1 rt1" "rt_dht_pile n1 = []" by blast
  have tab: "rt_ok (rt_routing n1)" "plain (rt_routing n1)"
    using n(3-5) by (simp_all add: n1(3) rt1 evict_stale_ok add_node_ok plain_evict plain_add_node)
  let ?sid = "client_id (rt_client s)"
  let ?ns = "without_sender ?sid (closest_nodes (NodeID ?key) K (rt_routing n1))"
  let ?fv = "dht_packet (snd (draw_u128 s)) (FindValue ?sid ?key)"
  have fv: "carries (?fv\<lparr>header := h2\<rparr>) (FindValue ?sid ?key)" by (simp add: carries_dht_packet)
  have sv: "stored_value t2 ?key srv1 = Some ?v" using srv1 ttl by (simp add: stored_value_def less_instant_def)
  have p2: "process_op t2 (FindValue ?sid ?key) sa (srv1, rt_routing n1) =
      ((srv1, fst (add_node t2 ?sid sa (rt_routing n1))), Some (Value (node_id_of srv1) ?key (Some ?v) ?ns, sa))"
    by (simp add: process_op_def Let_def sv)
  from node_serves [OF n1(2,4) fv p2] obtain n2 j where n2: "tick_server t2 (sort_packet (?fv\<lparr>header := h2\<rparr>) sa n1) = Ok n2"
    "rt_out n2 = rt_out n1 @ [(dht_packet j (Value (node_id_of srv1) ?key (Some ?v) ?ns), sa)]" by auto
  let ?reply = "dht_packet j (Value (node_id_of srv1) ?key (Some ?v) ?ns)"
  have "op_ok (Value (node_id_of srv1) ?key (Some ?v) ?ns)" using good(2) plain_closest [OF tab] by simp
  then have "carries (?reply\<lparr>header := h3\<rparr>) (Value (node_id_of srv1) ?key (Some ?v) ?ns)" by (simp add: carries_dht_packet)
  from lone_find [OF s this, of ?key t3] obtain s' outs where
    s': "find_value ?key [(t3, [[(?reply\<lparr>header := h3\<rparr>, na)]])] s = Some (s', Ok (Some ?v, (i, na) # ?ns))"
    "rt_out s' = rt_out s @ (?fv, na) # outs" by blast
  have f: "find_contact C pk [(t3, [[(?reply\<lparr>header := h3\<rparr>, na)]])] s = Some (s', Ok ?c)"
    unfolding find_contact_def s'(1) using good(1) by simp
  have "prefix (rt_out s @ [(?fv, na)]) (rt_out s')" by (simp add: s'(2) prefix_def)
  then show ?thesis using pub n1(1) n2 f by blast
qed

definition demo_keys :: keychain where
  "demo_keys = \<lparr>has_password = False, k_ed25519_pub = demo_key 3, k_ed25519_priv = demo_key 3,
     k_x25519_pub = demo_key 4, k_x25519_priv = demo_key 4\<rparr>"

lemma lone_client_list:
  "list_ok demo_crypto (cl_device_list (lone_client m k))" "cert_new demo_crypto m (k_ed25519_pub k) (k_x25519_pub k) \<in> set (devices (cl_device_list (lone_client m k)))"
  by (simp_all add: lone_client_facts(8) Let_def list_ok_def MAX_DEVICES_def cert_ok_def cert_new_def demo_crypto_def)

theorem published_contact_found_witness:
  "\<exists>(s :: demo_noise_state runtime) pkt s' l pk. rt_out s = [] \<and>
     find_contact demo_crypto pk [(Instant 5, [[(pkt, V4 zero_arr 8)]])] s = Some (s', Ok (contact_new demo_crypto l (V4 zero_arr 9) 7 (demo_key 3))) \<and>
     length (devices l) = 1"
proof -
  let ?m = "demo_owner 1"
  let ?c = "lone_client ?m demo_keys"
  let ?n = "enable_server (runtime_bind (NodeID (demo_key 1)) (V4 zero_arr 8) None zero_arr (\<lambda>_. zero_arr)) :: demo_noise_state runtime"
  note f = lone_client_facts [of ?m demo_keys]
  have ed: "ed_ok demo_crypto" using demo_crypto_ok by (simp add: crypto_ok_def)
  have k: "k_ed25519_priv demo_keys = demo_key 3" "device_ed25519_pubkey (cert_new demo_crypto ?m (k_ed25519_pub demo_keys) (k_x25519_pub demo_keys)) = ed_pub demo_crypto (demo_key 3)"
    by (simp_all add: demo_keys_def cert_new_def demo_crypto_def)
  have n: "rt_server ?n = Some (dht_node_new (NodeID (demo_key 1)) (V4 zero_arr 8))" "rt_dht_pile ?n = []" "rt_ok (rt_routing ?n)"
      "plain (rt_routing ?n)" "canonical (V4 zero_arr 7)"
    by (simp_all add: enable_server_def runtime_bind_def plain_new routing_new_ok)
  have pile: "rt_dht_pile (cl_rt ?c) = []" "rt_out (cl_rt ?c) = []"
    by (simp_all add: lone_client_def Let_def client_on_def set_device_cert_def set_master_pubkey_def runtime_bind_def)
  have ttl: "nanos (Instant 2) < nanos (Instant 1) + from_secs (unat (60 :: u32))" by (simp add: from_secs_def)
  have sk: "rt_ed25519_priv (cl_rt ?c) = Some (demo_key 3)" using f(3) k(1) by simp
  have ra: "canonical (V4 zero_arr 9)" by simp
  let ?l = "cl_device_list ?c" and ?pk = "cl_our_pk ?c"
  obtain reply s' where
    "find_contact demo_crypto ?pk [(Instant 5, [[(reply, V4 zero_arr 8)]])] (cl_rt ?c) =
       Some (s', Ok (contact_new demo_crypto ?l (V4 zero_arr 9) 7 (demo_key 3)))"
    using published_contact_found [OF f(1,2) sk f(4) n f(1,2) pile(1) ed lone_client_list(1) ra lone_client_list(2) k(2) ttl, of 7 "Instant 0" _ _ _ "Instant 5"]
    by blast
  then show ?thesis using pile(2) f(8)
    by (intro exI [of _ "cl_rt ?c"] exI [of _ reply] exI [of _ s'] exI [of _ ?l] exI [of _ ?pk]) (simp add: Let_def)
qed

text \<open>
  C16. \<open>contact\<close>, on every branch. When it succeeds, a record was found for the key, the peer and the
  record's device list are known from then on, the peer's address is the relay that the record names, and for
  each device of the list, in its order, one handshake with that device's X25519 key has been put out to the relay, in a
  frame for the peer, its session waiting for the answer under a tag of its own. When it fails, no peer is
  learned; but when it fails after the record was found, the relay stays the peer's address and the handshakes
  for the devices before the failing one stay sent.
\<close>

theorem contact_greets_every_device:
  assumes "api_contact N C pk ws c = Some (c', out)"
  shows "case out of
      Ok _ \<Rightarrow> \<exists>r cr gs. find_contact C pk ws (cl_rt c) = Some (r, Ok cr) \<and> kept (cl_rt c) r \<and>
        cl_peers c' = AList.update pk \<lparr>pi_pk = pk, pi_device_list = cr_device_list cr, pi_conn_ids = []\<rparr> (cl_peers c) \<and>
        map_of (rt_pk_to_addr (cl_rt c')) pk = Some (cr_relay_addr cr) \<and>
        length gs = length (devices (cr_device_list cr)) \<and> greetings N C r pk (devices (cr_device_list cr)) gs \<and>
        rt_out (cl_rt c') = rt_out r @ map (\<lambda>(_, _, f). (f, cr_relay_addr cr)) gs \<and>
        map_of (rt_pending (cl_rt c')) = fold (\<lambda>(t, s, _) m. m(t \<mapsto> (s, Some pk))) gs (map_of (rt_pending r))
    | _ \<Rightarrow> c' = c\<lparr>cl_rt := cl_rt c'\<rparr> \<and>
        (\<not> ed_valid C pk \<and> c' = c \<or>
         (\<exists>found. find_contact C pk ws (cl_rt c) = Some (cl_rt c', found) \<and> map_res (\<lambda>_. ()) found = out) \<or>
         (\<exists>r cr gs. find_contact C pk ws (cl_rt c) = Some (r, Ok cr) \<and> kept (cl_rt c) r \<and>
            map_of (rt_pk_to_addr (cl_rt c')) pk = Some (cr_relay_addr cr) \<and>
            length gs < length (devices (cr_device_list cr)) \<and> greetings N C r pk (devices (cr_device_list cr)) gs \<and>
            rt_out (cl_rt c') = rt_out r @ map (\<lambda>(_, _, f). (f, cr_relay_addr cr)) gs))"
proof (cases "ed_valid C pk")
  case False
  then show ?thesis using assms by (auto simp: api_contact_def)
next
  case True
  then obtain r found where f: "find_contact C pk ws (cl_rt c) = Some (r, found)" using assms by (auto simp: api_contact_def)
  show ?thesis
  proof (cases found)
    case (Ok cr)
    let ?r = "set_peer_addr pk (cr_relay_addr cr) r"
    have k: "kept (cl_rt c) r" using kept_find_contact [OF kept_refl f] .
    obtain r' o' where g: "greet N C (UserID pk) (devices (cr_device_list cr)) ?r = (r', o')" by fastforce
    have a: "map_of (rt_pk_to_addr ?r) pk = Some (cr_relay_addr cr)" by (simp add: set_peer_addr_def update_conv)
    have same: "greetings N C ?r pk ds gs = greetings N C r pk ds gs" "rt_out ?r = rt_out r" "rt_pending ?r = rt_pending r" for ds gs
      by (simp_all add: greetings_def greeting_at_def set_peer_addr_def next_draw_def)
    from greet_sends [OF g a] obtain gs where gs: "greetings N C r pk (devices (cr_device_list cr)) gs"
      "rt_out r' = rt_out r @ map (\<lambda>(_, _, f). (f, cr_relay_addr cr)) gs" "map_of (rt_pk_to_addr r') pk = Some (cr_relay_addr cr)"
      "o' = Ok () \<longleftrightarrow> length gs = length (devices (cr_device_list cr))"
      "o' = Ok () \<longrightarrow> map_of (rt_pending r') = fold (\<lambda>(t, s, _) m. m(t \<mapsto> (s, Some pk))) gs (map_of (rt_pending r))"
      unfolding same using a by auto
    have le: "length gs \<le> length (devices (cr_device_list cr))" using gs(1) by (simp add: greetings_def)
    show ?thesis
    proof (cases "o' = Ok ()")
      case True
      then show ?thesis using assms f \<open>ed_valid C pk\<close> gs k by (auto simp: api_contact_def Ok g)
    next
      case False
      then have "length gs < length (devices (cr_device_list cr))" using gs(4) le by simp
      then show ?thesis
        using assms f \<open>ed_valid C pk\<close> gs k False by (cases o') (auto simp: api_contact_def Ok g)
    qed
  qed (use assms f True in \<open>auto simp: api_contact_def\<close>)
qed

theorem contact_greets_every_device_witness:
  "\<exists>(c :: demo_noise_state client) pk ws c' f. cl_peers c = [] \<and> api_contact demo_noise demo_crypto pk ws c = Some (c', Ok ()) \<and>
     map_of (cl_peers c') pk \<noteq> None \<and> last (rt_out (cl_rt c')) = (f, V4 zero_arr 9) \<and> tag (payload f) = RelayFrame"
proof -
  let ?m = "demo_owner 1"
  let ?c = "lone_client ?m demo_keys"
  let ?l = "cl_device_list ?c" and ?pk = "cl_our_pk ?c"
  let ?cr = "contact_new demo_crypto ?l (V4 zero_arr 9) 7 (demo_key 3)"
  let ?v = "Value (NodeID zero_arr) (contact_key_for demo_crypto ?pk) (Some (1 # contact_serialize ?cr)) []"
  let ?ws = "[(Instant 5, [[(dht_packet 0 ?v, V4 zero_arr 8)]])]"
  note f = lone_client_facts [of ?m demo_keys]
  have ed: "ed_ok demo_crypto" using demo_crypto_ok by (simp add: crypto_ok_def)
  have k: "device_ed25519_pubkey (cert_new demo_crypto ?m (k_ed25519_pub demo_keys) (k_x25519_pub demo_keys)) = ed_pub demo_crypto (demo_key 3)"
    by (simp add: demo_keys_def cert_new_def demo_crypto_def)
  have c: "rt_dht_pile (cl_rt ?c) = []" "cl_peers ?c = []" "rt_device_cert (cl_rt ?c) \<noteq> None"
    by (simp_all add: lone_client_def Let_def client_on_def set_device_cert_def set_master_pubkey_def runtime_bind_def)
  have ra: "canonical (V4 zero_arr 9)" by simp
  note good = contact_new_good [OF ed lone_client_list(1) ra lone_client_list(2) k, of 7]
  have "op_ok ?v" using good(2) by (simp add: nodes_ok_def)
  from lone_find [OF f(1,2) c(1) carries_dht_packet [OF this], of "contact_key_for demo_crypto ?pk" "Instant 5"] obtain s' where
    s': "find_value (contact_key_for demo_crypto ?pk) ?ws (cl_rt ?c) = Some (s', Ok (Some (1 # contact_serialize ?cr), [(NodeID (demo_key 1), V4 zero_arr 8)]))"
      "kept (cl_rt ?c) s'" by blast
  have "find_contact demo_crypto ?pk ?ws (cl_rt ?c) = Some (s', Ok ?cr)"
    unfolding find_contact_def s'(1) using good(1) by simp
  moreover have "cr_device_list ?cr = ?l" "cr_relay_addr ?cr = V4 zero_arr 9" by (simp_all add: contact_new_def)
  ultimately obtain ws cr where fc: "find_contact demo_crypto ?pk ws (cl_rt ?c) = Some (s', Ok cr)"
    and dl: "cr_device_list cr = ?l" "cr_relay_addr cr = V4 zero_arr 9" by blast
  have valid: "ed_valid demo_crypto ?pk" by (simp add: demo_crypto_def)
  obtain r' where g: "greet demo_noise demo_crypto (UserID ?pk) (devices ?l) (set_peer_addr ?pk (V4 zero_arr 9) s') = (r', Ok ())"
    using greet_total [of demo_noise "set_peer_addr ?pk (V4 zero_arr 9) s'" ?pk demo_crypto "devices ?l"] s'(2) c(3) f(4)
    by (auto simp: demo_noise_def kept_def set_peer_addr_def update_conv split_def)
  obtain c' where ct: "api_contact demo_noise demo_crypto ?pk ws ?c = Some (c', Ok ())"
    by (simp add: api_contact_def fc dl g valid)
  from contact_greets_every_device [OF this] obtain gs where
    x: "cl_peers c' = AList.update ?pk \<lparr>pi_pk = ?pk, pi_device_list = ?l, pi_conn_ids = []\<rparr> (cl_peers ?c)"
      "rt_out (cl_rt c') = rt_out s' @ map (\<lambda>(_, _, f). (f, V4 zero_arr 9)) gs" "length gs = length (devices ?l)"
      "greetings demo_noise demo_crypto s' ?pk (devices ?l) gs" by (auto simp: fc dl)
  obtain t s fr where g: "gs = [(t, s, fr)]" using x(3) f(8) by (auto simp: length_Suc_conv Let_def)
  then have "last (rt_out (cl_rt c')) = (fr, V4 zero_arr 9)" "tag (payload fr) = RelayFrame"
    using x(2,4) by (auto simp: greetings_def greeting_at_def frame_for_def)
  then show ?thesis using ct x(1) c(2)
    by (intro exI [of _ ?c] exI [of _ ?pk] exI [of _ ws] exI [of _ c'] exI [of _ fr]) (simp add: update_conv)
qed

end
