(* ===== verification/Cli.thy ===== *)
theory Cli
  imports ApiClient
begin

text \<open>
  main.rs: the command line program, an interactive client over a runtime of its own, and the batch mode that
  starts relays. What is typed is the lines that are read, and what the main loop prints is a list
  of values, one per \<open>println\<close>; the banner, the hints of the reading thread and the error stream
  are left out. \<open>unhex\<close> is \<open>hex::decode\<close>.
\<close>

section \<open>Lines and commands\<close>

datatype cmd = Connect "32 arr" | Send bytes | Quit

text \<open>\<open>trim\<close> on the UTF-8 of a line: the encodings of the characters with the property White_Space.\<close>

definition white_space :: "bytes list" where
  "white_space =
     [[9], [10], [11], [12], [13], [32], [0xC2, 0x85], [0xC2, 0xA0], [0xE1, 0x9A, 0x80]] @
     map (\<lambda>b. [0xE2, 0x80, b]) [0x80, 0x81, 0x82, 0x83, 0x84, 0x85, 0x86, 0x87, 0x88, 0x89, 0x8A, 0xA8, 0xA9, 0xAF] @
     [[0xE2, 0x81, 0x9F], [0xE3, 0x80, 0x80]]"

definition starts_with :: "bytes \<Rightarrow> bytes \<Rightarrow> bool" where
  "starts_with bs w \<longleftrightarrow> take (length w) bs = w"

function strip :: "bytes list \<Rightarrow> bytes \<Rightarrow> bytes" where
  "strip ws bs = (case find (\<lambda>w. w \<noteq> [] \<and> starts_with bs w) ws of None \<Rightarrow> bs | Some w \<Rightarrow> strip ws (drop (length w) bs))"
  by auto

termination
proof (relation "measure (\<lambda>(ws, bs). length bs)")
  fix ws bs and w :: bytes
  assume "find (\<lambda>w. w \<noteq> [] \<and> starts_with bs w) ws = Some w"
  then have "w \<noteq> []" "starts_with bs w" by (auto simp: find_Some_iff)
  then have "bs \<noteq> []" "0 < length w" by (auto simp: starts_with_def)
  then show "((ws, drop (length w) bs), ws, bs) \<in> measure (\<lambda>(ws, bs). length bs)" by simp
qed simp

declare strip.simps [simp del]

definition trim :: "bytes \<Rightarrow> bytes" where
  "trim bs = rev (strip (map rev white_space) (rev (strip white_space bs)))"

definition hex_pk :: "(bytes \<Rightarrow> bytes option) \<Rightarrow> bytes \<Rightarrow> 32 arr option" where
  "hex_pk unhex input =
     (let stripped = (if starts_with input (ascii ''0x'') then drop 2 input else input)
      in Option.bind (unhex stripped) try_arr)"

text \<open>
  The thread that reads lines: each \<open>read_line\<close> gives the bytes up to a line feed, which are no string if they are not
  UTF-8. An empty line is skipped; so is the end of the input, which \<open>read_line\<close> reports as
  a line of no bytes, for ever.
\<close>

fun commands_of :: "(bytes \<Rightarrow> bytes option) \<Rightarrow> bytes list \<Rightarrow> cmd list" where
  "commands_of unhex [] = []"
| "commands_of unhex (raw # rest) =
     (if \<not> utf8_valid raw then []
      else
        let line = trim raw in
        if line = [] then commands_of unhex rest
        else if line = ascii ''/quit'' \<or> line = ascii ''/q'' then [Quit]
        else (case hex_pk unhex line of Some pk \<Rightarrow> Connect pk | None \<Rightarrow> Send line) # commands_of unhex rest)"

section \<open>The program's state\<close>

record cli_peer =
  cp_pk :: "32 arr"
  cp_conn_id :: "16 arr option"

text \<open>Keys are printed in hexadecimal, their first four bytes or all of them.\<close>

datatype shown =
    Incoming bytes bytes
  | OwnKey
  | Switched bytes
  | LookingUp bytes
  | HandshakeSent bytes
  | HandshakeFailed error
  | NoSession error
  | ContactNotFound error
  | SendFailed error
  | NotEstablished
  | NoPeerSelected
  | Prompt "bytes option"

record 'hs cli =
  ui_rt :: "'hs runtime"
  ui_our_pk :: "32 arr"
  ui_peers :: "(32 arr, cli_peer) hash_map"
  ui_current :: "32 arr option"
  ui_dirty :: bool
  ui_shown :: "shown list"
  ui_read :: nat

definition say :: "shown \<Rightarrow> 'hs cli \<Rightarrow> 'hs cli" where
  "say s c = c\<lparr>ui_shown := ui_shown c @ [s]\<rparr>"

definition short :: "32 arr \<Rightarrow> bytes" where
  "short pk = take 4 (bytes_of pk)"

section \<open>The main loop\<close>

definition label_of :: "(32 arr, cli_peer) hash_map \<Rightarrow> 32 arr \<Rightarrow> bytes" where
  "label_of peers pk = (if map_of peers pk \<noteq> None then short pk else bytes_of pk)"

definition show_messages :: "'hs cli \<Rightarrow> 'hs cli" where
  "show_messages c =
     (let ms = drop (ui_read c) (rt_msgs (ui_rt c)) in
      c\<lparr>ui_read := length (rt_msgs (ui_rt c)), ui_dirty := ui_dirty c \<or> ms \<noteq> [],
        ui_shown := ui_shown c @ map (\<lambda>(msg, sender_pk). Incoming (label_of (ui_peers c) sender_pk) (content msg)) ms\<rparr>)"

text \<open>What \<open>Connect\<close> does with the record that it found: a session with the first device of the list.\<close>

definition greet_first :: "'hs noise \<Rightarrow> crypto \<Rightarrow> 32 arr \<Rightarrow> contact_record \<Rightarrow> 'hs cli \<Rightarrow> 'hs cli res" where
  "greet_first N C pk contact c =
     and_then (index (devices (cr_device_list contact)) 0) (\<lambda>device.
       if \<not> ed_valid C pk then Panic
       else
         (case enable_session_initiator N (device_x25519_pubkey device) (UserID pk)
                 (set_peer_addr pk (cr_relay_addr contact) (ui_rt c)) of
            (r, Err e) \<Rightarrow> Ok (say (NoSession e) (c\<lparr>ui_rt := r\<rparr>))
          | (r, Panic) \<Rightarrow> Panic
          | (r, Ok t) \<Rightarrow>
              (case rt_initiate_handshake N C t r of
                 (r, Err e) \<Rightarrow> Ok (say (HandshakeFailed e) (c\<lparr>ui_rt := r\<rparr>))
               | (r, Panic) \<Rightarrow> Panic
               | (r, Ok _) \<Rightarrow>
                   Ok (say (HandshakeSent (short pk))
                     (c\<lparr>ui_rt := r, ui_peers := AList.update pk \<lparr>cp_pk = pk, cp_conn_id = None\<rparr> (ui_peers c),
                        ui_current := Some pk\<rparr>)))))"

definition ui_connect :: "'hs noise \<Rightarrow> crypto \<Rightarrow> 32 arr \<Rightarrow> window list \<Rightarrow> 'hs cli \<Rightarrow> 'hs cli res option" where
  "ui_connect N C pk ws c =
     (if pk = ui_our_pk c then Some (Ok (say OwnKey c))
      else if map_of (ui_peers c) pk \<noteq> None then Some (Ok (say (Switched (short pk)) (c\<lparr>ui_current := Some pk\<rparr>)))
      else
        let c = say (LookingUp (short pk)) c in
        map_option (\<lambda>(r, found).
          case found of
            Ok contact \<Rightarrow> greet_first N C pk contact (c\<lparr>ui_rt := r\<rparr>)
          | Err e \<Rightarrow> Ok (say (ContactNotFound e) (c\<lparr>ui_rt := r\<rparr>))
          | Panic \<Rightarrow> Panic)
          (find_contact C pk ws (ui_rt c)))"

text \<open>\<open>i\<close> and \<open>unix\<close> are the id and the time that \<open>Message::new\<close> takes.\<close>

definition ui_send :: "crypto \<Rightarrow> u128 \<Rightarrow> u64 \<Rightarrow> bytes \<Rightarrow> 'hs cli \<Rightarrow> 'hs cli res" where
  "ui_send C i unix text c =
     (case ui_current c of
        None \<Rightarrow> Ok (say NoPeerSelected c)
      | Some pk \<Rightarrow>
          (case map_of (ui_peers c) pk of
             None \<Rightarrow> Ok c
           | Some peer \<Rightarrow>
               (case (case cp_conn_id peer of Some conn \<Rightarrow> Some conn | None \<Rightarrow> first_active_conn_id (ui_rt c)) of
                  None \<Rightarrow> Ok (say NotEstablished c)
                | Some conn \<Rightarrow>
                    (case send_message C (message_new i unix text None) pk (ui_rt c) of
                       (r, Panic) \<Rightarrow> Panic
                     | (r, out) \<Rightarrow>
                         (let c = c\<lparr>ui_rt := r, ui_peers := AList.update pk (peer\<lparr>cp_conn_id := Some conn\<rparr>) (ui_peers c)\<rparr>
                          in Ok (case out of Err e \<Rightarrow> say (SendFailed e) c | _ \<Rightarrow> c))))))"

text \<open>What \<open>try_recv\<close> finds in the channel of commands.\<close>

datatype polled = Got cmd | NothingYet | Disconnected

text \<open>
  What one turn of the loop meets: the packets that arrived before it, its clock readings, the id
  and time for a message, what a lookup hears, and what is in the channel.
\<close>

record turn =
  t_arrivals :: pile
  t_now :: instant
  t_unix :: u64
  t_msg_id :: u128
  t_msg_time :: u64
  t_windows :: "window list"
  t_polled :: polled

text \<open>The command of a turn, and whether the loop goes on.\<close>

definition ui_command :: "'hs noise \<Rightarrow> crypto \<Rightarrow> turn \<Rightarrow> 'hs cli \<Rightarrow> ('hs cli \<times> bool) res option" where
  "ui_command N C t c =
     (case t_polled t of
        Got Quit \<Rightarrow> Some (Ok (c, False))
      | Got (Connect pk) \<Rightarrow> map_option (map_res (\<lambda>c. (c\<lparr>ui_dirty := True\<rparr>, True))) (ui_connect N C pk (t_windows t) c)
      | Got (Send text) \<Rightarrow> Some (map_res (\<lambda>c. (c\<lparr>ui_dirty := True\<rparr>, True)) (ui_send C (t_msg_id t) (t_msg_time t) text c))
      | NothingYet \<Rightarrow> Some (Ok (c, True))
      | Disconnected \<Rightarrow> Some (Ok (c, False)))"

definition print_prompt :: "'hs cli \<Rightarrow> 'hs cli" where
  "print_prompt c =
     say (Prompt (map_option (\<lambda>p. short (cp_pk p)) (Option.bind (ui_current c) (map_of (ui_peers c))))) c"

definition ui_turn :: "'hs noise \<Rightarrow> crypto \<Rightarrow> turn \<Rightarrow> 'hs cli \<Rightarrow> ('hs cli \<times> bool) res option" where
  "ui_turn N C t c =
     (case tick N C (t_now t) (t_unix t) (arrive (t_arrivals t) (ui_rt c)) of
        Err e \<Rightarrow> Some (Err e)
      | Panic \<Rightarrow> Some Panic
      | Ok r \<Rightarrow>
          map_option (map_res (\<lambda>(c, goes_on).
            (if goes_on \<and> ui_dirty c then (print_prompt c)\<lparr>ui_dirty := False\<rparr> else c, goes_on)))
            (ui_command N C t (show_messages (c\<lparr>ui_rt := r\<rparr>))))"

text \<open>\<open>None\<close> when the turns run out and the loop has not ended.\<close>

fun ui_loop :: "'hs noise \<Rightarrow> crypto \<Rightarrow> turn list \<Rightarrow> 'hs cli \<Rightarrow> 'hs cli res option" where
  "ui_loop N C [] c = None"
| "ui_loop N C (t # ts) c =
     (case ui_turn N C t c of
        None \<Rightarrow> None
      | Some (Ok (c, goes_on)) \<Rightarrow> if goes_on then ui_loop N C ts c else Some (Ok c)
      | Some (Err e) \<Rightarrow> Some (Err e)
      | Some Panic \<Rightarrow> Some Panic)"

section \<open>Starting and ending\<close>

definition unwrap_res :: "'a res \<Rightarrow> 'a res" where
  "unwrap_res m = (case m of Ok x \<Rightarrow> Ok x | _ \<Rightarrow> Panic)"

definition keychain_path :: string where "keychain_path = ''/tmp/insub-cli.keychain''"

definition cli_password :: string where "cli_password = ''insub-cli''"

definition localhost :: "u16 \<Rightarrow> socket_addr" where
  "localhost p = V4 (arr_of [127, 0, 0, 1]) p"

text \<open>
  \<open>seed\<close> is the mnemonic of the new master key and \<open>seed'\<close> the one that \<open>Keychain::new\<close> generates. The
  runtime signs with the master key.
\<close>

definition ui_setup ::
    "crypto \<Rightarrow> host \<Rightarrow> (string \<Rightarrow> bytes) \<Rightarrow> (string \<Rightarrow> bytes) \<Rightarrow> disk \<Rightarrow> disk \<times> ('hs runtime \<times> 32 arr \<times> device_list) res" where
  "ui_setup C h seed seed' d =
     (case master_new C seed of
        Err e \<Rightarrow> (d, Err e)
      | Panic \<Rightarrow> (d, Panic)
      | Ok master \<Rightarrow>
          (case keychain_new C h keychain_path (Some cli_password) seed' d of
             (d, Err e) \<Rightarrow> (d, Panic)
           | (d, Panic) \<Rightarrow> (d, Panic)
           | (d, Ok k) \<Rightarrow>
               (let our_pk = m_public_key master in
                (d, and_then (certify C master k) (\<lambda>cert.
                    and_then (unwrap_res (h_bound h)) (\<lambda>actual_addr.
                    let r = set_master_pubkey our_pk (enable_server (runtime_bind (node_from_pubkey (sha256 C) our_pk) actual_addr
                              (Some (master_to_bytes master)) (k_x25519_priv k) (h_draws h)));
                        empty = list_new C master
                    in and_then (case add_device C master cert empty of Err _ \<Rightarrow> Ok empty | l \<Rightarrow> l) (\<lambda>device_list.
                       and_then (unwrap_res (own_registry C our_pk actual_addr)) (\<lambda>reg.
                         Ok (enable_relay reg (set_device_cert cert r), our_pk, device_list))))))))) "

definition ui_start ::
    "crypto \<Rightarrow> host \<Rightarrow> (string \<Rightarrow> bytes) \<Rightarrow> (string \<Rightarrow> bytes) \<Rightarrow> (nat \<Rightarrow> window list) \<Rightarrow> window list \<Rightarrow> disk \<Rightarrow>
     (disk \<times> 'hs cli option res) option" where
  "ui_start C h seed seed' wss pws d =
     (case ui_setup C h seed seed' d of
        (d, Err e) \<Rightarrow> Some (d, Err e)
      | (d, Panic) \<Rightarrow> Some (d, Panic)
      | (d, Ok (r, our_pk, device_list)) \<Rightarrow>
          Option.bind (join_retry id [localhost 8000] wss 5 r) (\<lambda>(r, joined).
          case joined of
            Err _ \<Rightarrow> Some (d, Ok None)
          | Panic \<Rightarrow> Some (d, Panic)
          | Ok _ \<Rightarrow>
              map_option (\<lambda>(r, published).
                (d, if published = Panic then Panic
                    else map_res (\<lambda>r. Some \<lparr>ui_rt = r, ui_our_pk = our_pk, ui_peers = [], ui_current = None, ui_dirty = True,
                                          ui_shown = [], ui_read = 0\<rparr>) (subscribe r)))
                (publish_own C our_pk device_list pws r)))"

text \<open>When the loop has ended the keychain is removed, whatever comes of it.\<close>

definition ui_end :: "disk \<Rightarrow> disk" where
  "ui_end d = d\<lparr>d_files := AList.delete keychain_path (d_files d)\<rparr>"

section \<open>Batches of relays\<close>

text \<open>The address, id and signing key of relay \<open>i\<close>, in arithmetic that panics where it overflows.\<close>

definition relay_identity :: "crypto \<Rightarrow> nat \<Rightarrow> (socket_addr \<times> node_id \<times> 32 arr) res" where
  "relay_identity C i =
     and_then (add_or_panic (8000 :: u16) (of_nat i)) (\<lambda>p.
     and_then (add_or_panic (0xCC :: u8) (of_nat i)) (\<lambda>a.
     and_then (add_or_panic (0xDD :: u8) (of_nat i)) (\<lambda>b.
       Ok (localhost p, node_from_pubkey (sha256 C) (arr_of (replicate 32 a)), arr_of (replicate 32 b)))))"

text \<open>
  The runtimes of a batch, up to the first panic: \<open>bind\<close> is what binding to an address gives, \<open>draws i\<close> and \<open>ws i\<close> what
  relay \<open>i\<close> draws and hears while it joins.
\<close>

fun start_relays ::
    "crypto \<Rightarrow> (socket_addr \<Rightarrow> socket_addr res) \<Rightarrow> (nat \<Rightarrow> nat \<Rightarrow> 32 arr) \<Rightarrow> (nat \<Rightarrow> window list) \<Rightarrow> nat list \<Rightarrow> 'hs runtime list res option" where
  "start_relays C bind draws ws [] = Some (Ok [])"
| "start_relays C bind draws ws (i # is) =
     (case and_then (relay_identity C i) (\<lambda>(addr, node, sk).
             map_res (\<lambda>a. enable_server (runtime_bind node a (Some sk) zero_arr (draws i))) (unwrap_res (bind addr))) of
        Err e \<Rightarrow> Some (Err e)
      | Panic \<Rightarrow> Some Panic
      | Ok r \<Rightarrow>
          Option.bind (join [localhost 8000] (ws i) r) (\<lambda>(r, joined).
            if unwrap_res joined = Panic then Some Panic
            else map_option (map_res (Cons r)) (start_relays C bind draws ws is)))"

definition run_batch_relays ::
    "crypto \<Rightarrow> (socket_addr \<Rightarrow> socket_addr res) \<Rightarrow> (nat \<Rightarrow> nat \<Rightarrow> 32 arr) \<Rightarrow> (nat \<Rightarrow> window list) \<Rightarrow> nat \<Rightarrow> 'hs runtime list res option" where
  "run_batch_relays C bind draws ws n =
     (case unwrap_res (bind (localhost 8000)) of
        Ok a \<Rightarrow>
          (let r0 = enable_server (runtime_bind (node_from_pubkey (sha256 C) (arr_of (replicate 32 0xAA))) a
                     (Some (arr_of (replicate 32 0xBB))) zero_arr (draws 0))
           in map_option (map_res (Cons r0)) (start_relays C bind draws ws [1..<n]))
      | Err e \<Rightarrow> Some (Err e)
      | Panic \<Rightarrow> Some Panic)"

end
