(* ===== verification/CommandLine.thy ===== *)
theory CommandLine
  imports Cli ContactExchange
begin

text \<open>
  The command line program: the invariant of its loop, what it shows, when it dies, and whether anyone
  can find what it publishes.
\<close>

section \<open>No panic of the parts\<close>

lemma find_contact_not_Panic:
  assumes "find_contact C pk ws r = Some (r', out)"
  shows "out \<noteq> Panic"
proof -
  obtain c q where st: "start_find_value (contact_key_for C pk) (rt_routing r) (rt_client r) = (c, q)" by fastforce
  obtain r1 o1 where 1: "lookup_loop ws q (r\<lparr>rt_client := c\<rparr>) = Some (r1, o1)"
    using assms by (auto simp: find_contact_def find_value_def st)
  have "o1 = Ok ()" using lookup_loop_Ok [OF 1] .
  then show ?thesis
    using assms
    by (auto simp: find_contact_def find_value_def st 1 with_result_def contact_of_value_def res_simps
        record_from_serialized_not_Panic contact_from_serialized_not_Panic split: if_splits)
qed

lemma initiator_not_Panic:
  "snd (enable_session_initiator N px u r) \<noteq> Panic" "snd (rt_initiate_handshake N C t r) \<noteq> Panic"
proof -
  show "snd (enable_session_initiator N px u r) \<noteq> Panic"
    by (auto simp: enable_session_initiator_def new_initiator_def initiator_new_def res_simps draw_u128_def draw_def Let_def
        split: res.split)
  have i: "snd (initiate_handshake N C a b addr s) \<noteq> Panic" for a b addr s
    by (auto simp: initiate_handshake_def initiator_initiate_def res_simps Let_def split: option.split prod.split)
  show "snd (rt_initiate_handshake N C t r) \<noteq> Panic"
    using i by (auto simp: rt_initiate_handshake_def Let_def draw_def draw_u128_def split: option.split prod.split res.split)
      (metis snd_conv)
qed

section \<open>The commands\<close>

definition ui_from :: "'hs cli \<Rightarrow> 'hs cli \<Rightarrow> bool" where
  "ui_from c0 c \<longleftrightarrow> kept (ui_rt c0) (ui_rt c) \<and> (runtime_ok (ui_rt c0) \<longrightarrow> runtime_ok (ui_rt c)) \<and> ui_our_pk c = ui_our_pk c0 \<and>
     ui_read c = ui_read c0"

definition incoming :: "shown list \<Rightarrow> (bytes \<times> bytes) list" where
  "incoming ss = List.map_filter (\<lambda>s. case s of Incoming label text \<Rightarrow> Some (label, text) | _ \<Rightarrow> None) ss"

lemma incoming_simps [simp]:
  "incoming [] = []" "incoming (xs @ ys) = incoming xs @ incoming ys"
  "incoming (s # xs) = (case s of Incoming label text \<Rightarrow> [(label, text)] | _ \<Rightarrow> []) @ incoming xs"
  by (simp_all add: incoming_def map_filter_def split: shown.split)

lemma say_simps [simp]:
  "ui_rt (say s c) = ui_rt c" "ui_our_pk (say s c) = ui_our_pk c" "ui_peers (say s c) = ui_peers c" "ui_read (say s c) = ui_read c"
  "ui_current (say s c) = ui_current c" "ui_shown (say s c) = ui_shown c @ [s]" "ui_from c0 (say s c) = ui_from c0 c"
  by (simp_all add: say_def ui_from_def)

lemma ui_from_refl [simp]: "ui_from c c"
  by (simp add: ui_from_def)

text \<open>How \<open>Connect\<close> can change the peers: not at all, or a peer is selected and is one from then on.\<close>

definition selects :: "crypto \<Rightarrow> 32 arr \<Rightarrow> 'hs cli \<Rightarrow> 'hs cli \<Rightarrow> bool" where
  "selects C pk c c' \<longleftrightarrow> ui_current c' = Some pk \<and> pk \<noteq> ui_our_pk c \<and>
     (ui_peers c' = ui_peers c \<and> map_of (ui_peers c) pk \<noteq> None \<or>
      ui_peers c' = AList.update pk \<lparr>cp_pk = pk, cp_conn_id = None\<rparr> (ui_peers c) \<and> map_of (ui_peers c) pk = None \<and> ed_valid C pk)"

lemma greet_first_outcome:
  assumes "devices (cr_device_list cr) \<noteq> []"
  shows "greet_first N C pk cr c = Panic \<and> \<not> ed_valid C pk \<or>
    (\<exists>c'. greet_first N C pk cr c = Ok c' \<and> ed_valid C pk \<and> ui_from c c' \<and> incoming (ui_shown c') = incoming (ui_shown c) \<and>
       (ui_current c' = ui_current c \<and> ui_peers c' = ui_peers c \<or>
        ui_current c' = Some pk \<and> ui_peers c' = AList.update pk \<lparr>cp_pk = pk, cp_conn_id = None\<rparr> (ui_peers c)))"
proof -
  obtain d ds where d: "index (devices (cr_device_list cr)) 0 = Ok d" using assms by (auto simp: index_def)
  let ?r = "set_peer_addr pk (cr_relay_addr cr) (ui_rt c)"
  obtain r1 o1 where 1: "enable_session_initiator N (device_x25519_pubkey d) (UserID pk) ?r = (r1, o1)" by fastforce
  have k1: "kept (ui_rt c) r1" using kept_initiator [of "ui_rt c" ?r N "device_x25519_pubkey d" "UserID pk"] by (simp add: 1)
  have "runtime_ok (ui_rt c) \<Longrightarrow> runtime_ok ?r" by (rule runtime_ok_tables)
  then have ok1: "runtime_ok (ui_rt c) \<Longrightarrow> runtime_ok r1"
    using enable_session_initiator_ok [of ?r N "device_x25519_pubkey d" "UserID pk"] by (simp add: 1)
  have p1: "o1 \<noteq> Panic" using initiator_not_Panic(1) [of N "device_x25519_pubkey d" "UserID pk" ?r] by (simp add: 1)
  show ?thesis
  proof (cases o1)
    case (Ok t)
    obtain r2 o2 where 2: "rt_initiate_handshake N C t r1 = (r2, o2)" by fastforce
    have k2: "kept (ui_rt c) r2" using kept_initiate [OF k1, of N C t] by (simp add: 2)
    have ok2: "runtime_ok (ui_rt c) \<Longrightarrow> runtime_ok r2" using rt_initiate_handshake_ok [OF ok1, of N C t] by (simp add: 2)
    have "o2 \<noteq> Panic" using initiator_not_Panic(2) [of N C t r1] by (simp add: 2)
    then show ?thesis
      using k2 ok2 by (cases o2) (auto simp: greet_first_def d 1 Ok 2 ui_from_def)
  qed (use k1 ok1 p1 in \<open>auto simp: greet_first_def d 1 ui_from_def\<close>)
qed

lemma ui_connect_outcome:
  assumes "ui_connect N C pk ws c = Some out"
  shows "out = Panic \<and> \<not> ed_valid C pk \<and> pk \<noteq> ui_our_pk c \<and> map_of (ui_peers c) pk = None \<and>
      (\<exists>r cr. find_contact C pk ws (ui_rt c) = Some (r, Ok cr)) \<or>
    (\<exists>c'. out = Ok c' \<and> ui_from c c' \<and> incoming (ui_shown c') = incoming (ui_shown c) \<and>
       (ed_valid C pk \<or> pk = ui_our_pk c \<or> map_of (ui_peers c) pk \<noteq> None \<or> (\<forall>r cr. find_contact C pk ws (ui_rt c) \<noteq> Some (r, Ok cr))) \<and>
       (ui_current c' = ui_current c \<and> ui_peers c' = ui_peers c \<or> selects C pk c c'))"
proof (cases "pk = ui_our_pk c \<or> map_of (ui_peers c) pk \<noteq> None")
  case True
  show ?thesis
  proof (cases "pk = ui_our_pk c")
    case True
    then show ?thesis using assms by (auto simp: ui_connect_def)
  next
    case False
    then have "out = Ok (say (Switched (short pk)) (c\<lparr>ui_current := Some pk\<rparr>))" using assms True by (simp add: ui_connect_def)
    then show ?thesis using False True by (auto simp: ui_from_def selects_def)
  qed
next
  case False
  then obtain r found where f: "find_contact C pk ws (ui_rt c) = Some (r, found)" using assms by (auto simp: ui_connect_def Let_def)
  have k: "kept (ui_rt c) r" "runtime_ok (ui_rt c) \<Longrightarrow> runtime_ok r"
    using kept_find_contact [OF kept_refl f] runtime_dht.keeps_find_contact [OF _ f] by simp_all
  let ?c = "say (LookingUp (short pk)) c\<lparr>ui_rt := r\<rparr>"
  show ?thesis
  proof (cases found)
    case (Ok cr)
    have "contact_verify C cr" using find_contact_record [OF f [unfolded Ok]] by simp
    then have "devices (cr_device_list cr) \<noteq> []" by (auto simp: contact_verify_def)
    note g = greet_first_outcome [OF this, of N C pk ?c]
    have o: "out = greet_first N C pk cr ?c" using assms False f by (simp add: ui_connect_def Ok Let_def)
    have "ui_from c c'" if "ui_from ?c c'" for c'
      using that k kept_trans [OF k(1)] by (auto simp: ui_from_def)
    then show ?thesis using g o False f Ok unfolding selects_def by auto
  next
    case (Err e)
    then show ?thesis using assms False f k by (auto simp: ui_connect_def ui_from_def Let_def)
  next
    case Panic
    then show ?thesis using find_contact_not_Panic [OF f] by simp
  qed
qed

lemma ui_send_outcome:
  assumes "ui_send C i unix text c = Ok c'"
  shows "ui_from c c' \<and> incoming (ui_shown c') = incoming (ui_shown c) \<and> ui_current c' = ui_current c \<and>
    (\<forall>pk. map_option cp_pk (map_of (ui_peers c') pk) = map_option cp_pk (map_of (ui_peers c) pk)) \<and> (hm_ok (ui_peers c) \<longrightarrow> hm_ok (ui_peers c'))"
proof (cases "ui_current c")
  case (Some pk)
  show ?thesis
  proof (cases "map_of (ui_peers c) pk")
    case peer: (Some p)
    obtain r o1 where s: "send_message C (message_new i unix text None) pk (ui_rt c) = (r, o1)" by fastforce
    have k: "kept (ui_rt c) r" "runtime_ok (ui_rt c) \<Longrightarrow> runtime_ok r"
      using kept_send_message [of "ui_rt c" "ui_rt c" C "message_new i unix text None" pk]
        send_message_ok [of "ui_rt c" C "message_new i unix text None" pk] by (simp_all add: s)
    show ?thesis
    proof (cases "case cp_conn_id p of Some conn \<Rightarrow> Some conn | None \<Rightarrow> first_active_conn_id (ui_rt c)")
      case None
      then show ?thesis using assms by (auto simp: ui_send_def Some peer)
    next
      case conn: (Some conn)
      then show ?thesis
        using assms k by (cases o1) (auto simp: ui_send_def Some peer s ui_from_def update_conv' Let_def)
    qed
  qed (use assms in \<open>auto simp: ui_send_def Some\<close>)
qed (use assms in \<open>auto simp: ui_send_def\<close>)

section \<open>The invariant of the loop\<close>

definition shown_ok :: "(bytes \<times> bytes) list \<Rightarrow> (message \<times> 32 arr) list \<Rightarrow> bool" where
  "shown_ok ss ms \<longleftrightarrow> list_all2 (\<lambda>(label, text) (msg, pk). text = content msg \<and> label \<in> {short pk, bytes_of pk}) ss ms"

definition cli_ok :: "crypto \<Rightarrow> 'hs cli \<Rightarrow> bool" where
  "cli_ok C c \<longleftrightarrow> runtime_ok (ui_rt c) \<and> rt_master_pubkey (ui_rt c) = Some (ui_our_pk c) \<and> hm_ok (ui_peers c) \<and>
     (\<forall>pk p. map_of (ui_peers c) pk = Some p \<longrightarrow> cp_pk p = pk \<and> ed_valid C pk) \<and> map_of (ui_peers c) (ui_our_pk c) = None \<and>
     (\<forall>pk. ui_current c = Some pk \<longrightarrow> map_of (ui_peers c) pk \<noteq> None) \<and>
     ui_read c \<le> length (rt_msgs (ui_rt c)) \<and> shown_ok (incoming (ui_shown c)) (take (ui_read c) (rt_msgs (ui_rt c)))"

text \<open>A command keeps it.\<close>

lemma cli_ok_from:
  assumes "cli_ok C c" and "ui_from c c'" and "incoming (ui_shown c') = incoming (ui_shown c)" and "hm_ok (ui_peers c')"
    and "\<forall>pk p. map_of (ui_peers c') pk = Some p \<longrightarrow> cp_pk p = pk \<and> ed_valid C pk"
    and "map_of (ui_peers c') (ui_our_pk c) = None"
    and "\<forall>pk. ui_current c' = Some pk \<longrightarrow> map_of (ui_peers c') pk \<noteq> None"
  shows "cli_ok C c'"
proof -
  obtain ms where "rt_msgs (ui_rt c') = rt_msgs (ui_rt c) @ ms" using assms(2) by (auto simp: ui_from_def kept_def prefix_def)
  then show ?thesis using assms by (auto simp: cli_ok_def ui_from_def kept_def)
qed

lemma ui_connect_ok:
  assumes "cli_ok C c" and "ui_connect N C pk ws c = Some (Ok c')"
  shows "cli_ok C c' \<and> ui_from c c' \<and> incoming (ui_shown c') = incoming (ui_shown c)"
proof -
  from ui_connect_outcome [OF assms(2)] have u: "ui_from c c'" "incoming (ui_shown c') = incoming (ui_shown c)"
    "ui_current c' = ui_current c \<and> ui_peers c' = ui_peers c \<or> selects C pk c c'" by auto
  then have "cli_ok C c'"
    using assms(1) by (intro cli_ok_from [OF assms(1) u(1,2)]) (auto simp: cli_ok_def selects_def update_conv' split: if_splits)
  then show ?thesis using u by blast
qed

lemma ui_send_ok:
  assumes "cli_ok C c" and "ui_send C i unix text c = Ok c'"
  shows "cli_ok C c' \<and> ui_from c c' \<and> incoming (ui_shown c') = incoming (ui_shown c)"
proof -
  note u = ui_send_outcome [OF assms(2)]
  have p: "\<exists>q. map_of (ui_peers c) pk = Some q \<and> cp_pk q = cp_pk p" if "map_of (ui_peers c') pk = Some p" for pk p
  proof -
    have "map_option cp_pk (map_of (ui_peers c) pk) = Some (cp_pk p)" using u that by (metis option.simps(9))
    then show ?thesis by auto
  qed
  have n: "map_of (ui_peers c') pk \<noteq> None" if "map_of (ui_peers c) pk \<noteq> None" for pk
    using u that by (metis option.map_disc_iff)
  have "cli_ok C c'"
    by (rule cli_ok_from [OF assms(1)]) (use assms(1) u p n in \<open>fastforce simp: cli_ok_def\<close>)+
  then show ?thesis using u by blast
qed

lemma ui_command_ok:
  assumes "cli_ok C c" and "ui_command N C t c = Some (Ok (c', goes_on))"
  shows "cli_ok C c' \<and> ui_from c c' \<and> incoming (ui_shown c') = incoming (ui_shown c)"
proof -
  have d: "cli_ok C (x\<lparr>ui_dirty := b\<rparr>) = cli_ok C x" "ui_from c (x\<lparr>ui_dirty := b\<rparr>) = ui_from c x" for x :: "'a cli" and b
    by (simp_all add: cli_ok_def ui_from_def)
  show ?thesis
    using assms ui_connect_ok [OF assms(1)] ui_send_ok [OF assms(1)]
    by (auto simp: ui_command_def map_res_eq d split: polled.splits cmd.splits)
qed

lemma show_messages_ok:
  assumes "cli_ok C c"
  shows "cli_ok C (show_messages c) \<and> ui_read (show_messages c) = length (rt_msgs (ui_rt c)) \<and> ui_rt (show_messages c) = ui_rt c \<and>
    shown_ok (incoming (ui_shown (show_messages c))) (rt_msgs (ui_rt c))"
proof -
  let ?ms = "drop (ui_read c) (rt_msgs (ui_rt c))"
  have i: "incoming (map (\<lambda>(msg, pk). Incoming (label_of p pk) (content msg)) ms) = map (\<lambda>(msg, pk). (label_of p pk, content msg)) ms" for p ms
    by (induction ms) (auto simp: incoming_def map_filter_def)
  have "shown_ok (map (\<lambda>(msg, pk). (label_of (ui_peers c) pk, content msg)) ?ms) ?ms"
    by (auto simp: shown_ok_def list_all2_conv_all_nth label_of_def split: prod.split)
  then have "shown_ok (incoming (ui_shown c) @ map (\<lambda>(msg, pk). (label_of (ui_peers c) pk, content msg)) ?ms)
      (take (ui_read c) (rt_msgs (ui_rt c)) @ ?ms)"
    using assms unfolding cli_ok_def shown_ok_def by (blast intro: list_all2_appendI)
  then have "shown_ok (incoming (ui_shown (show_messages c))) (rt_msgs (ui_rt c))"
    by (simp add: show_messages_def Let_def i)
  then show ?thesis using assms by (simp add: cli_ok_def) (simp add: show_messages_def Let_def)
qed

lemma cli_ok_tick:
  assumes "cli_ok C c" and "tick N C now u (arrive ps (ui_rt c)) = Ok r"
  shows "cli_ok C (c\<lparr>ui_rt := r\<rparr>)"
proof -
  have "kept (ui_rt c) (arrive ps (ui_rt c))" by (rule kept_rt.keeps_arrive) simp
  then have k: "kept (ui_rt c) r" using assms(2) by (rule kept_tick)
  have "runtime_ok r" using tick_ok [OF _ assms(2)] assms(1) runtime_dht.keeps_arrive [of "ui_rt c" ps] by (simp add: cli_ok_def)
  then show ?thesis
    using assms(1) k by (intro cli_ok_from [OF assms(1)]) (auto simp: cli_ok_def ui_from_def)
qed

text \<open>A turn: what its tick delivered is shown when it ends, with everything before.\<close>

lemma ui_turn_ok:
  assumes "cli_ok C c" and "ui_turn N C t c = Some (Ok (c', goes_on))"
  shows "\<exists>r. tick N C (t_now t) (t_unix t) (arrive (t_arrivals t) (ui_rt c)) = Ok r \<and> cli_ok C c' \<and>
    prefix (rt_msgs r) (rt_msgs (ui_rt c')) \<and> shown_ok (incoming (ui_shown c')) (rt_msgs r)"
proof -
  obtain r where r: "tick N C (t_now t) (t_unix t) (arrive (t_arrivals t) (ui_rt c)) = Ok r"
    using assms(2) by (auto simp: ui_turn_def split: res.splits)
  obtain c1 where c1: "ui_command N C t (show_messages (c\<lparr>ui_rt := r\<rparr>)) = Some (Ok (c1, goes_on))"
    and c': "c' = (if goes_on \<and> ui_dirty c1 then (print_prompt c1)\<lparr>ui_dirty := False\<rparr> else c1)"
    using assms(2) by (auto simp: ui_turn_def r map_res_eq)
  note s = show_messages_ok [OF cli_ok_tick [OF assms(1) r]]
  note o = ui_command_ok [OF conjunct1 [OF s] c1]
  have same: "incoming (ui_shown c') = incoming (ui_shown c1)" "ui_rt c' = ui_rt c1" "cli_ok C c' = cli_ok C c1"
    by (auto simp: c' print_prompt_def cli_ok_def)
  have "prefix (rt_msgs r) (rt_msgs (ui_rt c1))" using o s by (simp add: ui_from_def kept_def)
  then show ?thesis using o s same r by simp
qed

section \<open>Runs of the program\<close>

definition cli_start :: "crypto \<Rightarrow> 'hs cli \<Rightarrow> bool" where
  "cli_start C c \<longleftrightarrow> (\<exists>h seed seed' wss pws d d'. ui_start C h seed seed' wss pws d = Some (d', Ok (Some c)))"

definition cli_step :: "'hs noise \<Rightarrow> crypto \<Rightarrow> 'hs cli \<Rightarrow> 'hs cli \<Rightarrow> bool" where
  "cli_step N C c c' \<longleftrightarrow> (\<exists>t goes_on. ui_turn N C t c = Some (Ok (c', goes_on)))"

lemma ui_setup_parts:
  assumes "ui_setup C h seed seed' d = (d', Ok (r, pk, l))"
  shows "\<exists>master k cert. master_from_mnemonic C seed None = Ok master \<and> keychain_from_mnemonic C seed' (Some cli_password) = Ok k \<and>
    pk = m_public_key master \<and> certify C master k = Ok cert \<and> devices l = [cert] \<and> runtime_ok r \<and>
    rt_master_pubkey r = Some pk \<and> rt_device_cert r = Some cert \<and> rt_ed25519_priv r = Some (m_private_key master) \<and>
    rt_x25519_priv r = k_x25519_priv k \<and> rt_msgs r = [] \<and> rt_msg_rx r \<and> h_bound h = Ok (rt_address r)"
proof -
  obtain master where m: "master_from_mnemonic C seed None = Ok master"
    using assms by (cases "master_from_mnemonic C seed None") (auto simp: ui_setup_def)
  obtain d1 o1 where n: "keychain_new C h keychain_path (Some cli_password) seed' d = (d1, o1)" by fastforce
  then obtain k where o1: "o1 = Ok k" using assms by (cases o1) (auto simp: ui_setup_def m)
  note d = n [unfolded o1]
  have mk: "keychain_from_mnemonic C seed' (Some cli_password) = Ok k"
    using d by (auto simp: keychain_new_def Let_def map_res_eq split: res.splits prod.splits)
  obtain cert where cert: "certify C master k = Ok cert" using assms by (auto simp: ui_setup_def m d Let_def res_simps)
  have l: "add_device C master cert (list_new C master) = Ok \<lparr>sequence = 1, devices = [cert], list_signature = list_sign_data C 1 [cert] master\<rparr>"
    by (simp add: add_device_def list_new_def MAX_DEVICES_def Let_def add_or_panic_def)
  obtain a where a: "h_bound h = Ok a" using assms by (auto simp: ui_setup_def m d cert Let_def res_simps unwrap_res_def split: res.splits)
  obtain reg where reg: "own_registry C (m_public_key master) a = Ok reg"
    using assms by (auto simp: ui_setup_def m d cert a l Let_def res_simps unwrap_res_def split: res.splits)
  have r: "r = enable_relay reg (set_device_cert cert (set_master_pubkey (m_public_key master) (enable_server
      (runtime_bind (node_from_pubkey (sha256 C) (m_public_key master)) a (Some (master_to_bytes master)) (k_x25519_priv k) (h_draws h)))))"
    "pk = m_public_key master" "devices l = [cert]"
    using assms by (simp_all add: ui_setup_def m d cert a l reg Let_def unwrap_res_def) auto
  have "runtime_ok r"
    using runtime_bind_ok [of "node_from_pubkey (sha256 C) (m_public_key master)" a "Some (master_to_bytes master)" "k_x25519_priv k" "h_draws h"]
    unfolding r(1) set_device_cert_def set_master_pubkey_def enable_server_def enable_relay_def by simp
  then show ?thesis using m mk cert r a
    by (simp add: set_device_cert_def set_master_pubkey_def enable_server_def enable_relay_def runtime_bind_def master_to_bytes_def)
qed

lemma cli_start_ok: "cli_start C (c :: 'hs cli) \<Longrightarrow> cli_ok C c"
proof -
  assume "cli_start C c"
  then obtain h seed seed' wss pws d d' where u: "ui_start C h seed seed' wss pws d = Some (d', Ok (Some c))"
    unfolding cli_start_def by blast
  obtain d1 pk l and r :: "'hs runtime" where s: "ui_setup C h seed seed' d = (d1, Ok (r, pk, l))"
    using u by (auto simp: ui_start_def split: prod.splits res.splits)
  note p = ui_setup_parts [OF s]
  obtain r1 o1 where 1: "join_retry id [localhost 8000] wss 5 r = Some (r1, o1)"
    using u by (cases "join_retry id [localhost 8000] wss 5 r") (auto simp: ui_start_def s)
  have "bg_ok undefined C (id :: 'hs runtime \<Rightarrow> 'hs runtime)" by (simp add: bg_ok_def bg_none)
  from join_retry_ok [OF this kept_refl _ 1] p have k1: "kept r r1" "runtime_ok r1" by blast+
  have "o1 = Ok ()" using u by (cases o1) (auto simp: ui_start_def s 1)
  then obtain r2 o2 where 2: "publish_own C pk l pws r1 = Some (r2, o2)"
    using u by (cases "publish_own C pk l pws r1") (auto simp: ui_start_def s 1)
  from publish_own_ok [OF k1 2] have k2: "kept r r2" "runtime_ok r2" by blast+
  have "ui_rt c = r2\<lparr>rt_msg_rx := False\<rparr> \<and> ui_our_pk c = pk \<and> ui_peers c = [] \<and> ui_current c = None \<and> ui_shown c = [] \<and> ui_read c = 0"
    using u \<open>o1 = Ok ()\<close> by (auto simp: ui_start_def s 1 2 subscribe_def map_res_eq split: if_splits)
  then show "cli_ok C c" using p k2 by (auto simp: cli_ok_def kept_def shown_ok_def)
qed

interpretation cli: machine "cli_start C" "cli_step N C" "cli_ok C" for C N
  by unfold_locales (auto simp: cli_step_def intro: cli_start_ok dest: ui_turn_ok)

section \<open>Batches\<close>

lemma relay_identity_less: "i < 35 \<Longrightarrow> \<exists>x. relay_identity C i = Ok x"
proof -
  assume "i < 35"
  then have "unat (of_nat i :: u8) = i" "unat (of_nat i :: u16) = i" by (simp_all add: unat_of_nat take_bit_nat_eq_self)
  then show ?thesis using \<open>i < 35\<close> by (simp add: relay_identity_def add_or_panic_def)
qed

lemma relay_identity_35: "relay_identity C 35 = Panic"
  by (simp add: relay_identity_def add_or_panic_def)

lemma start_relays_less:
  fixes out :: "'hs runtime list res"
  assumes "\<forall>a. \<exists>b. bind a = Ok b" and "\<forall>i \<in> set is. i < 35"
  shows "start_relays C bind draws ws (is @ js) = Some out \<Longrightarrow>
    \<exists>rs o2. length rs = length is \<and> start_relays C bind draws ws js = Some o2 \<and> out = map_res ((@) rs) o2"
  using assms(2)
proof (induction "is" arbitrary: out)
  case (Cons i "is")
  obtain addr node sk where x: "relay_identity C i = Ok (addr, node, sk)" using relay_identity_less [of i C] Cons.prems(2) by auto
  obtain b where b: "bind addr = Ok b" using assms(1) by blast
  let ?r = "enable_server (runtime_bind node b (Some sk) zero_arr (draws i))"
  obtain j and r1 :: "'hs runtime" where j: "join [localhost 8000] (ws i) ?r = Some (r1, j)" using Cons.prems(1) by (auto simp: x b unwrap_res_def bind_eq_Some_conv)
  have "j = Ok ()" using join_Ok [OF j] .
  then obtain o1 :: "'hs runtime list res" where o1: "start_relays C bind draws ws (is @ js) = Some o1" "out = map_res (Cons r1) o1"
    using Cons.prems(1) j by (auto simp: x b unwrap_res_def)
  from Cons.IH [OF o1(1)] Cons.prems(2) obtain rs and o2 :: "'hs runtime list res" where "length rs = length is" "start_relays C bind draws ws js = Some o2" "o1 = map_res ((@) rs) o2"
    by auto
  then show ?case using o1(2) by (intro exI [of _ "r1 # rs"] exI [of _ o2]) (cases o2; simp)
next
  case Nil
  then show ?case by (intro exI [of _ "[]"] exI [of _ out]) (cases out; simp)
qed

section \<open>The program alone\<close>

text \<open>Nobody answers: joining and publishing change the client and what was sent, nothing else.\<close>

definition only_asks :: "'hs runtime \<Rightarrow> 'hs runtime \<Rightarrow> bool" where
  "only_asks r r' \<longleftrightarrow> r'\<lparr>rt_client := rt_client r, rt_out := rt_out r, rt_drawn := rt_drawn r\<rparr> = r"

lemma only_asks_facts:
  assumes "only_asks r r'"
  shows "rt_routing r' = rt_routing r" "rt_server r' = rt_server r" "rt_relay_fwd r' = rt_relay_fwd r" "rt_dht_pile r' = rt_dht_pile r"
    "rt_relay_pile r' = rt_relay_pile r" "rt_handshake_pile r' = rt_handshake_pile r" "rt_message_pile r' = rt_message_pile r"
    "rt_msg_rx r' = rt_msg_rx r" "rt_msgs r' = rt_msgs r" "rt_ed25519_priv r' = rt_ed25519_priv r" "rt_master_pubkey r' = rt_master_pubkey r"
proof -
  note e = arg_cong [OF assms [unfolded only_asks_def]]
  show "rt_routing r' = rt_routing r" using e [of rt_routing] by simp
  show "rt_server r' = rt_server r" using e [of rt_server] by simp
  show "rt_relay_fwd r' = rt_relay_fwd r" using e [of rt_relay_fwd] by simp
  show "rt_dht_pile r' = rt_dht_pile r" using e [of rt_dht_pile] by simp
  show "rt_relay_pile r' = rt_relay_pile r" using e [of rt_relay_pile] by simp
  show "rt_handshake_pile r' = rt_handshake_pile r" using e [of rt_handshake_pile] by simp
  show "rt_message_pile r' = rt_message_pile r" using e [of rt_message_pile] by simp
  show "rt_msg_rx r' = rt_msg_rx r" using e [of rt_msg_rx] by simp
  show "rt_msgs r' = rt_msgs r" using e [of rt_msgs] by simp
  show "rt_ed25519_priv r' = rt_ed25519_priv r" using e [of rt_ed25519_priv] by simp
  show "rt_master_pubkey r' = rt_master_pubkey r" using e [of rt_master_pubkey] by simp
qed

lemma join_unanswered: "\<exists>r'. join [seed] [(now, [])] r = Some (r', Ok ()) \<and> only_asks r r'"
  by (simp add: join_def start_join_def next_query_def Let_def skip_node_def continue_lookup_def send_dht_op_eq draw_u128_def draw_def only_asks_def)

lemma publish_alone:
  assumes "active_nodes (rt_routing r) = []" and "rt_ok (rt_routing r)" and "rt_ed25519_priv r = Some sk" and "rt_master_pubkey r = Some pk"
  shows "\<exists>r' e. publish_own C pk l [] r = Some (r', Err e) \<and> only_asks r r'"
proof -
  have "closest_nodes t K (rt_routing r) = []" for t using closest_nodes_facts [OF assms(2), of t K] assms(1) by simp
  then show ?thesis
    by (simp add: publish_own_def publish_contact_def assms(3,4) store_def lookup_node_def start_lookup_node_def next_query_def Let_def
        with_result_def lookup_result_def only_asks_def)
qed

lemma demo_setup:
  "\<exists>d r pk l. ui_setup demo_crypto demo_host demo_seed demo_seed demo_disk = (d, Ok (r :: demo_noise_state runtime, pk, l)) \<and>
     rt_server r \<noteq> None \<and> rt_routing r = routing_new (rt_id r) \<and> rt_dht_pile r = [] \<and> rt_relay_pile r = [] \<and> rt_handshake_pile r = [] \<and>
     rt_message_pile r = []"
proof -
  have h: "hkdf_ok demo_crypto" using demo_crypto_ok by (simp add: crypto_ok_def)
  obtain master where m: "master_from_mnemonic demo_crypto demo_seed None = Ok master" using master_total [OF h] by blast
  obtain k where k: "keychain_from_mnemonic demo_crypto demo_seed (Some cli_password) = Ok k" using keychain_total [OF h] by blast
  obtain d where d: "keychain_save demo_crypto demo_host keychain_path (Some cli_password) k demo_disk = (d, Ok ())"
    by (simp add: keychain_save_def keychain_serialize_def encrypt_with_password_def argon_derive_key_def cipher_encrypt_def demo_crypto_def
        fs_write_def demo_disk_def)
  then have n: "keychain_new demo_crypto demo_host keychain_path (Some cli_password) demo_seed demo_disk = (d, Ok k)" by (simp add: keychain_new_def k)
  have cert: "certify demo_crypto master k = Ok (cert_new demo_crypto master (k_ed25519_pub k) (k_x25519_pub k))" by (simp add: certify_def demo_crypto_def)
  have b: "h_bound demo_host = Ok (V4 zero_arr 7)" by (simp add: demo_host_def)
  show ?thesis
    by (simp add: ui_setup_def m n cert b unwrap_res_def own_registry_def relay_entry_new_def Let_def add_device_def list_new_def
        MAX_DEVICES_def add_or_panic_def enable_relay_def set_device_cert_def set_master_pubkey_def enable_server_def runtime_bind_def)
qed

lemma demo_cli:
  "\<exists>c :: demo_noise_state cli. cli_start demo_crypto c \<and> rt_server (ui_rt c) \<noteq> None \<and> rt_dht_pile (ui_rt c) = [] \<and> rt_relay_pile (ui_rt c) = [] \<and>
     rt_handshake_pile (ui_rt c) = [] \<and> rt_message_pile (ui_rt c) = [] \<and> ui_shown c = [] \<and> ui_current c = None \<and>
     rt_msgs (ui_rt c) = [] \<and> ui_read c = 0"
proof -
  let ?w = "[(Instant 0, [])] :: window list"
  obtain d pk l and r :: "demo_noise_state runtime" where s: "ui_setup demo_crypto demo_host demo_seed demo_seed demo_disk = (d, Ok (r, pk, l))"
    and r: "rt_server r \<noteq> None" "rt_routing r = routing_new (rt_id r)" "rt_dht_pile r = []" "rt_relay_pile r = []" "rt_handshake_pile r = []"
    "rt_message_pile r = []" using demo_setup by blast
  from ui_setup_parts [OF s] obtain sk where p: "rt_master_pubkey r = Some pk" "rt_ed25519_priv r = Some sk" "rt_msg_rx r" "rt_msgs r = []" by blast
  obtain r1 where "join [localhost 8000] ?w r = Some (r1, Ok ())" and a1: "only_asks r r1" using join_unanswered by blast
  then have j: "join_retry id [localhost 8000] (\<lambda>_. ?w) 5 r = Some (r1, Ok ())" by (simp add: eval_nat_numeral)
  note f1 = only_asks_facts [OF a1]
  have "active_nodes (rt_routing r1) = []" using f1(1) r(2) by (simp add: active_nodes_def routing_new_def bucket_new_def window_def)
  moreover have "rt_ok (rt_routing r1)" using f1(1) r(2) by (simp add: routing_new_ok)
  ultimately obtain r2 e where 2: "publish_own demo_crypto pk l [] r1 = Some (r2, Err e)" and a2: "only_asks r1 r2"
    using publish_alone f1 p by metis
  note f2 = only_asks_facts [OF a2]
  let ?c = "\<lparr>ui_rt = r2\<lparr>rt_msg_rx := False\<rparr>, ui_our_pk = pk, ui_peers = [], ui_current = None, ui_dirty = True, ui_shown = [], ui_read = 0\<rparr>"
  have "ui_start demo_crypto demo_host demo_seed demo_seed (\<lambda>_. ?w) [] demo_disk = Some (d, Ok (Some ?c))"
    using p f1 f2 by (simp add: ui_start_def s j 2 subscribe_def)
  then have "cli_start demo_crypto ?c" unfolding cli_start_def by blast
  then show ?thesis using f1 f2 r p(4) by (intro exI [of _ ?c]) simp
qed

section \<open>Properties\<close>

text \<open>
  C22. In any run of the program, when a turn of its loop ends, every message that the runtime has ever delivered
  up to its tick has been printed, once and in order, each with its text and its sender's key or the first four bytes of
  it. The selected peer is one that was contacted: it stands under its own key, a valid one that is not our own.
\<close>

theorem cli_shows_every_message:
  assumes "reach (cli_start C) (cli_step N C) c" and "ui_turn N C t c = Some (Ok (c', goes_on))"
  shows "\<exists>r. tick N C (t_now t) (t_unix t) (arrive (t_arrivals t) (ui_rt c)) = Ok r \<and>
      list_all2 (\<lambda>(label, text) (msg, pk). text = content msg \<and> label \<in> {take 4 (bytes_of pk), bytes_of pk}) (incoming (ui_shown c')) (rt_msgs r) \<and>
      (\<forall>pk. ui_current c' = Some pk \<longrightarrow> ed_valid C pk \<and> pk \<noteq> ui_our_pk c' \<and> map_option cp_pk (map_of (ui_peers c') pk) = Some pk)"
proof -
  from ui_turn_ok [OF cli.reach_inv [OF assms(1)] assms(2)] obtain r where
    r: "tick N C (t_now t) (t_unix t) (arrive (t_arrivals t) (ui_rt c)) = Ok r" "cli_ok C c'" "shown_ok (incoming (ui_shown c')) (rt_msgs r)"
    by blast
  have "ed_valid C pk \<and> pk \<noteq> ui_our_pk c' \<and> map_option cp_pk (map_of (ui_peers c') pk) = Some pk" if cur: "ui_current c' = Some pk" for pk
  proof -
    obtain p where "map_of (ui_peers c') pk = Some p" using r(2) cur by (auto simp: cli_ok_def)
    then show ?thesis using r(2) by (auto simp: cli_ok_def)
  qed
  then show ?thesis using r(1,3) unfolding shown_ok_def short_def by blast
qed

theorem cli_shows_every_message_witness:
  "\<exists>(c :: demo_noise_state cli) c'. cli_start demo_crypto c \<and>
     ui_turn demo_noise demo_crypto \<lparr>t_arrivals = [], t_now = Instant 1, t_unix = 0, t_msg_id = 0, t_msg_time = 0, t_windows = [], t_polled = Got (Send [104, 105])\<rparr> c =
       Some (Ok (c', True)) \<and> ui_shown c' = [NoPeerSelected, Prompt None] \<and> rt_msgs (ui_rt c') = []"
proof -
  let ?t = "\<lparr>t_arrivals = [], t_now = Instant 1, t_unix = 0, t_msg_id = 0, t_msg_time = 0, t_windows = [], t_polled = Got (Send [104, 105])\<rparr>"
  obtain c :: "demo_noise_state cli" where c: "cli_start demo_crypto c" "rt_dht_pile (ui_rt c) = []" "rt_relay_pile (ui_rt c) = []"
    "rt_handshake_pile (ui_rt c) = []" "rt_message_pile (ui_rt c) = []" "ui_shown c = []" "ui_current c = None" "rt_msgs (ui_rt c) = []" "ui_read c = 0"
    using demo_cli by blast
  let ?r = "ui_rt c\<lparr>rt_routing := evict_stale (Instant 1) (rt_routing (ui_rt c))\<rparr>"
  have r: "tick demo_noise demo_crypto (t_now ?t) (t_unix ?t) (arrive (t_arrivals ?t) (ui_rt c)) = Ok ?r"
    using c by (simp add: arrive_def tick_def tick_server_def tick_relay_def tick_handshake_def tick_message_def split: option.split)
  obtain c' where t: "ui_turn demo_noise demo_crypto ?t c = Some (Ok (c', True))" "ui_shown c' = [NoPeerSelected, Prompt None]" "rt_msgs (ui_rt c') = []"
    using c r by (simp add: ui_turn_def ui_command_def show_messages_def ui_send_def print_prompt_def)
  have "reach (cli_start demo_crypto) (cli_step demo_noise demo_crypto) c" using c(1) by (rule reach_init)
  from cli_shows_every_message [OF this t(1)] show ?thesis using c(1) t by blast
qed

text \<open>
  When the program dies of a \<open>Connect\<close>: exactly when a record is found for a key that is no valid
  public key (and neither our own nor a known peer's). Such a record is easy to plant, since
  the record's contents are never compared with the key; and the key is whatever was typed.
\<close>

theorem cli_connect_panics_iff:
  assumes "ui_connect N C pk ws c = Some out"
  shows "(out = Panic \<longleftrightarrow> \<not> ed_valid C pk \<and> pk \<noteq> ui_our_pk c \<and> map_of (ui_peers c) pk = None \<and>
      (\<exists>r cr. find_contact C pk ws (ui_rt c) = Some (r, Ok cr))) \<and> (\<forall>e. out \<noteq> Err e)"
  using ui_connect_outcome [OF assms] by auto

definition picky_crypto :: crypto where
  "picky_crypto = demo_crypto\<lparr>ed_valid := \<lambda>k. k \<noteq> demo_key 9\<rparr>"

theorem cli_connect_panics_iff_witness:
  "\<exists>(c :: demo_noise_state cli) ws. ui_connect demo_noise picky_crypto (demo_key 9) ws c = Some Panic"
proof -
  let ?m = "demo_owner 1"
  let ?lc = "lone_client ?m demo_keys"
  let ?l = "cl_device_list ?lc"
  let ?cr = "contact_new demo_crypto ?l (V4 zero_arr 9) 7 (demo_key 3)"
  let ?v = "Value (NodeID zero_arr) (contact_key_for picky_crypto (demo_key 9)) (Some (1 # contact_serialize ?cr)) []"
  let ?ws = "[(Instant 5, [[(dht_packet 0 ?v, V4 zero_arr 8)]])]"
  let ?c = "\<lparr>ui_rt = cl_rt ?lc, ui_our_pk = demo_key 8, ui_peers = [], ui_current = None, ui_dirty = False, ui_shown = [], ui_read = 0\<rparr>"
  note f = lone_client_facts [of ?m demo_keys]
  have ed: "ed_ok demo_crypto" using demo_crypto_ok by (simp add: crypto_ok_def)
  have k: "device_ed25519_pubkey (cert_new demo_crypto ?m (k_ed25519_pub demo_keys) (k_x25519_pub demo_keys)) = ed_pub demo_crypto (demo_key 3)"
    by (simp add: demo_keys_def cert_new_def demo_crypto_def)
  have ra: "canonical (V4 zero_arr 9)" by simp
  note good = contact_new_good [OF ed lone_client_list(1) ra lone_client_list(2) k, of 7]
  have dl: "devices ?l = [cert_new demo_crypto ?m (demo_key 3) (demo_key 4)]" unfolding f(8) by (simp add: Let_def demo_keys_def)
  have "contact_ok picky_crypto ?cr"
    by (simp add: contact_ok_def contact_new_def list_ok_def dl MAX_DEVICES_def cert_ok_def cert_new_def picky_crypto_def)
  moreover have "contact_verify picky_crypto ?cr"
    using good(1) by (auto simp: contact_of_value_exact contact_verify_def picky_crypto_def contact_signed_data_def)
  ultimately have v: "contact_of_value picky_crypto (Some (1 # contact_serialize ?cr)) = Ok ?cr"
    using good(1) by (auto simp: contact_of_value_exact)
  have "op_ok ?v" using good(2) by (simp add: nodes_ok_def)
  moreover have "rt_dht_pile (cl_rt ?lc) = []"
    by (simp add: lone_client_def Let_def client_on_def set_device_cert_def set_master_pubkey_def runtime_bind_def)
  ultimately obtain s' where
    "find_value (contact_key_for picky_crypto (demo_key 9)) ?ws (cl_rt ?lc) = Some (s', Ok (Some (1 # contact_serialize ?cr), [(NodeID (demo_key 1), V4 zero_arr 8)]))"
    using lone_find [OF f(1,2) _ carries_dht_packet, where key = "contact_key_for picky_crypto (demo_key 9)" and now = "Instant 5"] by blast
  then have "find_contact picky_crypto (demo_key 9) ?ws (cl_rt ?lc) = Some (s', Ok ?cr)" unfolding find_contact_def using v by simp
  then obtain ws where fc: "find_contact picky_crypto (demo_key 9) ws (ui_rt ?c) = Some (s', Ok ?cr)" by auto
  have pk: "demo_key 9 \<noteq> ui_our_pk ?c" "map_of (ui_peers ?c) (demo_key 9) = None" "\<not> ed_valid picky_crypto (demo_key 9)"
    by (simp_all add: picky_crypto_def)
  then obtain out where "ui_connect demo_noise picky_crypto (demo_key 9) ws ?c = Some out" using fc by (auto simp: ui_connect_def Let_def)
  with cli_connect_panics_iff [OF this] pk fc show ?thesis by blast
qed

text \<open>
  A batch can have 34 relays besides the first: with every address free, a larger one panics
  at the relay whose signing key byte does not fit in a \<open>u8\<close>, and the relays started before it die with it.
\<close>

theorem batch_panics_iff:
  assumes "\<forall>a. \<exists>b. bind a = Ok b" and "run_batch_relays C bind draws ws n = Some (out :: 'hs runtime list res)"
  shows "if 35 < n then out = Panic else \<exists>rs. out = Ok rs \<and> length rs = max 1 n"
proof -
  obtain b where b: "bind (localhost 8000) = Ok b" using assms(1) by blast
  obtain o1 and r0 :: "'hs runtime" where o1: "start_relays C bind draws ws [1..<n] = Some o1" "out = map_res (Cons r0) o1"
    using assms(2) by (auto simp: run_batch_relays_def b unwrap_res_def)
  show ?thesis
  proof (cases "35 < n")
    case True
    then have "[1..<n] = [1..<35] @ 35 # [36..<n]" using upt_add_eq_append [of 1 35 "n - 35"] upt_conv_Cons [of 35 n] by simp
    with o1(1) have "start_relays C bind draws ws ([1..<35] @ 35 # [36..<n]) = Some o1" by simp
    from start_relays_less [OF assms(1) _ this] obtain o2 and rs :: "'hs runtime list" where "start_relays C bind draws ws (35 # [36..<n]) = Some o2" "o1 = map_res ((@) rs) o2" by auto
    then show ?thesis using True o1(2) by (simp add: relay_identity_35)
  next
    case False
    have "start_relays C bind draws ws ([1..<n] @ []) = Some o1" using o1(1) by simp
    from start_relays_less [OF assms(1) _ this] False obtain rs :: "'hs runtime list" where "length rs = length [1..<n]" "o1 = Ok rs" by auto
    then show ?thesis using False o1(2) by auto
  qed
qed

lemma start_relays_ends:
  "\<exists>out :: 'hs runtime list res. start_relays C bind draws (\<lambda>_. [(Instant 0, [])]) is = Some out"
proof (induction "is")
  case (Cons i "is")
  then obtain o1 :: "'hs runtime list res" where o1: "start_relays C bind draws (\<lambda>_. [(Instant 0, [])]) is = Some o1" by blast
  show ?case
  proof (cases "and_then (relay_identity C i) (\<lambda>(addr, node, sk).
      map_res (\<lambda>a. enable_server (runtime_bind node a (Some sk) zero_arr (draws i)) :: 'hs runtime) (unwrap_res (bind addr)))")
    case (Ok r)
    obtain r' where "join [localhost 8000] [(Instant 0, [])] r = Some (r', Ok ())" using join_unanswered by blast
    then show ?thesis by (simp add: Ok o1)
  qed simp_all
qed simp

theorem batch_panics_iff_witness:
  "run_batch_relays demo_crypto Ok (\<lambda>_ _. zero_arr) (\<lambda>_. [(Instant 0, [])]) 100 = Some (Panic :: demo_noise_state runtime list res) \<and>
   (\<exists>rs :: demo_noise_state runtime list. run_batch_relays demo_crypto Ok (\<lambda>_ _. zero_arr) (\<lambda>_. [(Instant 0, [])]) 35 = Some (Ok rs) \<and> length rs = 35)"
proof -
  have f: "\<forall>a. \<exists>b. Ok a = Ok b" by simp
  have "\<exists>out :: demo_noise_state runtime list res. run_batch_relays demo_crypto Ok (\<lambda>_ _. zero_arr) (\<lambda>_. [(Instant 0, [])]) n = Some out" for n
    using start_relays_ends [of demo_crypto Ok "\<lambda>_ _. zero_arr" "[1..<n]"] by (auto simp: run_batch_relays_def unwrap_res_def)
  then obtain out :: "nat \<Rightarrow> demo_noise_state runtime list res" where
    o: "run_batch_relays demo_crypto Ok (\<lambda>_ _. zero_arr) (\<lambda>_. [(Instant 0, [])]) n = Some (out n)" for n by metis
  from batch_panics_iff [OF f o, of 100] batch_panics_iff [OF f o, of 35] o [of 100] o [of 35] show ?thesis by auto
qed

text \<open>
  C23. What the program publishes, nobody believes: the record lists the device of a keychain that was
  generated on its own, while the runtime signs it with the master key. Whoever finds the record accepts it only if a
  signature of the master key verifies under the unrelated device key, and rejects it otherwise.
\<close>

theorem cli_record_rejected:
  assumes "ui_setup C h seed seed' d = (d', Ok (r :: 'hs runtime, pk, l))" and "canonical ra"
  shows "\<exists>master k cr. master_from_mnemonic C seed None = Ok master \<and> keychain_from_mnemonic C seed' (Some cli_password) = Ok k \<and>
    rt_ed25519_priv r = Some (m_private_key master) \<and> cr = contact_new C l ra ri (m_private_key master) \<and>
    contact_of_value C (Some (record_serialize (record_new Contact (contact_serialize cr)))) =
      (if ed_verify C (k_ed25519_pub k) (contact_signed_data C l ra ri) (ed_sign C (m_private_key master) (contact_signed_data C l ra ri))
       then Ok cr else Err (Msg ''contact record signature invalid''))"
proof -
  from ui_setup_parts [OF assms(1)] obtain master k cert where p: "master_from_mnemonic C seed None = Ok master"
    "keychain_from_mnemonic C seed' (Some cli_password) = Ok k" "certify C master k = Ok cert" "devices l = [cert]"
    "rt_ed25519_priv r = Some (m_private_key master)" by blast
  have cert: "device_ed25519_pubkey cert = k_ed25519_pub k" "cert_ok C cert"
    using p(3) by (auto simp: certify_def cert_new_def cert_ok_def split: if_splits)
  define cr where "cr = contact_new C l ra ri (m_private_key master)"
  have ok: "contact_ok C cr" "devices (cr_device_list cr) \<noteq> []"
    using p(4) cert(2) assms(2) by (simp_all add: cr_def contact_new_def contact_ok_def list_ok_def MAX_DEVICES_def)
  then have c: "contact_from_serialized C (contact_serialize cr) = Ok cr" using contact.dec_enc by blast
  have "length (write_address ra) \<le> 19" by (cases ra) simp_all
  then have "length (contact_serialize cr) \<le> 1024"
    by (simp add: length_contact_serialize cr_def contact_new_def p(4))
  moreover have "contact_serialize cr \<noteq> []" using length_contact_serialize [of cr] by auto
  ultimately have "record_from_serialized (record_serialize (record_new Contact (contact_serialize cr))) = Ok (record_new Contact (contact_serialize cr))"
    by (simp add: record_from_serialized_iff record_ok_def record_new_def MAX_RECORD_SIZE_def)
  moreover have "contact_verify C cr \<longleftrightarrow> ed_verify C (k_ed25519_pub k) (contact_signed_data C l ra ri) (ed_sign C (m_private_key master) (contact_signed_data C l ra ri))"
    by (simp add: contact_verify_def cr_def contact_new_def p(4) cert(1))
  ultimately have "contact_of_value C (Some (record_serialize (record_new Contact (contact_serialize cr)))) =
      (if ed_verify C (k_ed25519_pub k) (contact_signed_data C l ra ri) (ed_sign C (m_private_key master) (contact_signed_data C l ra ri))
       then Ok cr else Err (Msg ''contact record signature invalid''))"
    using c by (simp add: contact_of_value_def record_new_def)
  then show ?thesis using p cr_def by blast
qed

theorem cli_record_rejected_witness:
  "\<exists>d r pk l master. ui_setup demo_crypto demo_host demo_seed demo_seed demo_disk = (d, Ok (r :: demo_noise_state runtime, pk, l)) \<and>
     rt_ed25519_priv r = Some (m_private_key (master :: master_key_pair)) \<and>
     contact_of_value demo_crypto (Some (record_serialize (record_new Contact (contact_serialize (contact_new demo_crypto l (V4 zero_arr 7) 3 (m_private_key master)))))) =
       Err (Msg ''contact record signature invalid'')"
proof -
  obtain d pk l and r :: "demo_noise_state runtime" where s: "ui_setup demo_crypto demo_host demo_seed demo_seed demo_disk = (d, Ok (r, pk, l))"
    using demo_setup by blast
  from cli_record_rejected [OF s, of "V4 zero_arr 7" 3] obtain master k where
    m: "master_from_mnemonic demo_crypto demo_seed None = Ok master" and k: "keychain_from_mnemonic demo_crypto demo_seed (Some cli_password) = Ok k"
    and r: "rt_ed25519_priv r = Some (m_private_key master)" and
    v: "contact_of_value demo_crypto (Some (record_serialize (record_new Contact (contact_serialize (contact_new demo_crypto l (V4 zero_arr 7) 3 (m_private_key master)))))) =
      (if ed_verify demo_crypto (k_ed25519_pub k) (contact_signed_data demo_crypto l (V4 zero_arr 7) 3) (ed_sign demo_crypto (m_private_key master) (contact_signed_data demo_crypto l (V4 zero_arr 7) 3))
       then Ok (contact_new demo_crypto l (V4 zero_arr 7) 3 (m_private_key master)) else Err (Msg ''contact record signature invalid''))" by auto
  have h: "hd (bytes_of (m_private_key master)) = 105" "hd (bytes_of (k_ed25519_pub k)) = 107"
    using m k by (auto simp: master_from_mnemonic_def keychain_from_mnemonic_def from_signing_key_bytes_def derive_key_def demo_crypto_def demo_seed_def
        ascii_def cli_password_def)
  have "\<not> ed_verify demo_crypto (k_ed25519_pub k) bs (ed_sign demo_crypto (m_private_key master) bs)" for bs
  proof
    let ?p = "bytes_of (k_ed25519_pub k)" and ?s = "bytes_of (m_private_key master)"
    assume "ed_verify demo_crypto (k_ed25519_pub k) bs (ed_sign demo_crypto (m_private_key master) bs)"
    then have "take 64 (?s @ bs @ replicate 64 0) = take 64 (?p @ bs @ replicate 64 0)"
      by (auto simp: demo_crypto_def dest: arg_cong [where f = bytes_of])
    then have "hd (take 64 (?s @ bs @ replicate 64 0)) = hd (take 64 (?p @ bs @ replicate 64 0))" by (simp only:)
    moreover have "?s \<noteq> []" "?p \<noteq> []" by (simp_all flip: length_greater_0_conv)
    ultimately show False using h by simp
  qed
  then have "contact_of_value demo_crypto (Some (record_serialize (record_new Contact (contact_serialize (contact_new demo_crypto l (V4 zero_arr 7) 3 (m_private_key master)))))) =
      Err (Msg ''contact record signature invalid'')" using v by simp
  then show ?thesis using s r by blast
qed

end
