(* ===== verification/Udp.thy ===== *)
theory Udp
  imports Packets
begin

text \<open>
  transport/udp.rs: packets over a UDP socket, a wrapper that the program does not use itself. The socket is the
  datagrams sent, those that wait to be received, and which ones the system refuses to send.
\<close>

record udp_transport =
  udp_sent :: "(bytes \<times> socket_addr) list"
  udp_waiting :: "(bytes \<times> socket_addr) list"
  udp_refuses :: "bytes \<Rightarrow> socket_addr \<Rightarrow> bool"

definition send_to_bytes :: "bytes \<Rightarrow> socket_addr \<Rightarrow> udp_transport \<Rightarrow> udp_transport \<times> nat res" where
  "send_to_bytes d dest t =
     (if udp_refuses t d dest then (t, Err (Msg ''io error''))
      else (t\<lparr>udp_sent := udp_sent t @ [(d, dest)]\<rparr>, Ok (length d)))"

text \<open>Receiving waits for a datagram (\<open>None\<close> while there is none) and keeps what fits in the buffer.\<close>

definition recv_bytes :: "udp_transport \<Rightarrow> (udp_transport \<times> bytes \<times> socket_addr) option" where
  "recv_bytes t =
     (case udp_waiting t of
        [] \<Rightarrow> None
      | (d, sender) # rest \<Rightarrow> Some (t\<lparr>udp_waiting := rest\<rparr>, take 65536 d, sender))"

definition udp_send_to :: "packet \<Rightarrow> socket_addr \<Rightarrow> udp_transport \<Rightarrow> udp_transport \<times> nat res" where
  "udp_send_to pkt dest t = send_to_bytes (packet_serialize pkt) dest t"

definition udp_recv_from :: "udp_transport \<Rightarrow> (udp_transport \<times> (packet \<times> socket_addr) res) option" where
  "udp_recv_from t =
     map_option (\<lambda>(t, d, sender). (t, map_res (\<lambda>pkt. (pkt, sender)) (map_err (Wrap ''invalid data'') (packet_from_serialized d))))
       (recv_bytes t)"

text \<open>
  A packet that was sent and fits in the buffer is received as it was sent, and no datagram makes the
  receiver panic.
\<close>

lemma udp_delivers:
  assumes "udp_send_to pkt dest t = (t', Ok n)" and "udp_waiting u = (d, sender) # rest"
  shows "udp_sent t' = udp_sent t @ [(packet_serialize pkt, dest)] \<and> n = length (packet_serialize pkt) \<and>
    (\<exists>u' out. udp_recv_from u = Some (u', out) \<and> udp_waiting u' = rest \<and> out \<noteq> Panic \<and>
       (d = packet_serialize pkt \<and> n \<le> 65536 \<longrightarrow> out = Ok (pkt, sender)))"
  using assms packet_from_serialized_not_Panic
  by (auto simp: udp_send_to_def send_to_bytes_def udp_recv_from_def recv_bytes_def res_simps split: if_splits)

end
