(* ===== verification/Spec2Isabelle.thy ===== *)
theory Spec2Isabelle
  imports Fragments Messages NodeIds DhtProto Routing Lookup DhtServer Crypto Identity Reliable Ratchet Session Contacts Registry
    Storage RuntimeConnect Node ContactExchange CommandLine Udp
begin

text \<open>
  A model of insub, a serverless messenger in Rust, with the theorems that say what its parts do. Names
  of definitions are those of the code, with a prefix or suffix where HOL uses the name; source files are
  named from \<open>src/src/\<close>.

  The program. Every client runs a node: a thread receives datagrams over a reliable transport and sorts
  them onto four piles (DHT operations, relay frames, handshakes, messages), a loop of ticks takes packets from the
  piles, and the application calls into the same runtime. Clients find each other through a Kademlia-like
  DHT that stores signed contact records under the hash of a master key; a record names the devices of its owner and
  the relay to reach them. Sessions are made by a Noise IK handshake with device certificates inside and
  continue as a double ratchet. A client keeps its identity, keychain, device list and peer tables in a directory.

  The theories, bottom up, with the code they model:

  \<^item> Prelude: results with panics, byte arrays, machine integers with overflow checks, instants, hash
    maps as association lists, the locale \<open>machine\<close> for invariants of reachable states, and the named collections of
    rewriting rules that carry the other theories' proofs.
  \<^item> Wire (protocol/wire.rs, payload tags and addresses), Packets (protocol/packet.rs, payload.rs), Messages
    (protocol/message.rs), Udp (transport/udp.rs): the formats. The locales \<open>codec\<close> and \<open>tight_codec\<close> state what an encoder and its parser
    promise each other, with the lemmas that follow (injectivity, reading from a stream); each format interprets them.
  \<^item> Fragments (transport/fragment.rs) and Reliable (transport/reliable.rs): splitting and reassembly; sending,
    acknowledging, deduplication and retransmission, as handlers of a step relation.
  \<^item> NodeIds (dht/node_id.rs), DhtProto (dht/protocol.rs), Routing (dht/routing.rs), Lookup (dht/client.rs), DhtServer
    (dht/node.rs): ids and distances, the operations and their format, the routing table and its abstraction to a
    map, lookups as sequences of events, and what a node answers.
  \<^item> Crypto (crypto/hkdf.rs, cipher.rs, argon.rs, exchange.rs), Ratchet (crypto/ratchet.rs), Session
    (crypto/handshake.rs, protocol/session.rs): the program's use of its crypto packages, the ratchet, the handshake and the session.
  \<^item> Identity (identity/), Contacts (dht/record/), Registry (network/), Storage (storage.rs): keys, certificates,
    device lists and keychains; contact records; relay entries and the forwarder; the tables of peers.
  \<^item> Runtime (runtime.rs: the state, the ticks, handshakes and messages) and Discovery (runtime.rs: waiting for
    responses, the query loop, join, lookups, publishing and finding records). The locales \<open>dht_caller\<close> (a
    predicate that the DHT client keeps) and \<open>runtime_frame\<close> (one that every handler but the handshakes keeps) carry properties
    through the handlers; each is interpreted for the properties of the model that need it. RuntimeInvariant, RuntimeMessages and RuntimeConnect hold
    the theorems: the invariant of the handlers, what sending and receiving do, two runtimes from first contact to answer, and the
    invariant in every reachable state, of which a runtime with an established session is an instance.
  \<^item> Node (the threads that \<open>Runtime::bind\<close> and \<open>ReliableTransport::bind\<close> start): runtime and transport as one node, a message between
    two nodes datagram by datagram, what is acknowledged, and what is left of a node when a thread has died.
  \<^item> Api (api.rs: the client), ApiState and ApiClient (the invariant of its states), Application (what an
    application can rely on) and ContactExchange (records between three runtimes, and what \<open>contact\<close> sends).
  \<^item> Cli (main.rs) and CommandLine: the interactive program, its loop and its batch mode.

  How state and operations correspond. A struct is a record, an enum a datatype, a method a function from the old state to
  the new one with its result. \<open>res\<close> is \<open>Result\<close> with a third outcome for panics: slicing and indexing out
  of range, \<open>unwrap\<close>, and overflow of \<open>+\<close> and \<open>-\<close> in the development profile. Error texts keep the template and their arguments. A HashMap is an
  association list with distinct keys, in an order that no theorem depends on. Channels are the lists of everything ever sent
  over them and a count of what was taken. What a mutex protects is one state; between two uses of it a client's background thread may
  have done anything it can (\<open>background\<close>, an argument \<open>bg\<close> of the operations).

  What is a parameter. The crypto packages are the fields of the record \<open>crypto\<close>, snow those of \<open>noise\<close>; theorems that need more of them assume
  the documented laws (\<open>hkdf_ok\<close>, \<open>aead_ok\<close>, \<open>dh_ok\<close>, \<open>ed_ok\<close>, \<open>noise_ok\<close>), and the demo instances satisfy them. Signatures and
  keys are nowhere assumed to be unforgeable: what an attacker cannot compute is not part of the model. Random values are a stream of draws,
  clocks are arguments, one reading per handler. A mnemonic is the function from passwords to its seed. The disk is a map from names to
  contents that may refuse writes. Hex decoding is an argument of the command line.

  Loops and bounds. Every function terminates; recursion over a pile, a list or a counter is structural or has a measure. The query loop of a lookup
  consumes one window per query, a clock reading with the polls of its wait; it gives \<open>None\<close> when the windows run out first, and
  \<open>lookups_end\<close> shows that one more window than there are ids to ask is enough. The main loop of the command line
  consumes one turn per round, and runs for as long as there are turns.

  What the theorems show. Correct behaviour first: conversations arrive in order over the handshake and the ratchet, over two runtimes and
  their relays; published records are found; messages are delivered and reported once; routing tables keep their shape and implement a map;
  fragments are reassembled in any order; formats parse back; clients open again as they were saved; lookups, retransmissions and waiting end. Then
  the exact extent of weaknesses that the code has: claims of identity that nobody checks, sessions and ratchets that a
  forged packet destroys, lists signed for another number, identities that a password splits, panics on short inputs, nodes that a single datagram
  or a long text silences.

  Not modelled: threads and sleeps as such (only their interleavings at the level of handlers and turns, and their deaths), zeroizing of memory, formatting for
  debug output, the progress on the error stream, the generation of mnemonics and random values, the calls of the operating system behind the
  socket and the files, the arguments of the command line, and the module declarations. Packets that arrive in the middle of a tick are those of the
  next one.
\<close>

end
